(* ===== verification/Desk_Prelude.thy ===== *)
theory Desk_Prelude
  imports Main "HOL-Library.Word" "HOL-Library.Signed_Division" "HOL-Library.Char_ord"
    "HOL-Library.List_Lexorder"
begin

text \<open>
  Shared vocabulary of the development: names for the machine types of the source, Rust's
  \<^verbatim>\<open>Result\<close> as a sum type with its combinators, checked integer arithmetic, big-endian
  byte encodings with the length-prefixed frames every hash and state image of the
  repository is built from, and the parts of Rust's \<^verbatim>\<open>str\<close> the sources call.
\<close>

section \<open>Names of the machine types\<close>

text \<open>
  Counters, heights and bytes are words of their width. A signed 128-bit value is an
  \<open>int\<close> whose operations check the range, because the sources only ever use the checked
  operations on it; \<^verbatim>\<open>usize\<close> values (lengths) are naturals. A \<^verbatim>\<open>String\<close> is the list of
  its UTF-8 bytes.
\<close>

type_synonym u8 = "8 word"
type_synonym u32 = "32 word"
type_synonym u64 = "64 word"
type_synonym bytes = "u8 list"
type_synonym hash = "u8 list"

named_theorems result_simps \<open>unfolding of Result combinators\<close>

named_theorems frame_simps \<open>facts about big-endian integers and length frames\<close>

section \<open>Results\<close>

text \<open>\<open>Inl\<close> is \<^verbatim>\<open>Err\<close>, \<open>Inr\<close> is \<^verbatim>\<open>Ok\<close>; \<open>rbind\<close> is the question-mark operator.\<close>

fun rbind :: "'e + 'a \<Rightarrow> ('a \<Rightarrow> 'e + 'b) \<Rightarrow> 'e + 'b" where
  "rbind (Inl e) f = Inl e"
| "rbind (Inr x) f = f x"

fun rmap :: "('a \<Rightarrow> 'b) \<Rightarrow> 'e + 'a \<Rightarrow> 'e + 'b" where
  "rmap f (Inl e) = Inl e"
| "rmap f (Inr x) = Inr (f x)"

fun map_err :: "('e \<Rightarrow> 'd) \<Rightarrow> 'e + 'a \<Rightarrow> 'd + 'a" where
  "map_err f (Inl e) = Inl (f e)"
| "map_err f (Inr x) = Inr x"

fun ok_or :: "'e \<Rightarrow> 'a option \<Rightarrow> 'e + 'a" where
  "ok_or e None = Inl e"
| "ok_or e (Some x) = Inr x"

fun is_ok :: "'e + 'a \<Rightarrow> bool" where
  "is_ok (Inl e) = False"
| "is_ok (Inr x) = True"

text \<open>A loop that stops at the first error, threading its state.\<close>

fun rfold :: "('a \<Rightarrow> 's \<Rightarrow> 'e + 's) \<Rightarrow> 'a list \<Rightarrow> 's \<Rightarrow> 'e + 's" where
  "rfold f [] s = Inr s"
| "rfold f (x # xs) s = rbind (f x s) (rfold f xs)"

text \<open>Collecting an iterator of results stops at the first error.\<close>

fun rcollect :: "('a \<Rightarrow> 'e + 'b) \<Rightarrow> 'a list \<Rightarrow> 'e + 'b list" where
  "rcollect f [] = Inr []"
| "rcollect f (x # xs) = rbind (f x) (\<lambda>y. rbind (rcollect f xs) (\<lambda>ys. Inr (y # ys)))"

lemma rbind_Inr_iff [result_simps]:
  "rbind m f = Inr y \<longleftrightarrow> (\<exists>x. m = Inr x \<and> f x = Inr y)"
  by (cases m) auto

lemma rbind_Inl_iff [result_simps]:
  "rbind m f = Inl e \<longleftrightarrow> m = Inl e \<or> (\<exists>x. m = Inr x \<and> f x = Inl e)"
  by (cases m) auto

lemma rmap_Inr_iff [result_simps]: "rmap f m = Inr y \<longleftrightarrow> (\<exists>x. m = Inr x \<and> y = f x)"
  by (cases m) auto

lemma rmap_Inl_iff [result_simps]: "rmap f m = Inl e \<longleftrightarrow> m = Inl e"
  by (cases m) auto

lemma map_err_Inr_iff [result_simps]: "map_err f m = Inr x \<longleftrightarrow> m = Inr x"
  by (cases m) auto

lemma map_err_Inl_iff [result_simps]: "map_err f m = Inl e \<longleftrightarrow> (\<exists>d. m = Inl d \<and> e = f d)"
  by (cases m) auto

lemma ok_or_Inr_iff [result_simps]: "ok_or e m = Inr x \<longleftrightarrow> m = Some x"
  by (cases m) auto

lemma ok_or_Inl_iff [result_simps]: "ok_or e m = Inl d \<longleftrightarrow> m = None \<and> d = e"
  by (cases m) auto

lemma is_ok_iff: "is_ok m \<longleftrightarrow> (\<exists>x. m = Inr x)"
  by (cases m) auto

lemma not_is_ok_iff: "\<not> is_ok m \<longleftrightarrow> (\<exists>e. m = Inl e)"
  by (cases m) auto

lemma rfold_append: "rfold f (xs @ ys) s = rbind (rfold f xs s) (rfold f ys)"
proof (induction xs arbitrary: s)
  case (Cons x xs)
  then show ?case by (cases "f x s") auto
qed simp

lemma rfold_invariant:
  assumes "rfold f xs s = Inr t" and "P s"
    and "\<And>x s t. x \<in> set xs \<Longrightarrow> P s \<Longrightarrow> f x s = Inr t \<Longrightarrow> P t"
  shows "P t"
  using assms
proof (induction xs arbitrary: s)
  case (Cons x xs)
  from Cons.prems(1) obtain u where u: "f x s = Inr u" "rfold f xs u = Inr t"
    by (auto simp: result_simps)
  have "P u" using Cons.prems(2,3) u(1) by auto
  moreover have "\<And>y s t. y \<in> set xs \<Longrightarrow> P s \<Longrightarrow> f y s = Inr t \<Longrightarrow> P t"
    using Cons.prems(3) by auto
  ultimately show ?case using Cons.IH [OF u(2)] by blast
qed simp

lemma rcollect_Inr_iff:
  "rcollect f xs = Inr ys \<longleftrightarrow> list_all2 (\<lambda>x y. f x = Inr y) xs ys"
proof (induction xs arbitrary: ys)
  case (Cons x xs)
  then show ?case by (auto simp: result_simps list_all2_Cons1)
qed auto

section \<open>Checked integer arithmetic\<close>

definition i128_max :: int where
  "i128_max = 170141183460469231731687303715884105727"

definition i128_min :: int where
  "i128_min = -170141183460469231731687303715884105728"

definition in_i128 :: "int \<Rightarrow> bool" where
  "in_i128 x \<longleftrightarrow> i128_min \<le> x \<and> x \<le> i128_max"

text \<open>\<^verbatim>\<open>checked_add\<close> and its kin on \<^verbatim>\<open>i128\<close>: \<open>None\<close> outside the range.\<close>

definition to_i128 :: "int \<Rightarrow> int option" where
  "to_i128 x = (if in_i128 x then Some x else None)"

definition u128_max :: nat where
  "u128_max = 340282366920938463463374607431768211455"

definition to_u128 :: "nat \<Rightarrow> nat option" where
  "to_u128 x = (if x \<le> u128_max then Some x else None)"

lemma to_i128_Some_iff [result_simps]: "to_i128 x = Some y \<longleftrightarrow> y = x \<and> in_i128 x"
  by (auto simp: to_i128_def)

lemma to_i128_None_iff [result_simps]: "to_i128 x = None \<longleftrightarrow> \<not> in_i128 x"
  by (auto simp: to_i128_def)

lemma to_u128_Some_iff [result_simps]: "to_u128 x = Some y \<longleftrightarrow> y = x \<and> x \<le> u128_max"
  by (auto simp: to_u128_def)

lemma to_u128_None_iff [result_simps]: "to_u128 x = None \<longleftrightarrow> u128_max < x"
  by (auto simp: to_u128_def)

lemma i128_max_eq: "i128_max = 2 ^ 127 - 1"
  by (simp add: i128_max_def)

lemma i128_min_eq: "i128_min = - (2 ^ 127)"
  by (simp add: i128_min_def)

lemma in_i128_abs_le: "in_i128 x \<Longrightarrow> \<bar>y\<bar> \<le> \<bar>x\<bar> \<Longrightarrow> 0 \<le> x * y \<Longrightarrow> in_i128 y"
  by (auto simp: in_i128_def i128_max_def i128_min_def zero_le_mult_iff)

lemma in_i128_0 [simp]: "in_i128 0"
  by (simp add: in_i128_def i128_max_def i128_min_def)

text \<open>Successor on 64-bit and 32-bit counters, \<open>None\<close> at the maximum.\<close>

definition checked_succ :: "'a::len word \<Rightarrow> 'a word option" where
  "checked_succ w = (if w = - 1 then None else Some (w + 1))"

definition saturating_succ :: "'a::len word \<Rightarrow> 'a word" where
  "saturating_succ w = (if w = - 1 then w else w + 1)"

lemma unat_plus_1: "w \<noteq> - 1 \<Longrightarrow> unat (w + 1) = Suc (unat (w :: 'a::len word))"
proof -
  assume "w \<noteq> - 1"
  then have "1 + w \<noteq> 0" by (metis add.commute add_eq_0_iff2 eq_neg_iff_add_eq_0)
  then show ?thesis using unatSuc [of w] by (simp add: add.commute)
qed

lemma checked_succ_Some_iff [result_simps]:
  "checked_succ w = Some v \<longleftrightarrow> w \<noteq> - 1 \<and> v = w + 1"
  by (auto simp: checked_succ_def)

lemma unat_checked_succ: "checked_succ w = Some v \<Longrightarrow> unat v = Suc (unat w)"
  by (auto simp: checked_succ_Some_iff unat_plus_1)

lemma unat_saturating_succ: "unat w \<le> unat (saturating_succ w)"
  by (simp add: saturating_succ_def unat_plus_1)

end
