(* ===== verification/Byte_Frames.thy ===== *)
theory Byte_Frames
  imports Desk_Prelude
begin

text \<open>
  Big-endian integers (\<^verbatim>\<open>to_be_bytes\<close>, \<^verbatim>\<open>from_be_bytes\<close>) and the length-prefixed frame
  \<^verbatim>\<open>len.to_be_bytes() ++ bytes\<close> that event identities, block hashes, incident identifiers,
  state keys and state images are assembled from. The facts of this theory are what make
  those byte strings uniquely readable.
\<close>

section \<open>Big-endian integers\<close>

fun nat_be :: "nat \<Rightarrow> nat \<Rightarrow> bytes" where
  "nat_be 0 n = []"
| "nat_be (Suc k) n = nat_be k (n div 256) @ [of_nat (n mod 256)]"

definition be_val :: "bytes \<Rightarrow> nat" where
  "be_val bs = foldl (\<lambda>a b. a * 256 + unat b) 0 bs"

definition be64 :: "u64 \<Rightarrow> bytes" where
  "be64 w = nat_be 8 (unat w)"

definition be32 :: "u32 \<Rightarrow> bytes" where
  "be32 w = nat_be 4 (unat w)"

definition from_be64 :: "bytes \<Rightarrow> u64" where
  "from_be64 bs = of_nat (be_val bs)"

text \<open>\<^verbatim>\<open>i64::to_be_bytes\<close> is the two's complement image.\<close>

definition be_i64 :: "int \<Rightarrow> bytes" where
  "be_i64 x = be64 (word_of_int x)"

lemma length_nat_be [simp]: "length (nat_be k n) = k"
  by (induction k arbitrary: n) auto

lemma be_val_append1 [simp]: "be_val (bs @ [b]) = be_val bs * 256 + unat b"
  by (simp add: be_val_def)

lemma be_val_Nil [simp]: "be_val [] = 0"
  by (simp add: be_val_def)

lemma unat_byte: "unat (b :: u8) < 256"
  using unsigned_less [of b] by simp

lemma unat_of_nat_byte: "unat (of_nat (n mod 256) :: u8) = n mod 256"
  by (simp add: unat_of_nat)

lemma be_val_nat_be: "be_val (nat_be k n) = n mod 256 ^ k"
proof (induction k arbitrary: n)
  case (Suc k)
  have "n mod 256 ^ Suc k = 256 * (n div 256 mod 256 ^ k) + n mod 256"
    by (simp add: mod_mult2_eq)
  then show ?case by (simp add: Suc unat_of_nat_byte)
qed simp

lemma nat_be_be_val: "nat_be (length bs) (be_val bs) = bs"
proof (induction bs rule: rev_induct)
  case (snoc b bs)
  have b: "unat b < 256" by (rule unat_byte)
  then have "(be_val bs * 256 + unat b) div 256 = be_val bs"
    and "(be_val bs * 256 + unat b) mod 256 = unat b" by simp_all
  then show ?case using snoc by simp
qed simp

lemma be_val_less: "be_val bs < 256 ^ length bs"
proof (induction bs rule: rev_induct)
  case (snoc b bs)
  have "unat b < 256" by (rule unat_byte)
  with snoc show ?case by simp
qed simp

lemma length_be64 [simp]: "length (be64 w) = 8"
  by (simp add: be64_def)

lemma length_be32 [simp]: "length (be32 w) = 4"
  by (simp add: be32_def)

lemma length_be_i64 [simp]: "length (be_i64 x) = 8"
  by (simp add: be_i64_def)

lemma unat_less_64: "unat (w :: u64) < 256 ^ 8"
  using unsigned_less [of w] by simp

lemma unat_less_32: "unat (w :: u32) < 256 ^ 4"
  using unsigned_less [of w] by simp

lemma from_be64_be64 [simp]: "from_be64 (be64 w) = w"
  using unat_less_64 [of w] by (simp add: from_be64_def be64_def be_val_nat_be)

lemma be64_from_be64: "length bs = 8 \<Longrightarrow> be64 (from_be64 bs) = bs"
  using nat_be_be_val [of bs] be_val_less [of bs]
  by (simp add: be64_def from_be64_def unat_of_nat)

lemma be64_inject [simp]: "be64 v = be64 w \<longleftrightarrow> v = w"
  by (metis from_be64_be64)

lemma be32_inject [simp]: "be32 v = be32 w \<longleftrightarrow> v = w"
proof
  assume "be32 v = be32 w"
  then have "be_val (nat_be 4 (unat v)) = be_val (nat_be 4 (unat w))"
    by (simp add: be32_def)
  then show "v = w"
    using unat_less_32 [of v] unat_less_32 [of w] by (simp add: be_val_nat_be word_unat_eq_iff)
qed simp

lemma be_i64_inject:
  assumes "be_i64 x = be_i64 y"
    and "- (2 ^ 63) \<le> x" "x < 2 ^ 63" "- (2 ^ 63) \<le> y" "y < 2 ^ 63"
  shows "x = y"
proof -
  have "(word_of_int x :: u64) = word_of_int y"
    using assms(1) by (simp add: be_i64_def)
  then have "sint (word_of_int x :: u64) = sint (word_of_int y :: u64)" by simp
  then show ?thesis using assms(2-) by (simp add: sint_sbintrunc' signed_take_bit_int_eq_self)
qed

section \<open>Length frames\<close>

text \<open>
  The length is written as a 64-bit integer. Rust never builds a slice of \<open>2 ^ 64\<close> bytes or
  more; \<open>short\<close> names that bound, and the sources abort (\<^verbatim>\<open>unreachable!\<close>, \<^verbatim>\<open>expect\<close>) beyond
  it.
\<close>

definition short :: "'a list \<Rightarrow> bool" where
  "short bs \<longleftrightarrow> length bs < 2 ^ 64"

definition count64 :: "nat \<Rightarrow> bytes" where
  "count64 n = be64 (of_nat n)"

definition frame :: "bytes \<Rightarrow> bytes" where
  "frame bs = count64 (length bs) @ bs"

lemma length_count64 [simp]: "length (count64 n) = 8"
  by (simp add: count64_def)

lemma length_frame [simp]: "length (frame bs) = 8 + length bs"
  by (simp add: frame_def)

lemma count64_inject: "n < 2 ^ 64 \<Longrightarrow> m < 2 ^ 64 \<Longrightarrow> count64 n = count64 m \<longleftrightarrow> n = m"
  by (auto simp: count64_def word_unat_eq_iff unat_of_nat)

lemma count64_of_nat: "n < 2 ^ 64 \<Longrightarrow> unat (from_be64 (count64 n)) = n"
  by (simp add: count64_def unat_of_nat)

text \<open>Cancellation: equal concatenations of fields of known width are equal field by field.\<close>

lemma be64_cancel [frame_simps]: "be64 v @ xs = be64 w @ ys \<longleftrightarrow> v = w \<and> xs = ys"
  by simp

lemma be32_cancel [frame_simps]: "be32 v @ xs = be32 w @ ys \<longleftrightarrow> v = w \<and> xs = ys"
  by simp

lemma count64_cancel [frame_simps]:
  "n < 2 ^ 64 \<Longrightarrow> m < 2 ^ 64 \<Longrightarrow> count64 n @ xs = count64 m @ ys \<longleftrightarrow> n = m \<and> xs = ys"
  by (simp add: count64_inject)

lemma frame_cancel [frame_simps]:
  assumes "short a" and "short b"
  shows "frame a @ xs = frame b @ ys \<longleftrightarrow> a = b \<and> xs = ys"
proof
  assume eq: "frame a @ xs = frame b @ ys"
  then have "length a = length b" and "a @ xs = b @ ys"
    using assms by (simp_all add: frame_def short_def count64_inject)
  then show "a = b \<and> xs = ys" by simp
qed simp

lemma frame_inject: "short a \<Longrightarrow> short b \<Longrightarrow> frame a = frame b \<longleftrightarrow> a = b"
  using frame_cancel [of a b "[]" "[]"] by simp

lemma count64_length_inject:
  "short as \<Longrightarrow> short bs \<Longrightarrow> count64 (length as) = count64 (length bs) \<longleftrightarrow> length as = length bs"
  unfolding short_def by (rule count64_inject)

text \<open>A counted or a known number of frames is read back unambiguously.\<close>

lemma concat_frames_cancel:
  assumes "length as = length bs" and "\<forall>a \<in> set as. short a" and "\<forall>b \<in> set bs. short b"
  shows "concat (map frame as) @ xs = concat (map frame bs) @ ys \<longleftrightarrow> as = bs \<and> xs = ys"
  using assms
proof (induction as bs rule: list_induct2)
  case (Cons a as b bs)
  then show ?case by (auto simp: frame_cancel)
qed simp

section \<open>Bytes of a string\<close>

definition str_bytes :: "string \<Rightarrow> bytes" where
  "str_bytes s = map of_char s"

lemma length_str_bytes [simp]: "length (str_bytes s) = length s"
  by (simp add: str_bytes_def)

lemma unat_of_char [simp]: "unat (of_char c :: u8) = of_char c"
proof -
  have "unat (of_nat (of_char c) :: u8) = of_char c mod 2 ^ 8"
    by (simp only: unat_of_nat) simp
  then show ?thesis by (simp add: of_nat_of_char)
qed

lemma of_char_byte_inject: "(of_char c :: u8) = of_char d \<longleftrightarrow> c = d"
proof
  assume "(of_char c :: u8) = of_char d"
  then have "unat (of_char c :: u8) = unat (of_char d :: u8)" by simp
  then have "(of_char c :: nat) = of_char d" by simp
  then show "c = d" by simp
qed simp

lemma str_bytes_inject [simp]: "str_bytes s = str_bytes t \<longleftrightarrow> s = t"
  by (simp add: str_bytes_def inj_map_eq_map inj_def of_char_byte_inject)

lemma short_str_bytes [simp]: "short (str_bytes s) \<longleftrightarrow> short s"
  by (simp add: short_def)

definition bytes_str :: "bytes \<Rightarrow> string" where
  "bytes_str bs = map (\<lambda>b. char_of (unat b)) bs"

lemma bytes_str_str_bytes [simp]: "bytes_str (str_bytes s) = s"
  by (simp add: bytes_str_def str_bytes_def comp_def)

lemma str_bytes_bytes_str [simp]: "str_bytes (bytes_str bs) = bs"
proof -
  have "(of_char (char_of (unat b)) :: u8) = b" for b :: u8
  proof -
    have "(of_char (char_of (unat b)) :: nat) = unat b"
      using unat_byte [of b] by simp
    then have "unat (of_char (char_of (unat b)) :: u8) = unat b"
      by (metis of_nat_of_char unat_of_nat_byte mod_less unat_byte)
    then show ?thesis by (simp add: word_unat_eq_iff)
  qed
  then show ?thesis by (simp add: bytes_str_def str_bytes_def comp_def)
qed

end
