(* ===== verification/Rust_Str.thy ===== *)
theory Rust_Str
  imports Byte_Frames
begin

text \<open>
  The parts of Rust's string library the sources call: printing and parsing decimal
  digits, splitting at a character, stripping a prefix, trimming white space and UTF-8
  validation. A string is the list of its UTF-8 bytes.
\<close>

section \<open>Decimal digits\<close>

definition code :: "char \<Rightarrow> nat" where
  "code c = of_char c"

definition is_digit :: "char \<Rightarrow> bool" where
  "is_digit c \<longleftrightarrow> 48 \<le> code c \<and> code c \<le> 57"

definition digit_char :: "nat \<Rightarrow> char" where
  "digit_char d = char_of (48 + d)"

definition digit_val :: "char \<Rightarrow> nat" where
  "digit_val c = code c - 48"

text \<open>\<^verbatim>\<open>Display\<close> of an unsigned integer, also \<^verbatim>\<open>BigInt::to_str_radix(10)\<close> of a magnitude.\<close>

fun nat_dec :: "nat \<Rightarrow> string" where
  "nat_dec n = (if n < 10 then [digit_char n] else nat_dec (n div 10) @ [digit_char (n mod 10)])"

declare nat_dec.simps [simp del]

text \<open>The value of a string of digits.\<close>

definition dec_val :: "string \<Rightarrow> nat" where
  "dec_val s = foldl (\<lambda>a c. 10 * a + digit_val c) 0 s"

text \<open>The format \<^verbatim>\<open>{:0width$}\<close>.\<close>

definition pad_zeros :: "nat \<Rightarrow> string \<Rightarrow> string" where
  "pad_zeros w s = replicate (w - length s) (CHR ''0'') @ s"

lemma code_digit_char [simp]: "d < 10 \<Longrightarrow> code (digit_char d) = 48 + d"
  by (simp add: code_def digit_char_def)

lemma is_digit_digit_char [simp]: "d < 10 \<Longrightarrow> is_digit (digit_char d)"
  by (simp add: is_digit_def)

lemma digit_val_digit_char [simp]: "d < 10 \<Longrightarrow> digit_val (digit_char d) = d"
  by (simp add: digit_val_def)

lemma digit_val_less: "is_digit c \<Longrightarrow> digit_val c < 10"
  by (auto simp: is_digit_def digit_val_def)

lemma digit_char_digit_val: "is_digit c \<Longrightarrow> digit_char (digit_val c) = c"
  by (auto simp: is_digit_def digit_val_def digit_char_def code_def)

lemma zero_digit [simp]: "is_digit (CHR ''0'')" "digit_val (CHR ''0'') = 0"
  by (simp_all add: is_digit_def digit_val_def code_def)

lemma digit_char_0 [simp]: "digit_char 0 = CHR ''0''"
  using digit_char_digit_val [of "CHR ''0''"] by simp

lemma not_digit [simp]: "\<not> is_digit (CHR ''.'')" "\<not> is_digit (CHR ''-'')" "\<not> is_digit (CHR ''+'')"
  by (simp_all add: is_digit_def code_def)

lemma dec_val_Nil [simp]: "dec_val [] = 0"
  by (simp add: dec_val_def)

lemma dec_val_snoc [simp]: "dec_val (s @ [c]) = 10 * dec_val s + digit_val c"
  by (simp add: dec_val_def)

lemma dec_val_append: "dec_val (s @ t) = dec_val s * 10 ^ length t + dec_val t"
proof (induction t rule: rev_induct)
  case (snoc c t)
  have "dec_val (s @ t @ [c]) = 10 * dec_val (s @ t) + digit_val c"
    using dec_val_snoc [of "s @ t" c] by simp
  with snoc show ?case by (simp add: algebra_simps)
qed simp

lemma dec_val_zeros [simp]: "dec_val (replicate k (CHR ''0'')) = 0"
proof (induction k)
  case (Suc k)
  have "replicate (Suc k) (CHR ''0'') = replicate k (CHR ''0'') @ [CHR ''0'']"
    by (simp add: replicate_append_same)
  with Suc show ?case by (simp only: dec_val_snoc) simp
qed simp

lemma dec_val_pad_zeros [simp]: "dec_val (pad_zeros w s) = dec_val s"
  by (simp add: pad_zeros_def dec_val_append)

lemma length_pad_zeros [simp]: "length (pad_zeros w s) = max w (length s)"
  by (simp add: pad_zeros_def)

lemma pad_zeros_Nil_iff [simp]: "pad_zeros w s = [] \<longleftrightarrow> w = 0 \<and> s = []"
  by (auto simp: pad_zeros_def)

lemma digits_pad_zeros: "list_all is_digit s \<Longrightarrow> list_all is_digit (pad_zeros w s)"
  by (auto simp: pad_zeros_def list_all_iff)

lemma dec_val_less: "list_all is_digit s \<Longrightarrow> dec_val s < 10 ^ length s"
proof (induction s rule: rev_induct)
  case (snoc c s)
  then have "dec_val s < 10 ^ length s" and "digit_val c < 10"
    by (auto simp: digit_val_less)
  then show ?case by simp
qed simp

lemma dec_val_nat_dec [simp]: "dec_val (nat_dec n) = n"
proof (induction n rule: nat_dec.induct)
  case (1 n)
  show ?case
  proof (cases "n < 10")
    case True
    then show ?thesis using dec_val_snoc [of "[]"] by (simp add: nat_dec.simps [of n])
  next
    case False
    with 1 show ?thesis by (simp add: nat_dec.simps [of n])
  qed
qed

lemma digits_nat_dec [simp]: "list_all is_digit (nat_dec n)"
proof (induction n rule: nat_dec.induct)
  case (1 n)
  then show ?case by (cases "n < 10") (simp_all add: nat_dec.simps [of n])
qed

lemma nat_dec_nonempty [simp]: "nat_dec n \<noteq> []"
  by (subst nat_dec.simps) simp

lemma nat_dec_0 [simp]: "nat_dec 0 = ''0''"
  by (subst nat_dec.simps) simp

lemma length_nat_dec_pos [simp]: "0 < length (nat_dec n)"
  by simp

lemma length_nat_dec_le: "0 < k \<Longrightarrow> n < 10 ^ k \<Longrightarrow> length (nat_dec n) \<le> k"
proof (induction n arbitrary: k rule: nat_dec.induct)
  case (1 n)
  show ?case
  proof (cases "n < 10")
    case True
    with 1 show ?thesis by (simp add: nat_dec.simps [of n])
  next
    case False
    obtain j where k: "k = Suc j" using 1(2) by (cases k) auto
    have "j \<noteq> 0" using False 1(3) k by (cases j) simp_all
    with k have j: "k = Suc j" "0 < j" by auto
    have "n div 10 < 10 ^ j" using 1(3) j by (simp add: less_mult_imp_div_less)
    then have "length (nat_dec (n div 10)) \<le> j" using 1(1) False j by blast
    with False j show ?thesis by (simp add: nat_dec.simps [of n])
  qed
qed

lemma nat_dec_ge_length: "n < 10 ^ length (nat_dec n)"
  using dec_val_less [of "nat_dec n"] by simp

text \<open>A number above nine prints no leading zero.\<close>

lemma hd_nat_dec: "0 < n \<Longrightarrow> hd (nat_dec n) \<noteq> CHR ''0''"
proof (induction n rule: nat_dec.induct)
  case (1 n)
  show ?case
  proof (cases "n < 10")
    case True
    have "digit_char n \<noteq> CHR ''0''"
      using True 1(2) digit_val_digit_char [of n] by (metis less_numeral_extra(3) zero_digit(2))
    with True show ?thesis by (simp add: nat_dec.simps [of n])
  next
    case False
    then have "0 < n div 10" by simp
    with 1(1) False show ?thesis by (simp add: nat_dec.simps [of n] hd_append)
  qed
qed

text \<open>Printing a value read from digits without a leading zero gives the digits back.\<close>

lemma nat_dec_dec_val:
  "list_all is_digit s \<Longrightarrow> s \<noteq> [] \<Longrightarrow> (length s = 1 \<or> hd s \<noteq> CHR ''0'') \<Longrightarrow> nat_dec (dec_val s) = s"
proof (induction s rule: rev_induct)
  case (snoc c s)
  show ?case
  proof (cases "s = []")
    case True
    then show ?thesis using snoc.prems dec_val_snoc [of "[]" c]
      by (simp add: nat_dec.simps digit_val_less digit_char_digit_val)
  next
    case False
    then have hd: "hd s \<noteq> CHR ''0''" using snoc.prems by (cases s) auto
    have IH: "nat_dec (dec_val s) = s" using snoc False hd by auto
    have "0 < dec_val s"
    proof (rule ccontr)
      assume "\<not> 0 < dec_val s"
      then have "s = nat_dec 0" using IH by simp
      then show False using hd by (simp add: nat_dec.simps)
    qed
    moreover have "digit_val c < 10" using snoc.prems by (simp add: digit_val_less)
    ultimately show ?thesis using IH snoc.prems
      by (simp add: nat_dec.simps [of "10 * dec_val s + digit_val c"] digit_char_digit_val)
  qed
qed simp

lemma dec_val_inject_length:
  assumes "list_all is_digit s" and "list_all is_digit t" and "length s = length t"
    and "dec_val s = dec_val t"
  shows "s = t"
  using assms
proof (induction s arbitrary: t rule: rev_induct)
  case (snoc c s)
  then obtain t' d where t: "t = t' @ [d]" by (cases t rule: rev_cases) auto
  have c: "is_digit c" "is_digit d" using snoc.prems t by auto
  have "10 * dec_val s + digit_val c = 10 * dec_val t' + digit_val d"
    using snoc.prems(4) t by simp
  then have "dec_val s = dec_val t'" and "digit_val c = digit_val d"
    using digit_val_less [OF c(1)] digit_val_less [OF c(2)] by presburger+
  then have "c = d" using c by (metis digit_char_digit_val)
  with \<open>dec_val s = dec_val t'\<close> snoc t show ?case by simp
qed simp

text \<open>A fraction printed with \<open>k\<close> places reads back, and conversely.\<close>

lemma pad_zeros_dec_val:
  assumes "list_all is_digit s" and "s \<noteq> []"
  shows "pad_zeros (length s) (nat_dec (dec_val s)) = s"
proof -
  have "length (nat_dec (dec_val s)) \<le> length s"
    using length_nat_dec_le [of "length s"] dec_val_less [OF assms(1)] assms(2) by simp
  then show ?thesis
    using assms by (intro dec_val_inject_length) (auto intro: digits_pad_zeros)
qed

section \<open>Splitting and stripping\<close>

text \<open>\<^verbatim>\<open>str::split\<close> at a character: the pieces between its occurrences, at least one.\<close>

fun split_on :: "char \<Rightarrow> string \<Rightarrow> string list" where
  "split_on c [] = [[]]"
| "split_on c (x # xs) =
     (if x = c then [] # split_on c xs
      else case split_on c xs of [] \<Rightarrow> [[x]] | p # ps \<Rightarrow> (x # p) # ps)"

fun strip_prefix :: "string \<Rightarrow> string \<Rightarrow> string option" where
  "strip_prefix [] s = Some s"
| "strip_prefix (p # ps) [] = None"
| "strip_prefix (p # ps) (c # s) = (if p = c then strip_prefix ps s else None)"

lemma split_on_nonempty [simp]: "split_on c s \<noteq> []"
  by (cases s) (auto split: list.splits)

lemma split_on_id: "c \<notin> set s \<Longrightarrow> split_on c s = [s]"
  by (induction s) auto

lemma split_on_append: "c \<notin> set a \<Longrightarrow> split_on c (a @ c # b) = a # split_on c b"
  by (induction a) auto

lemma split_on_single: "split_on c s = [w] \<Longrightarrow> s = w \<and> c \<notin> set s"
proof (induction s arbitrary: w)
  case (Cons x xs)
  then show ?case by (auto split: if_splits list.splits)
qed simp

lemma split_on_pair: "split_on c s = [w, f] \<Longrightarrow> s = w @ c # f \<and> c \<notin> set w \<and> c \<notin> set f"
proof (induction s arbitrary: w)
  case (Cons x xs)
  show ?case
  proof (cases "x = c")
    case True
    with Cons.prems have "w = []" and "split_on c xs = [f]" by auto
    with True show ?thesis using split_on_single by auto
  next
    case False
    with Cons.prems obtain p where "split_on c xs = [p, f]" and "w = x # p"
      by (auto split: list.splits)
    with Cons.IH False show ?thesis by auto
  qed
qed simp

lemma strip_prefix_Some_iff: "strip_prefix p s = Some t \<longleftrightarrow> s = p @ t"
  by (induction p s rule: strip_prefix.induct) auto

section \<open>White space\<close>

text \<open>
  \<^verbatim>\<open>str::trim\<close> removes leading and trailing characters with the Unicode property
  \<^verbatim>\<open>White_Space\<close>. In UTF-8 these are the following byte sequences; since the encoding is
  self-synchronising, a valid string starts (ends) with such a character exactly when it
  starts (ends) with its bytes.
\<close>

definition space_encodings :: "nat list list" where
  "space_encodings =
     [[9], [10], [11], [12], [13], [32], [194, 133], [194, 160], [225, 154, 128]]
     @ map (\<lambda>b. [226, 128, b]) ([128..<139] @ [168, 169, 175])
     @ [[226, 129, 159], [227, 128, 128]]"

definition starts_with_space :: "string \<Rightarrow> bool" where
  "starts_with_space s \<longleftrightarrow> list_ex (\<lambda>e. take (length e) (map code s) = e) space_encodings"

definition ends_with_space :: "string \<Rightarrow> bool" where
  "ends_with_space s \<longleftrightarrow>
     list_ex (\<lambda>e. take (length e) (rev (map code s)) = rev e) space_encodings"

text \<open>\<^verbatim>\<open>value.trim() == value\<close>.\<close>

definition is_trimmed :: "string \<Rightarrow> bool" where
  "is_trimmed s \<longleftrightarrow> \<not> starts_with_space s \<and> \<not> ends_with_space s"

section \<open>UTF-8\<close>

definition cont_byte :: "nat \<Rightarrow> bool" where
  "cont_byte b \<longleftrightarrow> 128 \<le> b \<and> b \<le> 191"

text \<open>\<^verbatim>\<open>std::str::from_utf8\<close> accepts exactly the well-formed byte sequences of the standard.\<close>

fun utf8_ok :: "nat list \<Rightarrow> bool" where
  "utf8_ok [] = True"
| "utf8_ok (a # r) =
     (if a \<le> 127 then utf8_ok r
      else if 194 \<le> a \<and> a \<le> 223 then
        (case r of b # r' \<Rightarrow> cont_byte b \<and> utf8_ok r' | _ \<Rightarrow> False)
      else if 224 \<le> a \<and> a \<le> 239 then
        (case r of b # c # r' \<Rightarrow>
           cont_byte b \<and> (a = 224 \<longrightarrow> 160 \<le> b) \<and> (a = 237 \<longrightarrow> b \<le> 159) \<and> cont_byte c \<and> utf8_ok r'
         | _ \<Rightarrow> False)
      else if 240 \<le> a \<and> a \<le> 244 then
        (case r of b # c # d # r' \<Rightarrow>
           cont_byte b \<and> (a = 240 \<longrightarrow> 144 \<le> b) \<and> (a = 244 \<longrightarrow> b \<le> 143)
           \<and> cont_byte c \<and> cont_byte d \<and> utf8_ok r'
         | _ \<Rightarrow> False)
      else False)"

definition from_utf8 :: "bytes \<Rightarrow> string option" where
  "from_utf8 bs = (if utf8_ok (map unat bs) then Some (bytes_str bs) else None)"

definition valid_str :: "string \<Rightarrow> bool" where
  "valid_str s \<longleftrightarrow> utf8_ok (map code s)"

lemma map_unat_str_bytes [simp]: "map unat (str_bytes s) = map code s"
  by (simp add: str_bytes_def comp_def code_def)

lemma from_utf8_str_bytes [simp]: "from_utf8 (str_bytes s) = (if valid_str s then Some s else None)"
  by (simp add: from_utf8_def valid_str_def)

lemma from_utf8_Some: "from_utf8 bs = Some s \<Longrightarrow> str_bytes s = bs \<and> valid_str s"
proof -
  assume "from_utf8 bs = Some s"
  then have "s = bytes_str bs" and "utf8_ok (map unat bs)"
    by (auto simp: from_utf8_def split: if_splits)
  moreover have "map unat bs = map code (bytes_str bs)"
    using map_unat_str_bytes [of "bytes_str bs"] by simp
  ultimately show ?thesis by (simp add: valid_str_def)
qed

end
