(* ===== verification/BTree_Map.thy ===== *)
theory BTree_Map
  imports Desk_Prelude
begin

text \<open>
  Rust's \<^verbatim>\<open>BTreeMap\<close>: an association list kept in the order of its keys. Keys are compared
  by their \<^verbatim>\<open>Ord\<close> instance only, given here as the strict order \<open>lt\<close>; two keys neither of
  which is less are the same key to the map even where they are different values (two
  decimals of different scale). As in Rust, inserting under a key that is already there
  replaces the value and keeps the stored key.
\<close>

section \<open>Operations\<close>

type_synonym ('k, 'v) btree = "('k \<times> 'v) list"

fun bt_get :: "('k \<Rightarrow> 'k \<Rightarrow> bool) \<Rightarrow> 'k \<Rightarrow> ('k, 'v) btree \<Rightarrow> 'v option" where
  "bt_get lt k [] = None"
| "bt_get lt k ((a, v) # m) =
     (if lt k a then None else if lt a k then bt_get lt k m else Some v)"

fun bt_insert :: "('k \<Rightarrow> 'k \<Rightarrow> bool) \<Rightarrow> 'k \<Rightarrow> 'v \<Rightarrow> ('k, 'v) btree \<Rightarrow> ('k, 'v) btree" where
  "bt_insert lt k v [] = [(k, v)]"
| "bt_insert lt k v ((a, w) # m) =
     (if lt k a then (k, v) # (a, w) # m
      else if lt a k then (a, w) # bt_insert lt k v m
      else (a, v) # m)"

fun bt_remove :: "('k \<Rightarrow> 'k \<Rightarrow> bool) \<Rightarrow> 'k \<Rightarrow> ('k, 'v) btree \<Rightarrow> ('k, 'v) btree" where
  "bt_remove lt k [] = []"
| "bt_remove lt k ((a, w) # m) =
     (if lt k a then (a, w) # m
      else if lt a k then (a, w) # bt_remove lt k m
      else m)"

definition bt_keys :: "('k, 'v) btree \<Rightarrow> 'k list" where
  "bt_keys m = map fst m"

definition bt_values :: "('k, 'v) btree \<Rightarrow> 'v list" where
  "bt_values m = map snd m"

definition bt_sorted :: "('k \<Rightarrow> 'k \<Rightarrow> bool) \<Rightarrow> ('k, 'v) btree \<Rightarrow> bool" where
  "bt_sorted lt m \<longleftrightarrow> sorted_wrt (\<lambda>p q. lt (fst p) (fst q)) m"

definition bt_extend :: "('k \<Rightarrow> 'k \<Rightarrow> bool) \<Rightarrow> ('k \<times> 'v) list \<Rightarrow> ('k, 'v) btree \<Rightarrow> ('k, 'v) btree" where
  "bt_extend lt ps m = fold (\<lambda>(k, v). bt_insert lt k v) ps m"

definition same_key :: "('k \<Rightarrow> 'k \<Rightarrow> bool) \<Rightarrow> 'k \<Rightarrow> 'k \<Rightarrow> bool" where
  "same_key lt a b \<longleftrightarrow> \<not> lt a b \<and> \<not> lt b a"

lemma bt_sorted_Nil [simp]: "bt_sorted lt []"
  by (simp add: bt_sorted_def)

lemma bt_sorted_Cons:
  "bt_sorted lt ((a, v) # m) \<longleftrightarrow> (\<forall>(b, w) \<in> set m. lt a b) \<and> bt_sorted lt m"
  by (auto simp: bt_sorted_def)

lemma same_key_sym: "same_key lt a b \<longleftrightarrow> same_key lt b a"
  by (auto simp: same_key_def)

lemma length_bt_keys [simp]: "length (bt_keys m) = length m"
  by (simp add: bt_keys_def)

section \<open>The contract of a key order\<close>

text \<open>
  What \<^verbatim>\<open>BTreeMap\<close> asks of \<^verbatim>\<open>Ord\<close>: a strict weak order. Everything the clients use of the
  map follows from it.
\<close>

locale key_order =
  fixes lt :: "'k \<Rightarrow> 'k \<Rightarrow> bool"
  assumes lt_irrefl: "\<not> lt a a"
    and lt_trans: "lt a b \<Longrightarrow> lt b c \<Longrightarrow> lt a c"
    and lt_weak: "lt a c \<Longrightarrow> lt a b \<or> lt b c"
begin

lemma lt_asym: "lt a b \<Longrightarrow> \<not> lt b a"
  using lt_irrefl lt_trans by blast

lemma same_key_refl [simp]: "same_key lt a a"
  by (simp add: same_key_def lt_irrefl)

lemma same_key_trans: "same_key lt a b \<Longrightarrow> same_key lt b c \<Longrightarrow> same_key lt a c"
  unfolding same_key_def using lt_weak by blast

lemma same_key_lt1: "same_key lt a b \<Longrightarrow> lt a c \<longleftrightarrow> lt b c"
  unfolding same_key_def using lt_weak lt_trans by blast

lemma same_key_lt2: "same_key lt a b \<Longrightarrow> lt c a \<longleftrightarrow> lt c b"
  unfolding same_key_def using lt_weak lt_trans by blast

lemma bt_get_same_key: "same_key lt a b \<Longrightarrow> bt_get lt a m = bt_get lt b m"
  using same_key_lt1 [of a b] same_key_lt2 [of a b] by (induction m) auto

lemma bt_get_Some_iff:
  "bt_sorted lt m \<Longrightarrow>
   bt_get lt k m = Some v \<longleftrightarrow> (\<exists>a. (a, v) \<in> set m \<and> same_key lt a k)"
proof (induction m)
  case (Cons p m)
  obtain a w where p: "p = (a, w)" by (cases p)
  from Cons.prems have less: "\<And>b u. (b, u) \<in> set m \<Longrightarrow> lt a b" and s: "bt_sorted lt m"
    by (auto simp: p bt_sorted_Cons)
  consider "lt k a" | "lt a k" | "same_key lt a k"
    by (auto simp: same_key_def)
  then show ?case
  proof cases
    case 1
    then have "\<not> same_key lt b k" if "(b, u) \<in> set m" for b u
      using less [OF that] lt_trans by (auto simp: same_key_def)
    with 1 show ?thesis by (auto simp: p same_key_def)
  next
    case 2
    with Cons.IH [OF s] show ?thesis by (auto simp: p same_key_def lt_asym)
  next
    case 3
    then have "\<not> same_key lt b k" if "(b, u) \<in> set m" for b u
      using less [OF that] same_key_lt1 [OF 3] by (simp add: same_key_def)
    with 3 show ?thesis by (auto simp: p same_key_def)
  qed
qed simp

lemma bt_get_None_iff:
  "bt_sorted lt m \<Longrightarrow> bt_get lt k m = None \<longleftrightarrow> (\<forall>(a, v) \<in> set m. \<not> same_key lt a k)"
  using bt_get_Some_iff [of m k] by (cases "bt_get lt k m") (auto, blast)

lemma bt_get_in:
  "bt_sorted lt m \<Longrightarrow> (k, v) \<in> set m \<Longrightarrow> bt_get lt k m = Some v"
  by (auto simp: bt_get_Some_iff)

lemma fst_bt_insert: "(a, w) \<in> set (bt_insert lt k v m) \<Longrightarrow> a = k \<or> a \<in> fst ` set m"
proof (induction m)
  case (Cons p m)
  show ?case
  proof (cases "(a, w) \<in> set (bt_insert lt k v m)")
    case True
    with Cons.IH show ?thesis by auto
  next
    case False
    then have "(a, w) = (k, v) \<or> a = fst p \<or> (a, w) \<in> set m"
      using Cons.prems by (cases p) (auto split: if_splits)
    then show ?thesis by force
  qed
qed simp

lemma bt_sorted_insert: "bt_sorted lt m \<Longrightarrow> bt_sorted lt (bt_insert lt k v m)"
proof (induction m)
  case (Cons p m)
  obtain a w where p: "p = (a, w)" by (cases p)
  from Cons.prems have less: "\<And>b u. (b, u) \<in> set m \<Longrightarrow> lt a b" and s: "bt_sorted lt m"
    by (auto simp: p bt_sorted_Cons)
  consider "lt k a" | "lt a k" "\<not> lt k a" | "\<not> lt k a" "\<not> lt a k" by blast
  then show ?case
  proof cases
    case 1
    then show ?thesis using less s lt_trans by (auto simp: p bt_sorted_Cons)
  next
    case 2
    have "lt a b" if "(b, u) \<in> set (bt_insert lt k v m)" for b u
      using fst_bt_insert [OF that] less 2(1) by auto
    with 2 Cons.IH [OF s] show ?thesis by (auto simp: p bt_sorted_Cons)
  next
    case 3
    then show ?thesis using less s by (auto simp: p bt_sorted_Cons)
  qed
qed (simp add: bt_sorted_Cons)

lemma bt_get_insert:
  "bt_sorted lt m \<Longrightarrow>
   bt_get lt j (bt_insert lt k v m) = (if same_key lt j k then Some v else bt_get lt j m)"
proof (induction m)
  case (Cons p m)
  obtain a w where p: "p = (a, w)" by (cases p)
  from Cons.prems have s: "bt_sorted lt m" by (auto simp: p bt_sorted_Cons)
  consider "lt k a" "\<not> lt a k" | "lt a k" "\<not> lt k a" | "same_key lt a k"
    using lt_asym by (auto simp: same_key_def)
  then show ?case
  proof cases
    case 1
    have "same_key lt j k \<Longrightarrow> lt j a" using 1 same_key_lt1 by blast
    moreover have "lt j k \<Longrightarrow> lt j a" using 1 lt_trans by blast
    ultimately show ?thesis using 1 by (auto simp: p same_key_def)
  next
    case 2
    have "same_key lt j k \<Longrightarrow> lt a j \<and> \<not> lt j a" using 2 same_key_lt2 lt_asym by blast
    with Cons.IH [OF s] 2 show ?thesis by (auto simp: p)
  next
    case 3
    have "same_key lt j k \<longleftrightarrow> \<not> lt j a \<and> \<not> lt a j"
      using same_key_lt1 [OF 3] same_key_lt2 [OF 3] by (auto simp: same_key_def)
    with 3 show ?thesis by (auto simp: p same_key_def)
  qed
qed (auto simp: same_key_def)

lemma bt_get_insert_same [simp]: "bt_sorted lt m \<Longrightarrow> bt_get lt k (bt_insert lt k v m) = Some v"
  by (simp add: bt_get_insert)

lemma length_bt_insert:
  "bt_sorted lt m \<Longrightarrow>
   length (bt_insert lt k v m) = length m + (if bt_get lt k m = None then 1 else 0)"
  by (induction m) (auto simp: bt_sorted_Cons split: if_splits)

lemma set_bt_insert_fresh:
  "bt_get lt k m = None \<Longrightarrow> bt_sorted lt m \<Longrightarrow> set (bt_insert lt k v m) = insert (k, v) (set m)"
  by (induction m) (auto simp: bt_sorted_Cons split: if_splits)

lemma set_bt_remove:
  "bt_sorted lt m \<Longrightarrow> set (bt_remove lt k m) = {p \<in> set m. \<not> same_key lt (fst p) k}"
proof (induction m)
  case (Cons p m)
  obtain a w where p: "p = (a, w)" by (cases p)
  from Cons.prems have less: "\<And>b u. (b, u) \<in> set m \<Longrightarrow> lt a b" and s: "bt_sorted lt m"
    by (auto simp: p bt_sorted_Cons)
  consider "lt k a" | "lt a k" "\<not> lt k a" | "same_key lt a k"
    by (auto simp: same_key_def)
  then show ?case
  proof cases
    case 1
    then have "\<not> same_key lt b k" if "(b, u) \<in> set m" for b u
      using less [OF that] lt_trans by (auto simp: same_key_def)
    then have "\<forall>q \<in> set m. \<not> same_key lt (fst q) k" by auto
    moreover have "\<not> same_key lt a k" using 1 by (simp add: same_key_def)
    ultimately show ?thesis using 1 by (auto simp: p)
  next
    case 2
    then have "\<not> same_key lt a k" by (simp add: same_key_def)
    then show ?thesis using 2 by (auto simp: p Cons.IH [OF s])
  next
    case 3
    then have "\<not> same_key lt b k" if "(b, u) \<in> set m" for b u
      using less [OF that] same_key_lt1 [OF 3] by (simp add: same_key_def)
    then have "\<forall>q \<in> set m. \<not> same_key lt (fst q) k" by auto
    moreover have "\<not> lt k a" "\<not> lt a k" using 3 by (simp_all add: same_key_def)
    ultimately show ?thesis using 3 by (auto simp: p)
  qed
qed simp

lemma bt_sorted_remove: "bt_sorted lt m \<Longrightarrow> bt_sorted lt (bt_remove lt k m)"
proof (induction m)
  case (Cons p m)
  obtain a w where p: "p = (a, w)" by (cases p)
  from Cons.prems have s: "bt_sorted lt m" by (auto simp: p bt_sorted_Cons)
  with Cons show ?case by (auto simp: p bt_sorted_Cons set_bt_remove)
qed simp

lemma bt_get_remove:
  assumes "bt_sorted lt m"
  shows "bt_get lt j (bt_remove lt k m) = (if same_key lt j k then None else bt_get lt j m)"
proof (cases "same_key lt j k")
  case True
  then have "bt_get lt j (bt_remove lt k m) = None"
    using assms same_key_trans
    by (auto simp: bt_get_None_iff bt_sorted_remove set_bt_remove)
  with True show ?thesis by simp
next
  case False
  have "same_key lt a j \<Longrightarrow> \<not> same_key lt a k" for a
    using False same_key_trans same_key_sym by metis
  then have "bt_get lt j (bt_remove lt k m) = Some v \<longleftrightarrow> bt_get lt j m = Some v" for v
    by (auto simp: bt_get_Some_iff assms bt_sorted_remove set_bt_remove)
  then have "bt_get lt j (bt_remove lt k m) = bt_get lt j m"
    by (metis not_Some_eq)
  with False show ?thesis by simp
qed

lemma length_bt_remove:
  "bt_sorted lt m \<Longrightarrow>
   length (bt_remove lt k m) = length m - (if bt_get lt k m = None then 0 else 1)"
proof (induction m)
  case (Cons p m)
  obtain a w where p: "p = (a, w)" by (cases p)
  from Cons.prems have s: "bt_sorted lt m" by (auto simp: p bt_sorted_Cons)
  have "bt_get lt k m \<noteq> None \<Longrightarrow> length m > 0" by (cases m) auto
  with Cons.IH [OF s] show ?case by (auto simp: p)
qed simp

lemma bt_sorted_eqI:
  assumes "bt_sorted lt m" and "bt_sorted lt n" and "set m = set n"
  shows "m = n"
  using assms
proof (induction m arbitrary: n)
  case (Cons p m)
  then obtain q n' where n: "n = q # n'" by (cases n) auto
  have pn: "p \<in> set n" and qm: "q \<in> set (p # m)" using Cons.prems(3) n by auto
  have ltm: "\<And>x. x \<in> set m \<Longrightarrow> lt (fst p) (fst x)"
    and ltn: "\<And>x. x \<in> set n' \<Longrightarrow> lt (fst q) (fst x)"
    using Cons.prems(1,2) n by (auto simp: bt_sorted_def)
  have pq: "p = q"
  proof (rule ccontr)
    assume "p \<noteq> q"
    then have "lt (fst q) (fst p)" and "lt (fst p) (fst q)"
      using pn qm n ltm ltn by auto
    then show False using lt_asym by blast
  qed
  have "p \<notin> set m" "p \<notin> set n'" using ltm ltn pq lt_irrefl by blast+
  then have "set m = set n'" using Cons.prems(3) n pq by auto
  moreover have "bt_sorted lt m" "bt_sorted lt n'"
    using Cons.prems(1,2) n by (auto simp: bt_sorted_def)
  ultimately show ?case using Cons.IH n pq by blast
qed simp

lemma distinct_bt: "bt_sorted lt m \<Longrightarrow> distinct (map fst m)"
proof (induction m)
  case (Cons p m)
  then show ?case using lt_irrefl by (cases p) (auto simp: bt_sorted_Cons)
qed simp

lemma set_bt_insert_present:
  "bt_sorted lt m \<Longrightarrow> (k, v) \<in> set m \<Longrightarrow> set (bt_insert lt k w m) = insert (k, w) (set m - {(k, v)})"
proof (induction m)
  case (Cons p m)
  obtain a u where p: "p = (a, u)" by force
  from Cons.prems(1) have less: "\<And>b x. (b, x) \<in> set m \<Longrightarrow> lt a b" and s: "bt_sorted lt m"
    by (auto simp: p bt_sorted_Cons)
  show ?case
  proof (cases "(k, v) = (a, u)")
    case True
    then have "(k, v) \<notin> set m" using less lt_irrefl by blast
    with True show ?thesis by (auto simp: p lt_irrefl)
  next
    case False
    then have k: "(k, v) \<in> set m" using Cons.prems(2) p by auto
    then have "lt a k" "\<not> lt k a" using less lt_asym by blast+
    then show ?thesis using Cons.IH [OF s k] False by (auto simp: p lt_irrefl)
  qed
qed simp

lemma same_key_unique:
  "bt_sorted lt m \<Longrightarrow> (a, v) \<in> set m \<Longrightarrow> (b, w) \<in> set m \<Longrightarrow> same_key lt a b \<Longrightarrow> a = b \<and> v = w"
proof (induction m)
  case (Cons p m)
  obtain c u where p: "p = (c, u)" by force
  have less: "\<And>d x. (d, x) \<in> set m \<Longrightarrow> lt c d" using Cons.prems(1) by (auto simp: p bt_sorted_Cons)
  show ?case
  proof (cases "(a, v) \<in> set m \<and> (b, w) \<in> set m")
    case True
    with Cons show ?thesis by (simp add: p bt_sorted_Cons)
  next
    case False
    with Cons.prems less [of a v] less [of b w] show ?thesis by (auto simp: p same_key_def)
  qed
qed simp

lemmas bt_lemmas = bt_sorted_insert bt_sorted_remove bt_get_insert bt_get_remove
  length_bt_insert length_bt_remove set_bt_insert_fresh set_bt_remove

end

section \<open>Linearly ordered keys\<close>

interpretation lin: key_order "(<) :: 'a::linorder \<Rightarrow> 'a \<Rightarrow> bool"
  by unfold_locales auto

lemma same_key_lin [simp]: "same_key (<) a b \<longleftrightarrow> (a :: 'a::linorder) = b"
  by (auto simp: same_key_def)

lemma bt_get_lin_Some_iff:
  "bt_sorted (<) m \<Longrightarrow> bt_get (<) (k :: 'a::linorder) m = Some v \<longleftrightarrow> (k, v) \<in> set m"
  by (simp add: lin.bt_get_Some_iff)

lemma bt_get_lin_None_iff:
  "bt_sorted (<) m \<Longrightarrow> bt_get (<) (k :: 'a::linorder) m = None \<longleftrightarrow> k \<notin> fst ` set m"
  by (force simp: lin.bt_get_None_iff)

lemma bt_ext_lin:
  assumes "bt_sorted (<) m" and "bt_sorted (<) n"
    and "\<And>k :: 'a::linorder. bt_get (<) k m = bt_get (<) k n"
  shows "m = n"
proof (rule lin.bt_sorted_eqI [OF assms(1,2)])
  show "set m = set n"
    using assms(3) by (auto simp: bt_get_lin_Some_iff [OF assms(1), symmetric]
        bt_get_lin_Some_iff [OF assms(2), symmetric])
qed

section \<open>Lexicographic keys\<close>

text \<open>A pair is compared by its first component, then by its second.\<close>

definition lex_lt :: "('a \<Rightarrow> 'a \<Rightarrow> bool) \<Rightarrow> ('b \<Rightarrow> 'b \<Rightarrow> bool) \<Rightarrow> 'a \<times> 'b \<Rightarrow> 'a \<times> 'b \<Rightarrow> bool" where
  "lex_lt l1 l2 p q \<longleftrightarrow> l1 (fst p) (fst q) \<or> (same_key l1 (fst p) (fst q) \<and> l2 (snd p) (snd q))"

text \<open>\<^verbatim>\<open>std::cmp::Reverse\<close>.\<close>

definition reverse_lt :: "('a \<Rightarrow> 'a \<Rightarrow> bool) \<Rightarrow> 'a \<Rightarrow> 'a \<Rightarrow> bool" where
  "reverse_lt l a b = l b a"

lemma same_key_lex:
  "same_key (lex_lt l1 l2) p q \<longleftrightarrow> same_key l1 (fst p) (fst q) \<and> same_key l2 (snd p) (snd q)"
  by (auto simp: same_key_def lex_lt_def)

lemma same_key_reverse [simp]: "same_key (reverse_lt l) a b \<longleftrightarrow> same_key l a b"
  by (auto simp: same_key_def reverse_lt_def)

locale key_order_pair = fst_order: key_order l1 + snd_order: key_order l2
  for l1 :: "'a \<Rightarrow> 'a \<Rightarrow> bool" and l2 :: "'b \<Rightarrow> 'b \<Rightarrow> bool"

sublocale key_order_pair \<subseteq> lex: key_order "lex_lt l1 l2"
proof unfold_locales
  fix a b c :: "'a \<times> 'b"
  show "\<not> lex_lt l1 l2 a a"
    by (simp add: lex_lt_def fst_order.lt_irrefl snd_order.lt_irrefl)
  show "lex_lt l1 l2 a b \<Longrightarrow> lex_lt l1 l2 b c \<Longrightarrow> lex_lt l1 l2 a c"
    unfolding lex_lt_def
    using fst_order.lt_trans snd_order.lt_trans fst_order.same_key_lt1 fst_order.same_key_lt2
      fst_order.same_key_trans by blast
  show "lex_lt l1 l2 a c \<Longrightarrow> lex_lt l1 l2 a b \<or> lex_lt l1 l2 b c"
    unfolding lex_lt_def same_key_def
    using fst_order.lt_weak snd_order.lt_weak fst_order.lt_trans by blast
qed

locale key_order_rev = fwd: key_order lt
  for lt :: "'k \<Rightarrow> 'k \<Rightarrow> bool"

sublocale key_order_rev \<subseteq> rev: key_order "reverse_lt lt"
proof unfold_locales
  fix a b c :: 'k
  show "\<not> reverse_lt lt a a" by (simp add: reverse_lt_def fwd.lt_irrefl)
  show "reverse_lt lt a b \<Longrightarrow> reverse_lt lt b c \<Longrightarrow> reverse_lt lt a c"
    unfolding reverse_lt_def using fwd.lt_trans by blast
  show "reverse_lt lt a c \<Longrightarrow> reverse_lt lt a b \<or> reverse_lt lt b c"
    unfolding reverse_lt_def using fwd.lt_weak by blast
qed

end
