(* ===== verification/Domain_Decimal.thy ===== *)
theory Domain_Decimal
  imports Complex_Main Rust_Str BTree_Map
begin

text \<open>
  The fixed-point numbers of \<^verbatim>\<open>crates/domain-types/src/decimal.rs\<close>. A \<^verbatim>\<open>Decimal\<close> is a signed
  128-bit coefficient with a scale of at most 38 places; every price, size and rate of the
  system is one. The specification is the rational number it stands for: addition,
  subtraction, multiplication, division and rescaling return the exact or correctly rounded
  rational result or the error that says why not, comparison and equality are those of the
  rationals, and printing and parsing are inverse.
\<close>

section \<open>Values and errors\<close>

datatype value_error =
    Empty
  | Invalid
  | ExcessPrecision nat
  | ScaleOutOfRange nat nat
  | ScaleMismatch nat nat
  | DownwardExactRescale nat nat
  | OutOfRange
  | DivisionByZero
  | Overflow

datatype rounding_mode = TowardZero | Floor | Ceiling | NearestTiesToEven

datatype ordering = Less | Equal | Greater

definition cmp :: "'a::linorder \<Rightarrow> 'a \<Rightarrow> ordering" where
  "cmp a b = (if a < b then Less else if a = b then Equal else Greater)"

record decimal =
  raw :: int
  scale :: nat

definition MAX_DECIMAL_SCALE :: nat where
  "MAX_DECIMAL_SCALE = 38"

definition validate_scale :: "nat \<Rightarrow> value_error + unit" where
  "validate_scale s =
     (if s > MAX_DECIMAL_SCALE then Inl (ScaleOutOfRange s MAX_DECIMAL_SCALE) else Inr ())"

definition from_raw :: "int \<Rightarrow> nat \<Rightarrow> value_error + decimal" where
  "from_raw r s = rbind (validate_scale s) (\<lambda>_. Inr \<lparr>raw = r, scale = s\<rparr>)"

definition require_same_scale :: "decimal \<Rightarrow> decimal \<Rightarrow> value_error + unit" where
  "require_same_scale a b =
     (if scale a = scale b then Inr () else Inl (ScaleMismatch (scale a) (scale b)))"

section \<open>Arithmetic\<close>

definition checked_add :: "decimal \<Rightarrow> decimal \<Rightarrow> value_error + decimal" where
  "checked_add a b = rbind (require_same_scale a b) (\<lambda>_.
     rbind (ok_or Overflow (to_i128 (raw a + raw b))) (\<lambda>r. from_raw r (scale a)))"

definition checked_sub :: "decimal \<Rightarrow> decimal \<Rightarrow> value_error + decimal" where
  "checked_sub a b = rbind (require_same_scale a b) (\<lambda>_.
     rbind (ok_or Overflow (to_i128 (raw a - raw b))) (\<lambda>r. from_raw r (scale a)))"

primrec pow10_big :: "nat \<Rightarrow> int" where
  "pow10_big 0 = 1"
| "pow10_big (Suc n) = pow10_big n * 10"

text \<open>\<^verbatim>\<open>BigInt\<close> division truncates and the remainder has the sign of the dividend.\<close>

definition div_round_big :: "int \<Rightarrow> int \<Rightarrow> rounding_mode \<Rightarrow> value_error + int" where
  "div_round_big n d mode =
     (if d = 0 then Inl DivisionByZero
      else
        let quotient = n sdiv d; remainder = n smod d in
        if remainder = 0 \<or> mode = TowardZero then Inr quotient
        else
          let same_sign = ((n < 0) = (d < 0)); step = (if same_sign then 1 else - 1) in
          case mode of
            TowardZero \<Rightarrow> Inr quotient
          | Floor \<Rightarrow> if same_sign then Inr quotient else Inr (quotient - 1)
          | Ceiling \<Rightarrow> if same_sign then Inr (quotient + 1) else Inr quotient
          | NearestTiesToEven \<Rightarrow>
              let twice_remainder = \<bar>remainder\<bar> * 2; divisor = \<bar>d\<bar> in
              if twice_remainder < divisor
                 \<or> (twice_remainder = divisor \<and> quotient smod 2 = 0)
              then Inr quotient
              else Inr (quotient + step))"

definition rescale_big :: "int \<Rightarrow> nat \<Rightarrow> nat \<Rightarrow> rounding_mode \<Rightarrow> value_error + int" where
  "rescale_big r source_scale target_scale mode =
     (case cmp target_scale source_scale of
        Equal \<Rightarrow> Inr r
      | Greater \<Rightarrow> Inr (r * pow10_big (target_scale - source_scale))
      | Less \<Rightarrow> div_round_big r (pow10_big (source_scale - target_scale)) mode)"

definition big_to_i128 :: "int \<Rightarrow> value_error + int" where
  "big_to_i128 x = ok_or Overflow (to_i128 x)"

definition checked_mul ::
  "decimal \<Rightarrow> decimal \<Rightarrow> nat \<Rightarrow> rounding_mode \<Rightarrow> value_error + decimal" where
  "checked_mul a b output_scale mode =
     rbind (validate_scale output_scale) (\<lambda>_.
     rbind (rescale_big (raw a * raw b) (scale a + scale b) output_scale mode) (\<lambda>r.
     rbind (big_to_i128 r) (\<lambda>r. from_raw r output_scale)))"

definition checked_div ::
  "decimal \<Rightarrow> decimal \<Rightarrow> nat \<Rightarrow> rounding_mode \<Rightarrow> value_error + decimal" where
  "checked_div a b output_scale mode =
     rbind (validate_scale output_scale) (\<lambda>_.
     if raw b = 0 then Inl DivisionByZero
     else
       let shift = int output_scale + int (scale b) - int (scale a);
           numerator = (if shift \<ge> 0 then raw a * pow10_big (nat shift) else raw a);
           denominator = (if shift \<ge> 0 then raw b else raw b * pow10_big (nat \<bar>shift\<bar>))
       in rbind (div_round_big numerator denominator mode) (\<lambda>r.
          rbind (big_to_i128 r) (\<lambda>r. from_raw r output_scale)))"

definition rescale :: "decimal \<Rightarrow> nat \<Rightarrow> rounding_mode \<Rightarrow> value_error + decimal" where
  "rescale a target_scale mode =
     rbind (validate_scale target_scale) (\<lambda>_.
     rbind (rescale_big (raw a) (scale a) target_scale mode) (\<lambda>r.
     rbind (big_to_i128 r) (\<lambda>r. from_raw r target_scale)))"

text \<open>\<^verbatim>\<open>PositionQuantity::checked_rescale_up\<close>: only ever adds places.\<close>

definition checked_rescale_up :: "decimal \<Rightarrow> nat \<Rightarrow> value_error + decimal" where
  "checked_rescale_up a target_scale =
     rbind (validate_scale target_scale) (\<lambda>_.
     if target_scale < scale a then Inl (DownwardExactRescale (scale a) target_scale)
     else rescale a target_scale TowardZero)"

section \<open>Comparison\<close>

text \<open>The loop of \<^verbatim>\<open>canonical_parts\<close> and \<^verbatim>\<open>canonicalize_notional\<close>: drop trailing zeros.\<close>

fun strip_zeros :: "int \<Rightarrow> nat \<Rightarrow> int \<times> nat" where
  "strip_zeros r 0 = (r, 0)"
| "strip_zeros r (Suc s) = (if r smod 10 = 0 then strip_zeros (r sdiv 10) s else (r, Suc s))"

definition canonical_parts :: "decimal \<Rightarrow> int \<times> nat" where
  "canonical_parts a = (if raw a = 0 then (0, 0) else strip_zeros (raw a) (scale a))"

definition decimal_eq :: "decimal \<Rightarrow> decimal \<Rightarrow> bool" where
  "decimal_eq a b \<longleftrightarrow> canonical_parts a = canonical_parts b"

definition numeric_cmp :: "decimal \<Rightarrow> decimal \<Rightarrow> ordering" where
  "numeric_cmp a b = cmp (raw a * pow10_big (scale b)) (raw b * pow10_big (scale a))"

definition decimal_lt :: "decimal \<Rightarrow> decimal \<Rightarrow> bool" where
  "decimal_lt a b \<longleftrightarrow> numeric_cmp a b = Less"

section \<open>Text\<close>

definition parse_u128 :: "string \<Rightarrow> value_error + nat" where
  "parse_u128 s = ok_or Overflow (to_u128 (dec_val s))"

definition split_sign :: "string \<Rightarrow> bool \<times> string" where
  "split_sign s =
     (case strip_prefix ''-'' s of
        Some rest \<Rightarrow> (True, rest)
      | None \<Rightarrow> (case strip_prefix ''+'' s of Some rest \<Rightarrow> (False, rest) | None \<Rightarrow> (False, s)))"

definition signed_raw :: "bool \<Rightarrow> nat \<Rightarrow> value_error + int" where
  "signed_raw negative magnitude =
     (let positive_limit = nat i128_max; negative_limit = positive_limit + 1 in
      if negative then
        if magnitude > negative_limit then Inl Overflow
        else if magnitude = negative_limit then Inr i128_min
        else Inr (- int magnitude)
      else if magnitude > positive_limit then Inl Overflow
      else Inr (int magnitude))"

definition decimal_from_str :: "string \<Rightarrow> value_error + decimal" where
  "decimal_from_str input =
     (if input = [] then Inl Empty
      else
        let (negative, unsigned) = split_sign input in
        if unsigned = [] then Inl Invalid
        else case split_on (CHR ''.'') unsigned of
          [] \<Rightarrow> Inl Invalid
        | whole # rest \<Rightarrow>
            rbind (case rest of [] \<Rightarrow> Inr [] | v # _ \<Rightarrow> if v \<noteq> [] then Inr v else Inl Invalid)
              (\<lambda>fraction.
            if tl rest \<noteq> [] \<or> whole = [] \<or> \<not> list_all is_digit whole
               \<or> \<not> list_all is_digit fraction
            then Inl Invalid
            else
              rbind (if length fraction \<le> 255 then Inr (length fraction)
                     else Inl (ScaleOutOfRange 255 MAX_DECIMAL_SCALE)) (\<lambda>s.
              rbind (validate_scale s) (\<lambda>_.
              rbind (ok_or Overflow (to_u128 (10 ^ s))) (\<lambda>factor.
              rbind (parse_u128 whole) (\<lambda>w.
              rbind (if fraction = [] then Inr 0 else parse_u128 fraction) (\<lambda>f.
              rbind (ok_or Overflow
                       (Option.bind (to_u128 (w * factor)) (\<lambda>v. to_u128 (v + f)))) (\<lambda>magnitude.
              rbind (signed_raw negative magnitude) (\<lambda>r. from_raw r s)))))))))"

definition decimal_display :: "decimal \<Rightarrow> string" where
  "decimal_display a =
     (let factor = 10 ^ scale a; absolute = nat \<bar>raw a\<bar>;
          whole = absolute div factor; fraction = absolute mod factor in
      (if raw a < 0 then ''-'' else [])
      @ (if scale a = 0 then nat_dec whole
         else nat_dec whole @ ''.'' @ pad_zeros (scale a) (nat_dec fraction)))"

definition parse_at_scale :: "string \<Rightarrow> nat \<Rightarrow> value_error + decimal" where
  "parse_at_scale input s =
     rbind (validate_scale s) (\<lambda>_.
     rbind (decimal_from_str input) (\<lambda>parsed.
     if scale parsed > s then Inl (ExcessPrecision s)
     else rescale parsed s TowardZero))"

section \<open>Probabilities\<close>

type_synonym probability_ppm = u32

definition from_ppm :: "u32 \<Rightarrow> value_error + probability_ppm" where
  "from_ppm v = (if v \<le> 1000000 then Inr v else Inl OutOfRange)"

definition checked_scale_i128_toward_zero :: "probability_ppm \<Rightarrow> int \<Rightarrow> value_error + int" where
  "checked_scale_i128_toward_zero p v =
     (let divisor = 1000000; probability = int (unat p) in
      rbind (ok_or Overflow (to_i128 (v sdiv divisor))) (\<lambda>whole.
      rbind (ok_or Overflow (to_i128 (v smod divisor))) (\<lambda>remainder.
      rbind (ok_or Overflow (to_i128 (whole * probability))) (\<lambda>scaled_whole.
      rbind (ok_or Overflow (Option.bind (to_i128 (remainder * probability))
                               (\<lambda>product. to_i128 (product sdiv divisor)))) (\<lambda>scaled_remainder.
      ok_or Overflow (to_i128 (scaled_whole + scaled_remainder)))))))"

section \<open>The specification\<close>

text \<open>The invariant the private fields keep, and the number a decimal stands for.\<close>

definition decimal_ok :: "decimal \<Rightarrow> bool" where
  "decimal_ok a \<longleftrightarrow> in_i128 (raw a) \<and> scale a \<le> MAX_DECIMAL_SCALE"

definition dec_value :: "decimal \<Rightarrow> rat" where
  "dec_value a = of_int (raw a) / 10 ^ scale a"

text \<open>Rounding a rational, stated with floor and ceiling.\<close>

definition round_rat :: "rounding_mode \<Rightarrow> rat \<Rightarrow> int" where
  "round_rat mode x =
     (case mode of
        TowardZero \<Rightarrow> if 0 \<le> x then \<lfloor>x\<rfloor> else \<lceil>x\<rceil>
      | Floor \<Rightarrow> \<lfloor>x\<rfloor>
      | Ceiling \<Rightarrow> \<lceil>x\<rceil>
      | NearestTiesToEven \<Rightarrow>
          if x - of_int \<lfloor>x\<rfloor> < 1 / 2 \<or> (x - of_int \<lfloor>x\<rfloor> = 1 / 2 \<and> even \<lfloor>x\<rfloor>)
          then \<lfloor>x\<rfloor> else \<lfloor>x\<rfloor> + 1)"

text \<open>What an operation with an exact result \<open>x\<close> owes its caller at an output scale.\<close>

definition rounded_result :: "rounding_mode \<Rightarrow> nat \<Rightarrow> rat \<Rightarrow> value_error + decimal" where
  "rounded_result mode s x =
     (if MAX_DECIMAL_SCALE < s then Inl (ScaleOutOfRange s MAX_DECIMAL_SCALE)
      else if in_i128 (round_rat mode (x * 10 ^ s))
      then Inr \<lparr>raw = round_rat mode (x * 10 ^ s), scale = s\<rparr>
      else Inl Overflow)"

text \<open>The grammar of accepted strings: sign, digits, and digits after a point.\<close>

definition decimal_text :: "string \<Rightarrow> string \<Rightarrow> string \<Rightarrow> string" where
  "decimal_text sign w f = sign @ w @ (if f = [] then [] else CHR ''.'' # f)"

section \<open>Rounding is the rounding of rationals\<close>

lemma pow10_big_eq [simp]: "pow10_big n = 10 ^ n"
  by (induction n) auto

lemma abs_smod_less: "d \<noteq> (0::int) \<Longrightarrow> \<bar>n smod d\<bar> < \<bar>d\<bar>"
  by (simp add: signed_modulo_int_def abs_mult)

lemma div_eq_sdiv:
  assumes "d \<noteq> (0::int)"
  shows "n div d = (if n smod d \<noteq> 0 \<and> (n < 0) \<noteq> (d < 0) then n sdiv d - 1 else n sdiv d)"
proof (cases "0 \<le> n"; cases "0 \<le> d")
  assume s: "0 \<le> n" "0 \<le> d"
  then show ?thesis using assms by (simp add: signed_divide_int_def sgn_if)
next
  assume s: "0 \<le> n" "\<not> 0 \<le> d"
  then show ?thesis using assms zdiv_zminus2_eq_if [of "- d" n]
    by (auto simp: signed_divide_int_def sgn_if signed_modulo_int_def)
next
  assume s: "\<not> 0 \<le> n" "0 \<le> d"
  then show ?thesis using assms zdiv_zminus1_eq_if [of d "- n"]
    by (auto simp: signed_divide_int_def sgn_if signed_modulo_int_def)
next
  assume s: "\<not> 0 \<le> n" "\<not> 0 \<le> d"
  then show ?thesis using assms by (auto simp: signed_divide_int_def sgn_if)
qed

lemma frac_eq_smod:
  assumes "d \<noteq> (0::int)"
  shows "of_int n / of_int d - (of_int \<lfloor>of_int n / of_int d :: rat\<rfloor> :: rat) =
    (if n smod d = 0 then 0
     else if (n < 0) = (d < 0) then of_int \<bar>n smod d\<bar> / of_int \<bar>d\<bar>
     else 1 - of_int \<bar>n smod d\<bar> / of_int \<bar>d\<bar>)"
proof -
  let ?r = "n smod d" and ?q = "n sdiv d"
  have n: "n = ?q * d + ?r" by (simp add: sdiv_mult_smod_eq)
  have "(of_int n :: rat) / of_int d = of_int ?q + of_int ?r / of_int d"
    using assms by (subst n) (simp add: field_simps del: sdiv_mult_smod_eq)
  moreover have "(of_int ?r :: rat) / of_int d =
      (if (n < 0) = (d < 0) then of_int \<bar>?r\<bar> / of_int \<bar>d\<bar> else - (of_int \<bar>?r\<bar> / of_int \<bar>d\<bar>))"
  proof -
    have "0 \<le> n mod \<bar>d\<bar>" and "0 \<le> - n mod \<bar>d\<bar>" using assms by simp_all
    then have "?r = 0 \<or> (?r < 0) = (n < 0)"
      by (auto simp: signed_modulo_int_def sgn_if)
    then show ?thesis using assms by (auto simp: abs_if)
  qed
  ultimately show ?thesis
    unfolding floor_divide_of_int_eq div_eq_sdiv [OF assms, of n] by simp
qed

lemma half_compare:
  assumes "d \<noteq> (0::int)"
  shows "(of_int \<bar>r\<bar> / of_int \<bar>d\<bar> < (1 / 2 :: rat)) = (\<bar>r\<bar> * 2 < \<bar>d\<bar>)"
    and "(of_int \<bar>r\<bar> / of_int \<bar>d\<bar> = (1 / 2 :: rat)) = (\<bar>r\<bar> * 2 = \<bar>d\<bar>)"
proof -
  have d: "(0 :: rat) < of_int \<bar>d\<bar>" using assms by simp
  have "(of_int \<bar>r\<bar> / of_int \<bar>d\<bar> < (1 / 2 :: rat)) = ((of_int (\<bar>r\<bar> * 2) :: rat) < of_int \<bar>d\<bar>)"
    using d by (simp add: field_simps)
  then show "(of_int \<bar>r\<bar> / of_int \<bar>d\<bar> < (1 / 2 :: rat)) = (\<bar>r\<bar> * 2 < \<bar>d\<bar>)"
    by (simp only: of_int_less_iff)
  have "(of_int \<bar>r\<bar> / of_int \<bar>d\<bar> = (1 / 2 :: rat)) = ((of_int (\<bar>r\<bar> * 2) :: rat) = of_int \<bar>d\<bar>)"
    using d by (auto simp: field_simps)
  then show "(of_int \<bar>r\<bar> / of_int \<bar>d\<bar> = (1 / 2 :: rat)) = (\<bar>r\<bar> * 2 = \<bar>d\<bar>)"
    by (simp only: of_int_eq_iff)
qed

lemma ceiling_eq_floor_frac: "\<lceil>x\<rceil> = (if x - of_int \<lfloor>x\<rfloor> = 0 then \<lfloor>x\<rfloor> else \<lfloor>x\<rfloor> + 1)"
  for x :: rat
  by (simp add: ceiling_altdef)

lemma round_nearest_eq:
  "x - of_int \<lfloor>x\<rfloor> = f \<Longrightarrow> \<lfloor>x\<rfloor> = q \<Longrightarrow>
   round_rat NearestTiesToEven x = (if f < 1 / 2 \<or> (f = 1 / 2 \<and> even q) then q else q + 1)"
  by (auto simp: round_rat_def)

lemma div_round_nearest:
  assumes "d \<noteq> 0"
  shows "div_round_big n d NearestTiesToEven = Inr (round_rat NearestTiesToEven (of_int n / of_int d))"
proof -
  let ?r = "n smod d" and ?q = "n sdiv d" and ?x = "of_int n / of_int d :: rat"
  have f: "\<lfloor>?x\<rfloor> = n div d" by (rule floor_divide_of_int_eq)
  have even: "?q smod 2 = 0 \<longleftrightarrow> even ?q" by (simp add: signed_modulo_int_def sgn_if even_iff_mod_2_eq_zero) presburger
  have gt: "(1 - of_int \<bar>?r\<bar> / of_int \<bar>d\<bar> < (1 / 2 :: rat)) = (\<bar>d\<bar> < \<bar>?r\<bar> * 2)"
    "(1 - of_int \<bar>?r\<bar> / of_int \<bar>d\<bar> = (1 / 2 :: rat)) = (\<bar>?r\<bar> * 2 = \<bar>d\<bar>)"
    using half_compare [OF assms, of ?r] by linarith+
  consider (exact) "?r = 0" | (same) "?r \<noteq> 0" "(n < 0) = (d < 0)"
    | (diff) "?r \<noteq> 0" "(n < 0) \<noteq> (d < 0)" by blast
  then show ?thesis
  proof cases
    case exact
    then show ?thesis using assms frac_eq_smod [OF assms, of n] div_eq_sdiv [OF assms, of n] f
      by (simp add: div_round_big_def round_rat_def)
  next
    case same
    have x: "?x - of_int \<lfloor>?x\<rfloor> = of_int \<bar>?r\<bar> / of_int \<bar>d\<bar>" and q: "\<lfloor>?x\<rfloor> = ?q"
      using frac_eq_smod [OF assms, of n] div_eq_sdiv [OF assms, of n] f same by simp_all
    show ?thesis unfolding round_nearest_eq [OF x q] half_compare [OF assms]
      using same assms by (simp add: div_round_big_def Let_def even)
  next
    case diff
    have x: "?x - of_int \<lfloor>?x\<rfloor> = 1 - of_int \<bar>?r\<bar> / of_int \<bar>d\<bar>" and q: "\<lfloor>?x\<rfloor> = ?q - 1"
      using frac_eq_smod [OF assms, of n] div_eq_sdiv [OF assms, of n] f diff by simp_all
    show ?thesis unfolding round_nearest_eq [OF x q] gt
      using diff assms by (auto simp: div_round_big_def Let_def even)
  qed
qed

lemma div_round_big_spec:
  assumes "d \<noteq> 0"
  shows "div_round_big n d mode = Inr (round_rat mode (of_int n / of_int d))"
proof (cases "mode = NearestTiesToEven")
  case False
  let ?x = "of_int n / of_int d :: rat"
  have f: "\<lfloor>?x\<rfloor> = n div d" by (rule floor_divide_of_int_eq)
  have c: "\<lceil>?x\<rceil> = (if n smod d = 0 then n div d else n div d + 1)"
  proof -
    have "(?x - of_int \<lfloor>?x\<rfloor> = 0) = (n smod d = 0)"
      using frac_eq_smod [OF assms, of n] half_compare abs_smod_less [OF assms, of n] by auto
    then show ?thesis using ceiling_eq_floor_frac [of ?x] f by simp
  qed
  have sign: "0 \<le> ?x \<longleftrightarrow> n = 0 \<or> (n < 0) = (d < 0)"
    using assms by (auto simp: zero_le_divide_iff)
  show ?thesis
    using False assms div_eq_sdiv [OF assms, of n] sign
    by (cases mode) (auto simp: div_round_big_def round_rat_def f c Let_def)
qed (simp add: div_round_nearest assms)

section \<open>Operations against the rational specification\<close>

lemma validate_scale_Inr_iff [result_simps]:
  "validate_scale s = Inr u \<longleftrightarrow> s \<le> MAX_DECIMAL_SCALE"
  by (auto simp: validate_scale_def)

lemma validate_scale_Inl_iff [result_simps]:
  "validate_scale s = Inl e \<longleftrightarrow> MAX_DECIMAL_SCALE < s \<and> e = ScaleOutOfRange s MAX_DECIMAL_SCALE"
  by (auto simp: validate_scale_def)

lemma from_raw_Inr_iff [result_simps]:
  "from_raw r s = Inr d \<longleftrightarrow> s \<le> MAX_DECIMAL_SCALE \<and> d = \<lparr>raw = r, scale = s\<rparr>"
  by (auto simp: from_raw_def result_simps)

lemma rescale_big_spec:
  "rescale_big r s t mode = Inr (round_rat mode (of_int r / 10 ^ s * 10 ^ t))"
proof -
  have int: "round_rat mode (of_int k) = k" for k :: int
    by (simp add: round_rat_def split: rounding_mode.splits)
  consider "t = s" | "s < t" | "t < s" by linarith
  then show ?thesis
  proof cases
    case 1
    then show ?thesis by (simp add: rescale_big_def cmp_def int)
  next
    case 2
    then have "(of_int r / 10 ^ s * 10 ^ t :: rat) = of_int (r * 10 ^ (t - s))"
      by (simp add: power_diff [where 'a = rat])
    with 2 show ?thesis by (simp only: int) (simp add: rescale_big_def cmp_def)
  next
    case 3
    then have "(of_int r / 10 ^ s * 10 ^ t :: rat) = of_int r / of_int (10 ^ (s - t))"
      by (simp add: power_diff [where 'a = rat])
    with 3 show ?thesis by (simp only:) (simp add: rescale_big_def cmp_def div_round_big_spec)
  qed
qed

lemma rounded_result_eq:
  "rounded_result mode s x = rbind (validate_scale s) (\<lambda>_.
     rbind (big_to_i128 (round_rat mode (x * 10 ^ s))) (\<lambda>r. from_raw r s))"
  by (simp add: rounded_result_def validate_scale_def big_to_i128_def to_i128_def from_raw_def)

lemma checked_mul_rounded:
  "checked_mul a b s mode = rounded_result mode s (dec_value a * dec_value b)"
proof -
  have "(of_int (raw a * raw b) / 10 ^ (scale a + scale b) :: rat) = dec_value a * dec_value b"
    by (simp add: dec_value_def power_add)
  then show ?thesis by (simp add: checked_mul_def rescale_big_spec rounded_result_eq)
qed

lemma rescale_rounded: "rescale a s mode = rounded_result mode s (dec_value a)"
  by (simp add: rescale_def rescale_big_spec rounded_result_eq dec_value_def)

lemma checked_div_rounded:
  "checked_div a b s mode =
     (if MAX_DECIMAL_SCALE < s then Inl (ScaleOutOfRange s MAX_DECIMAL_SCALE)
      else if raw b = 0 then Inl DivisionByZero
      else rounded_result mode s (dec_value a / dec_value b))"
proof (cases "raw b = 0 \<or> MAX_DECIMAL_SCALE < s")
  case True
  then show ?thesis by (auto simp: checked_div_def validate_scale_def)
next
  case False
  let ?x = "dec_value a / dec_value b * 10 ^ s"
  let ?k = "int s + int (scale b) - int (scale a)"
  let ?n = "if 0 \<le> ?k then raw a * 10 ^ nat ?k else raw a"
  let ?d = "if 0 \<le> ?k then raw b else raw b * 10 ^ nat \<bar>?k\<bar>"
  have x: "?x = of_int ?n / of_int ?d"
  proof (cases "0 \<le> ?k")
    case True
    then have "s + scale b = nat ?k + scale a" by linarith
    then have "(10 ^ s * 10 ^ scale b :: rat) = 10 ^ nat ?k * 10 ^ scale a"
      by (simp only: power_add [symmetric])
    with True show ?thesis by (simp add: dec_value_def field_simps)
  next
    case neg: False
    then have "scale a = nat \<bar>?k\<bar> + (s + scale b)" by linarith
    then have "(10 ^ scale a :: rat) = 10 ^ nat \<bar>?k\<bar> * (10 ^ s * 10 ^ scale b)"
      by (simp only: power_add [symmetric])
    with neg show ?thesis by (simp add: dec_value_def field_simps)
  qed
  have "div_round_big ?n ?d mode = Inr (round_rat mode ?x)"
    unfolding x using False by (intro div_round_big_spec) simp
  with False show ?thesis
    by (cases "0 \<le> ?k")
       (simp_all add: checked_div_def rounded_result_eq Let_def validate_scale_def)
qed

section \<open>Comparison and equality are those of the rationals\<close>

lemma checked_add_exact:
  "checked_add a b = Inr c \<longleftrightarrow>
     scale a = scale b \<and> scale a \<le> MAX_DECIMAL_SCALE \<and> in_i128 (raw a + raw b)
     \<and> c = \<lparr>raw = raw a + raw b, scale = scale a\<rparr>"
  by (auto simp: checked_add_def require_same_scale_def result_simps)

lemma checked_sub_exact:
  "checked_sub a b = Inr c \<longleftrightarrow>
     scale a = scale b \<and> scale a \<le> MAX_DECIMAL_SCALE \<and> in_i128 (raw a - raw b)
     \<and> c = \<lparr>raw = raw a - raw b, scale = scale a\<rparr>"
  by (auto simp: checked_sub_def require_same_scale_def result_simps)

lemma numeric_cmp_value: "numeric_cmp a b = cmp (dec_value a) (dec_value b)"
proof -
  have scaled: "dec_value a * (10 ^ scale a * 10 ^ scale b) = of_int (raw a * 10 ^ scale b)"
    "dec_value b * (10 ^ scale a * 10 ^ scale b) = of_int (raw b * 10 ^ scale a)"
    by (simp_all add: dec_value_def)
  have pos: "(0 :: rat) < 10 ^ scale a * 10 ^ scale b" by simp
  have "dec_value a < dec_value b \<longleftrightarrow> raw a * 10 ^ scale b < raw b * 10 ^ scale a"
    using mult_less_cancel_right_pos [OF pos, of "dec_value a" "dec_value b"]
    unfolding scaled of_int_less_iff by simp
  moreover have "dec_value a = dec_value b \<longleftrightarrow> raw a * 10 ^ scale b = raw b * 10 ^ scale a"
    using mult_right_cancel [of "10 ^ scale a * 10 ^ scale b" "dec_value a" "dec_value b"] pos
    unfolding scaled of_int_eq_iff by simp
  ultimately show ?thesis by (simp add: numeric_cmp_def cmp_def)
qed

lemma cmp_eq_iff [simp]:
  "cmp a b = Less \<longleftrightarrow> a < b" "cmp a b = Equal \<longleftrightarrow> a = b" "cmp a b = Greater \<longleftrightarrow> b < a"
  by (auto simp: cmp_def)

lemma decimal_lt_value: "decimal_lt a b \<longleftrightarrow> dec_value a < dec_value b"
  by (simp add: decimal_lt_def numeric_cmp_value)

interpretation dec: key_order decimal_lt
  by unfold_locales (auto simp: decimal_lt_value)

lemma same_key_decimal: "same_key decimal_lt a b \<longleftrightarrow> dec_value a = dec_value b"
  by (auto simp: same_key_def decimal_lt_value)

lemma smod_eq_0_iff: "r smod d = 0 \<longleftrightarrow> d dvd (r :: int)"
  by (auto simp: signed_modulo_int_def sgn_0_0 simp flip: dvd_eq_mod_eq_0)

lemma strip_zeros_spec:
  assumes "strip_zeros r s = (r', s')" and "r \<noteq> 0"
  shows "s' \<le> s \<and> r = r' * 10 ^ (s - s') \<and> r' \<noteq> 0 \<and> (s' = 0 \<or> \<not> 10 dvd r')"
  using assms
proof (induction r s rule: strip_zeros.induct)
  case (2 r s)
  show ?case
  proof (cases "r smod 10 = 0")
    case True
    obtain q where q: "r sdiv 10 = q" "r = q * 10" using sdiv_mult_smod_eq [of r 10] True by (metis add.right_neutral)
    then have "r sdiv 10 \<noteq> 0" using 2(3) by auto
    with 2(1) [OF True] 2(2) True
    have IH: "s' \<le> s" "r sdiv 10 = r' * 10 ^ (s - s')" "r' \<noteq> 0" "s' = 0 \<or> \<not> 10 dvd r'"
      by auto
    have "r = r' * 10 ^ (Suc s - s')" using q IH(1,2) by (simp add: Suc_diff_le)
    with IH show ?thesis by simp
  next
    case False
    with 2(2,3) show ?thesis by (auto simp: smod_eq_0_iff)
  qed
qed simp

lemma canonical_parts_spec:
  assumes "canonical_parts a = (r, s)"
  shows "dec_value a = of_int r / 10 ^ s" and "s = 0 \<or> \<not> 10 dvd r" and "s \<le> scale a"
proof -
  consider "raw a = 0" "r = 0" "s = 0"
    | "raw a \<noteq> 0" "strip_zeros (raw a) (scale a) = (r, s)"
    using assms by (auto simp: canonical_parts_def split: if_splits)
  then have "dec_value a = of_int r / 10 ^ s \<and> (s = 0 \<or> \<not> 10 dvd r) \<and> s \<le> scale a"
  proof cases
    case 2
    from strip_zeros_spec [OF 2(2,1)] show ?thesis
      by (simp add: dec_value_def power_diff [where 'a = rat])
  qed (simp add: dec_value_def)
  then show "dec_value a = of_int r / 10 ^ s" "s = 0 \<or> \<not> 10 dvd r" "s \<le> scale a" by auto
qed

lemma canonical_quotient_le:
  assumes "of_int r / 10 ^ s = (of_int r' / 10 ^ s' :: rat)" and "s' = 0 \<or> \<not> 10 dvd r'"
  shows "s' \<le> s"
proof (rule ccontr)
  assume "\<not> s' \<le> s"
  then obtain k where k: "s' = s + Suc k" using less_imp_Suc_add [of s s'] by auto
  have "(of_int r :: rat) * 10 ^ Suc k = of_int r'"
    using assms(1) by (simp add: k power_add field_simps)
  then have "of_int (r * 10 ^ Suc k) = (of_int r' :: rat)" by simp
  then have "r' = 10 * (r * 10 ^ k)" unfolding of_int_eq_iff by simp
  with assms(2) k show False by simp
qed

lemma decimal_eq_value: "decimal_eq a b \<longleftrightarrow> dec_value a = dec_value b"
proof -
  obtain r s r' s' where p: "canonical_parts a = (r, s)" "canonical_parts b = (r', s')"
    by (cases "canonical_parts a", cases "canonical_parts b") auto
  note a = canonical_parts_spec [OF p(1)] and b = canonical_parts_spec [OF p(2)]
  show ?thesis
  proof
    assume eq: "dec_value a = dec_value b"
    have q: "of_int r / 10 ^ s = (of_int r' / 10 ^ s' :: rat)" using eq a(1) b(1) by simp
    have "s = s'"
      using canonical_quotient_le [OF q b(2)] canonical_quotient_le [OF q [symmetric] a(2)] by simp
    with q p show "decimal_eq a b" by (simp add: decimal_eq_def)
  qed (use a b p in \<open>simp add: decimal_eq_def\<close>)
qed

section \<open>Parsing and printing\<close>

lemma digits_no_point: "list_all is_digit s \<Longrightarrow> CHR ''.'' \<notin> set s"
  by (auto simp: list_all_iff)

lemma split_sign_eq:
  assumes "split_sign s = (neg, u)"
  shows "\<exists>sign. s = sign @ u \<and> (neg \<longleftrightarrow> sign = ''-'') \<and> sign \<in> {'''', ''+'', ''-''}"
  using assms unfolding split_sign_def
  by (auto split: option.splits simp: strip_prefix_Some_iff)

lemma split_sign_append:
  assumes "sign \<in> {'''', ''+'', ''-''}" and "w \<noteq> []" and "list_all is_digit w"
  shows "split_sign (sign @ w @ r) = (sign = ''-'', w @ r)"
proof -
  obtain c cs where "w = c # cs" and "is_digit c" using assms by (cases w) auto
  then show ?thesis using assms(1) by (auto simp: split_sign_def)
qed

lemma signed_raw_Inr_iff:
  "signed_raw neg m = Inr r \<longleftrightarrow> r = (if neg then - int m else int m) \<and> in_i128 r"
  by (auto simp: signed_raw_def Let_def in_i128_def i128_max_def i128_min_def)

lemma i128_magnitude: "in_i128 (if neg then - int m else int m) \<Longrightarrow> m \<le> u128_max"
  by (auto simp: in_i128_def u128_max_def i128_max_def i128_min_def split: if_splits)

lemma from_str_tail:
  assumes "list_all is_digit w" and "list_all is_digit f" and "length f \<le> MAX_DECIMAL_SCALE"
  shows "rbind (ok_or Overflow (to_u128 (10 ^ length f))) (\<lambda>factor.
      rbind (parse_u128 w) (\<lambda>w.
      rbind (if f = [] then Inr 0 else parse_u128 f) (\<lambda>f.
      rbind (ok_or Overflow (Option.bind (to_u128 (w * factor)) (\<lambda>v. to_u128 (v + f))))
        (\<lambda>magnitude. rbind (signed_raw neg magnitude) (\<lambda>r. from_raw r s))))) = Inr d \<longleftrightarrow>
    s \<le> MAX_DECIMAL_SCALE
    \<and> d = \<lparr>raw = (if neg then - int (dec_val (w @ f)) else int (dec_val (w @ f))), scale = s\<rparr>
    \<and> in_i128 (raw d)"
    (is "?L \<longleftrightarrow> ?R")
proof -
  let ?m = "dec_val w * 10 ^ length f + dec_val f"
  have f0: "(if f = [] then Inr 0 else parse_u128 f) = parse_u128 f"
    by (simp add: parse_u128_def to_u128_def)
  have len: "(10::nat) ^ length f \<le> u128_max"
  proof -
    have "(10::nat) ^ length f \<le> 10 ^ 38"
      using assms(3) by (intro power_increasing) (auto simp: MAX_DECIMAL_SCALE_def)
    then show ?thesis by (simp add: u128_max_def)
  qed
  have le: "dec_val w \<le> ?m" "dec_val w * 10 ^ length f \<le> ?m" "dec_val f \<le> ?m"
    using mult_le_mono2 [of 1 "10 ^ length f" "dec_val w"] by (simp_all add: trans_le_add1)
  note big = i128_magnitude [of neg ?m]
  show ?thesis
    unfolding f0 parse_u128_def dec_val_append using len le big
    by (auto simp: result_simps bind_eq_Some_conv signed_raw_Inr_iff)
qed

lemma from_str_parts:
  assumes "sign \<in> {'''', ''+'', ''-''}" and "w \<noteq> []" and "list_all is_digit w"
    and "list_all is_digit f"
  shows "decimal_from_str (decimal_text sign w f) =
    rbind (if length f \<le> 255 then Inr (length f) else Inl (ScaleOutOfRange 255 MAX_DECIMAL_SCALE)) (\<lambda>s.
    rbind (validate_scale s) (\<lambda>_.
    rbind (ok_or Overflow (to_u128 (10 ^ s))) (\<lambda>factor.
    rbind (parse_u128 w) (\<lambda>w.
    rbind (if f = [] then Inr 0 else parse_u128 f) (\<lambda>f.
    rbind (ok_or Overflow (Option.bind (to_u128 (w * factor)) (\<lambda>v. to_u128 (v + f)))) (\<lambda>magnitude.
    rbind (signed_raw (sign = ''-'') magnitude) (\<lambda>r. from_raw r s)))))))"
proof -
  let ?u = "w @ (if f = [] then [] else CHR ''.'' # f)"
  have sign: "split_sign (decimal_text sign w f) = (sign = ''-'', ?u)"
    using split_sign_append [OF assms(1-3)] by (simp add: decimal_text_def)
  have split: "split_on (CHR ''.'') ?u = (if f = [] then [w] else [w, f])"
    using assms digits_no_point by (auto simp: split_on_id split_on_append)
  have ne: "decimal_text sign w f \<noteq> []" "?u \<noteq> []" using assms(2) by (auto simp: decimal_text_def)
  show ?thesis unfolding decimal_from_str_def sign
    using ne assms by (simp add: split)
qed

lemma from_str_shape:
  assumes "decimal_from_str s = Inr d"
  shows "\<exists>sign w f. s = decimal_text sign w f \<and> sign \<in> {'''', ''+'', ''-''} \<and> w \<noteq> []
    \<and> list_all is_digit w \<and> list_all is_digit f"
proof -
  obtain neg u where u: "split_sign s = (neg, u)" by force
  then obtain sign where sign: "s = sign @ u" "sign \<in> {'''', ''+'', ''-''}"
    using split_sign_eq by blast
  obtain w rest where p: "split_on (CHR ''.'') u = w # rest"
    by (cases "split_on (CHR ''.'') u") auto
  have "\<exists>f. (rest = [] \<and> f = [] \<or> rest = [f] \<and> f \<noteq> []) \<and> w \<noteq> [] \<and> list_all is_digit w \<and> list_all is_digit f"
    using assms u p by (auto simp: decimal_from_str_def result_simps split: if_splits list.splits)
  then obtain f where f: "rest = [] \<and> f = [] \<or> rest = [f] \<and> f \<noteq> []" "w \<noteq> []"
    "list_all is_digit w" "list_all is_digit f" by blast
  have "u = w @ (if f = [] then [] else CHR ''.'' # f)"
    using f(1) p split_on_single [of _ u w] split_on_pair [of _ u w f] by auto
  with sign f show ?thesis by (auto simp: decimal_text_def)
qed

lemma decimal_from_str_iff:
  "decimal_from_str s = Inr d \<longleftrightarrow>
     (\<exists>sign w f. s = decimal_text sign w f \<and> sign \<in> {'''', ''+'', ''-''} \<and> w \<noteq> []
        \<and> list_all is_digit w \<and> list_all is_digit f \<and> length f \<le> MAX_DECIMAL_SCALE
        \<and> d = \<lparr>raw = (if sign = ''-'' then - int (dec_val (w @ f)) else int (dec_val (w @ f))),
               scale = length f\<rparr>
        \<and> in_i128 (raw d))" (is "_ \<longleftrightarrow> ?R s")
proof -
  have eval: "decimal_from_str (decimal_text sign w f) = Inr d \<longleftrightarrow>
      length f \<le> MAX_DECIMAL_SCALE
        \<and> d = \<lparr>raw = (if sign = ''-'' then - int (dec_val (w @ f)) else int (dec_val (w @ f))),
               scale = length f\<rparr>
        \<and> in_i128 (raw d)"
    if "sign \<in> {'''', ''+'', ''-''}" "w \<noteq> []" "list_all is_digit w" "list_all is_digit f"
    for sign w f
  proof (cases "length f \<le> MAX_DECIMAL_SCALE")
    case True
    then have "length f \<le> 255" by (simp add: MAX_DECIMAL_SCALE_def)
    with True show ?thesis unfolding from_str_parts [OF that]
      using from_str_tail [OF that(3,4) True] by (simp add: validate_scale_def)
  next
    case False
    then show ?thesis unfolding from_str_parts [OF that] by (auto simp: result_simps)
  qed
  show ?thesis
  proof
    assume "decimal_from_str s = Inr d"
    with from_str_shape [OF this] eval show "?R s" by blast
  qed (use eval in blast)
qed

lemma decimal_display_text:
  "\<exists>w f. decimal_display a = decimal_text (if raw a < 0 then ''-'' else '''') w f
    \<and> w \<noteq> [] \<and> list_all is_digit w \<and> list_all is_digit f \<and> length f = scale a
    \<and> dec_val (w @ f) = nat \<bar>raw a\<bar>"
proof -
  let ?A = "nat \<bar>raw a\<bar>" and ?F = "10 ^ scale a :: nat"
  let ?w = "nat_dec (?A div ?F)"
  let ?f = "if scale a = 0 then [] else pad_zeros (scale a) (nat_dec (?A mod ?F))"
  have len: "length ?f = scale a"
    using length_nat_dec_le [of "scale a" "?A mod ?F"] by simp
  have val: "dec_val (?w @ ?f) = ?A"
    unfolding dec_val_append len by (simp add: div_mult_mod_eq)
  have "decimal_display a = decimal_text (if raw a < 0 then ''-'' else '''') ?w ?f"
    using len by (auto simp: decimal_display_def decimal_text_def Let_def)
  moreover have "list_all is_digit ?f" by (simp add: digits_pad_zeros)
  ultimately show ?thesis using len val nat_dec_nonempty digits_nat_dec by blast
qed

lemma decimal_from_str_display: "decimal_ok a \<Longrightarrow> decimal_from_str (decimal_display a) = Inr a"
proof -
  assume ok: "decimal_ok a"
  obtain w f where d: "decimal_display a = decimal_text (if raw a < 0 then ''-'' else '''') w f"
    "w \<noteq> []" "list_all is_digit w" "list_all is_digit f" "length f = scale a"
    "dec_val (w @ f) = nat \<bar>raw a\<bar>"
    using decimal_display_text by blast
  let ?sign = "if raw a < 0 then ''-'' else ''''"
  have "a = \<lparr>raw = (if ?sign = ''-'' then - int (dec_val (w @ f)) else int (dec_val (w @ f))),
             scale = length f\<rparr>"
    using d by (intro decimal.equality) auto
  then show ?thesis unfolding decimal_from_str_iff
    using d ok by (intro exI [of _ ?sign] exI [of _ w] exI [of _ f]) (auto simp: decimal_ok_def)
qed

section \<open>Probability scaling\<close>

lemma sdiv_nonneg: "0 < (d :: int) \<Longrightarrow> 0 \<le> n \<Longrightarrow> n sdiv d = n div d"
  by (cases "n = 0") (auto simp: signed_divide_int_def)

lemma sdiv_nonpos: "0 < (d :: int) \<Longrightarrow> n \<le> 0 \<Longrightarrow> n sdiv d = - ((- n) div d)"
  by (cases "n = 0") (auto simp: signed_divide_int_def)

lemma abs_sdiv: "0 < (d :: int) \<Longrightarrow> \<bar>n sdiv d\<bar> = \<bar>n\<bar> div d"
  by (cases "n = 0") (auto simp: signed_divide_int_def abs_mult pos_imp_zdiv_nonneg_iff)

lemma sdiv_mult_add:
  assumes "0 < (d :: int)" and "0 \<le> a \<and> 0 \<le> b \<or> a \<le> 0 \<and> b \<le> 0"
  shows "(a * d + b) sdiv d = a + b sdiv d"
  using assms(2)
proof
  assume "0 \<le> a \<and> 0 \<le> b"
  then show ?thesis using assms(1) by (simp add: sdiv_nonneg)
next
  assume ab: "a \<le> 0 \<and> b \<le> 0"
  then have "a * d + b \<le> 0" using assms(1) by (simp add: add_nonpos_nonpos mult_nonpos_nonneg)
  moreover have "- (a * d + b) div d = - a + (- b) div d"
    using assms(1) div_mult_self1 [of d "- b" "- a"] by (simp add: algebra_simps)
  ultimately show ?thesis using ab assms(1) by (simp add: sdiv_nonpos)
qed

lemma sdiv_sign: "0 < (d :: int) \<Longrightarrow> 0 \<le> v \<Longrightarrow> 0 \<le> v sdiv d \<and> 0 \<le> v smod d"
  "0 < (d :: int) \<Longrightarrow> v \<le> 0 \<Longrightarrow> v sdiv d \<le> 0 \<and> v smod d \<le> 0"
  by (auto simp: signed_divide_int_def signed_modulo_int_def sgn_if pos_imp_zdiv_nonneg_iff)

lemma in_i128_between: "in_i128 x \<Longrightarrow> 0 \<le> y \<and> y \<le> x \<or> x \<le> y \<and> y \<le> 0 \<Longrightarrow> in_i128 y"
  by (auto simp: in_i128_def i128_max_def i128_min_def)

lemma scale_ppm_sdiv:
  assumes "in_i128 v" and "p \<le> 1000000"
  shows "checked_scale_i128_toward_zero p v = Inr ((v * int (unat p)) sdiv 1000000)"
proof -
  let ?D = "1000000 :: int" and ?p = "int (unat p)"
  let ?w = "v sdiv ?D" and ?r = "v smod ?D"
  have p: "0 \<le> ?p" "?p \<le> ?D"
    using assms(2) by (simp_all add: word_le_def)
  have v: "v = ?w * ?D + ?r" by (simp add: sdiv_mult_smod_eq)
  have sum: "(v * ?p) sdiv ?D = ?w * ?p + (?r * ?p) sdiv ?D"
  proof -
    have e: "v * ?p = (?w * ?p) * ?D + ?r * ?p" by (subst v) (simp add: algebra_simps)
    have "0 \<le> ?w * ?p \<and> 0 \<le> ?r * ?p \<or> ?w * ?p \<le> 0 \<and> ?r * ?p \<le> 0"
      using sdiv_sign [of ?D v] p by (cases "0 \<le> v") (auto simp: mult_nonpos_nonneg)
    then show ?thesis unfolding e by (intro sdiv_mult_add) simp_all
  qed
  have sign: "0 \<le> v * ?w" "0 \<le> v * (?w * ?p)" "0 \<le> v * ((v * ?p) sdiv ?D)"
    using sdiv_sign [of ?D v] sdiv_sign [of ?D "v * ?p"] p
    by (cases "0 \<le> v"; simp add: mult_nonpos_nonpos mult_nonpos_nonneg)+
  have abs: "\<bar>?w * ?D\<bar> \<le> \<bar>v\<bar>"
    by (auto simp: signed_divide_int_def abs_mult sgn_if div_times_less_eq_dividend)
  have "\<bar>?w * ?p\<bar> \<le> \<bar>?w * ?D\<bar>" using p by (simp add: abs_mult mult_left_mono)
  with abs have bw: "\<bar>?w * ?p\<bar> \<le> \<bar>v\<bar>" by linarith
  have "\<bar>?w\<bar> \<le> \<bar>?w * ?D\<bar>" by simp
  with abs have bw1: "\<bar>?w\<bar> \<le> \<bar>v\<bar>" by linarith
  have bt: "\<bar>(v * ?p) sdiv ?D\<bar> \<le> \<bar>v\<bar>"
  proof -
    have "\<bar>v * ?p\<bar> div ?D \<le> \<bar>v\<bar> * ?D div ?D"
      using p by (intro zdiv_mono1) (simp_all add: abs_mult mult_left_mono)
    then show ?thesis by (simp add: abs_sdiv)
  qed
  have r: "\<bar>?r\<bar> < ?D" using abs_smod_less [of ?D v] by simp
  have rp: "\<bar>?r * ?p\<bar> \<le> ?D * ?D"
    unfolding abs_mult using r p by (intro mult_mono) simp_all
  have rpd: "\<bar>(?r * ?p) sdiv ?D\<bar> \<le> \<bar>?r * ?p\<bar>"
    using zdiv_mono2 [of "\<bar>?r * ?p\<bar>" 1 ?D] by (simp add: abs_sdiv)
  have small: "in_i128 x" if "\<bar>x\<bar> \<le> ?D * ?D" for x
    using that by (simp add: in_i128_def i128_max_def i128_min_def abs_le_iff)
  have "in_i128 ?w" "in_i128 (?w * ?p)" "in_i128 ((v * ?p) sdiv ?D)"
    using in_i128_abs_le [OF assms(1)] bw bw1 bt sign by blast+
  moreover have "in_i128 ?r" "in_i128 (?r * ?p)" "in_i128 ((?r * ?p) sdiv ?D)"
    using r rp rpd by (auto intro!: small)
  ultimately show ?thesis using sum
    by (simp add: checked_scale_i128_toward_zero_def Let_def to_i128_def)
qed

lemma sdiv_round_rat: "d \<noteq> 0 \<Longrightarrow> round_rat TowardZero (of_int n / of_int d) = n sdiv d"
  using div_round_big_spec [of d n TowardZero] by (simp add: div_round_big_def Let_def)

section \<open>Properties\<close>

lemma dec_value_same_scale:
  "scale a = scale c \<Longrightarrow> dec_value c = (of_int k / 10 ^ scale a) \<longleftrightarrow> raw c = k"
  by (simp add: dec_value_def)

text \<open>
  C18. Multiplication, division and rescaling are correctly rounded: for every pair of
  decimals, output scale and rounding mode the result is the exact rational product,
  quotient or value, times ten to the output scale, rounded in that mode, and the error is
  the scale error, division by zero or an overflow of the 128-bit coefficient exactly when
  it must be.
\<close>

theorem decimal_rounded_arithmetic:
  "checked_mul a b s mode = rounded_result mode s (dec_value a * dec_value b)
   \<and> checked_div a b s mode =
       (if MAX_DECIMAL_SCALE < s then Inl (ScaleOutOfRange s MAX_DECIMAL_SCALE)
        else if dec_value b = 0 then Inl DivisionByZero
        else rounded_result mode s (dec_value a / dec_value b))
   \<and> rescale a s mode = rounded_result mode s (dec_value a)"
proof -
  have "dec_value b = 0 \<longleftrightarrow> raw b = 0" by (simp add: dec_value_def)
  then show ?thesis by (simp add: checked_mul_rounded checked_div_rounded rescale_rounded)
qed

text \<open>
  Addition and subtraction of valid decimals never round: a result is returned exactly
  when the scales agree and the exact sum or difference is representable at that scale, and
  then it is that sum or difference; otherwise the error tells a scale mismatch from an
  overflow.
\<close>

theorem decimal_add_sub_exact:
  assumes "decimal_ok a" and "decimal_ok b"
  shows "(checked_add a b = Inr c \<longleftrightarrow>
            scale a = scale b \<and> scale c = scale a \<and> decimal_ok c
            \<and> dec_value c = dec_value a + dec_value b)
       \<and> (checked_sub a b = Inr c \<longleftrightarrow>
            scale a = scale b \<and> scale c = scale a \<and> decimal_ok c
            \<and> dec_value c = dec_value a - dec_value b)
       \<and> (checked_add a b = Inl e \<longleftrightarrow>
            (if scale a = scale b then \<not> in_i128 (raw a + raw b) \<and> e = Overflow
             else e = ScaleMismatch (scale a) (scale b)))"
proof -
  have sum: "dec_value a + dec_value b = of_int (raw a + raw b) / 10 ^ scale a"
    "dec_value a - dec_value b = of_int (raw a - raw b) / 10 ^ scale a" if "scale a = scale b"
    using that by (simp_all add: dec_value_def add_divide_distrib diff_divide_distrib)
  have c: "c = \<lparr>raw = k, scale = scale a\<rparr> \<longleftrightarrow> scale c = scale a \<and> raw c = k" for k
    by (cases c) auto
  have le: "scale a \<le> MAX_DECIMAL_SCALE" using assms by (simp add: decimal_ok_def)
  have "checked_add a b = Inr c \<longleftrightarrow> scale a = scale b \<and> scale c = scale a \<and> decimal_ok c
            \<and> dec_value c = dec_value a + dec_value b"
    using le sum(1) dec_value_same_scale [of a c "raw a + raw b"]
    by (auto simp: checked_add_exact c decimal_ok_def)
  moreover have "checked_sub a b = Inr c \<longleftrightarrow> scale a = scale b \<and> scale c = scale a \<and> decimal_ok c
            \<and> dec_value c = dec_value a - dec_value b"
    using le sum(2) dec_value_same_scale [of a c "raw a - raw b"]
    by (auto simp: checked_sub_exact c decimal_ok_def)
  moreover have "checked_add a b = Inl e \<longleftrightarrow>
            (if scale a = scale b then \<not> in_i128 (raw a + raw b) \<and> e = Overflow
             else e = ScaleMismatch (scale a) (scale b))"
    using le by (auto simp: checked_add_def require_same_scale_def from_raw_def result_simps)
  ultimately show ?thesis by blast
qed

theorem decimal_add_sub_exact_witness:
  "decimal_ok \<lparr>raw = 15, scale = 1\<rparr> \<and> decimal_ok \<lparr>raw = - 40, scale = 1\<rparr>
   \<and> checked_add \<lparr>raw = 15, scale = 1\<rparr> \<lparr>raw = - 40, scale = 1\<rparr> = Inr \<lparr>raw = - 25, scale = 1\<rparr>"
proof -
  have ok: "decimal_ok \<lparr>raw = 15, scale = 1\<rparr>" "decimal_ok \<lparr>raw = - 40, scale = 1\<rparr>"
    "decimal_ok \<lparr>raw = - 25, scale = 1\<rparr>"
    by (simp_all add: decimal_ok_def in_i128_def i128_max_def i128_min_def MAX_DECIMAL_SCALE_def)
  have "dec_value \<lparr>raw = - 25, scale = 1\<rparr> =
      dec_value \<lparr>raw = 15, scale = 1\<rparr> + dec_value \<lparr>raw = - 40, scale = 1\<rparr>"
    by (simp add: dec_value_def)
  with ok decimal_add_sub_exact [OF ok(1,2), of "\<lparr>raw = - 25, scale = 1\<rparr>"] show ?thesis by simp
qed

text \<open>
  C21. The three ways the code compares decimals agree with one another and with the
  rationals: the ordering is the ordering of the values, and equality of the canonical
  parts, which is also what is hashed, is equality of the values. So \<^verbatim>\<open>a == b\<close> exactly when
  \<^verbatim>\<open>a.cmp(&b)\<close> is equal, as the map keys of the order book need.
\<close>

theorem decimal_comparison_agrees:
  "numeric_cmp a b = cmp (dec_value a) (dec_value b)
   \<and> (decimal_eq a b \<longleftrightarrow> dec_value a = dec_value b)
   \<and> (decimal_eq a b \<longleftrightarrow> numeric_cmp a b = Equal)"
  by (simp add: numeric_cmp_value decimal_eq_value)

text \<open>
  C22. The parser accepts exactly the strings made of an optional sign, at least one digit
  and, after a point, between one and thirty-eight digits, whose value fits the 128-bit
  coefficient; the coefficient it returns is the number all the digits spell, the scale is
  the number of digits after the point. Printing a valid decimal gives such a string and
  parsing it gives back the same coefficient and scale.
\<close>

theorem decimal_parse_print:
  "(decimal_from_str s = Inr d \<longleftrightarrow>
     (\<exists>sign w f. s = decimal_text sign w f \<and> sign \<in> {'''', ''+'', ''-''} \<and> w \<noteq> []
        \<and> list_all is_digit w \<and> list_all is_digit f \<and> length f \<le> MAX_DECIMAL_SCALE
        \<and> d = \<lparr>raw = (if sign = ''-'' then - int (dec_val (w @ f)) else int (dec_val (w @ f))),
               scale = length f\<rparr>
        \<and> in_i128 (raw d)))
   \<and> (decimal_ok a \<longleftrightarrow> decimal_from_str (decimal_display a) = Inr a)"
proof -
  have "decimal_ok a" if "decimal_from_str (decimal_display a) = Inr a"
    using that unfolding decimal_from_str_iff by (auto simp: decimal_ok_def)
  then show ?thesis using decimal_from_str_iff [of s d] decimal_from_str_display [of a] by blast
qed

text \<open>
  Scaling a 128-bit value by a probability in parts per million never fails, although
  every intermediate product is checked, and equals the exact product divided by a million
  and truncated toward zero: the split into whole and remainder loses nothing.
\<close>

theorem probability_scaling_total:
  assumes "from_ppm w = Inr p" and "in_i128 v"
  shows "checked_scale_i128_toward_zero p v =
    Inr (round_rat TowardZero (of_int v * of_nat (unat p) / 1000000))"
proof -
  have "p \<le> 1000000" using assms(1) by (auto simp: from_ppm_def split: if_splits)
  then show ?thesis
    using scale_ppm_sdiv [OF assms(2)] sdiv_round_rat [of 1000000 "v * int (unat p)"] by simp
qed

theorem probability_scaling_total_witness:
  "from_ppm 333333 = Inr 333333 \<and> in_i128 i128_min
   \<and> is_ok (checked_scale_i128_toward_zero 333333 i128_min)"
proof -
  have "from_ppm 333333 = Inr 333333" by (simp add: from_ppm_def)
  moreover have "in_i128 i128_min" by (simp add: in_i128_def i128_min_def i128_max_def)
  ultimately show ?thesis using probability_scaling_total by simp
qed

lemma round_rat_of_int: "round_rat mode (of_int k) = k"
  by (simp add: round_rat_def split: rounding_mode.splits)

lemma rescale_up_exact:
  assumes "scale a \<le> t"
  shows "rescale a t mode = Inr b \<longleftrightarrow>
    t \<le> MAX_DECIMAL_SCALE \<and> in_i128 (raw a * 10 ^ (t - scale a))
    \<and> b = \<lparr>raw = raw a * 10 ^ (t - scale a), scale = t\<rparr>"
proof -
  have "dec_value a * 10 ^ t = of_int (raw a * 10 ^ (t - scale a))"
    using assms by (simp add: dec_value_def power_diff [where 'a = rat])
  then have "round_rat mode (dec_value a * 10 ^ t) = raw a * 10 ^ (t - scale a)"
    by (simp only: round_rat_of_int)
  then show ?thesis
    by (auto simp: rescale_rounded rounded_result_def split: if_splits)
qed

text \<open>Unfolding of the parser on a literal.\<close>

lemmas decimal_eval = decimal_from_str_def split_sign_def is_digit_def code_def dec_val_def
  digit_val_def parse_u128_def to_u128_def u128_max_def MAX_DECIMAL_SCALE_def validate_scale_def
  signed_raw_def from_raw_def i128_max_def i128_min_def in_i128_def to_i128_def

text \<open>
  Reading a price or size at a market's scale, and raising the scale of a position,
  never lose precision: a result has the requested scale and the very value that was read
  or held, and a text with more places, or a request for fewer places, is an error.
\<close>

theorem decimal_no_precision_loss:
  "(parse_at_scale s t = Inr d \<longrightarrow>
      decimal_ok d \<and> scale d = t
      \<and> (\<exists>p. decimal_from_str s = Inr p \<and> scale p \<le> t \<and> dec_value d = dec_value p))
   \<and> (checked_rescale_up a t = Inr b \<longrightarrow>
      decimal_ok b \<and> scale b = t \<and> scale a \<le> t \<and> dec_value b = dec_value a)"
proof -
  have up: "decimal_ok b \<and> scale b = t \<and> dec_value b = dec_value a"
    if "rescale a t TowardZero = Inr b" "scale a \<le> t" for a b
    using that rescale_up_exact [OF that(2), of TowardZero b]
    by (auto simp: decimal_ok_def dec_value_def power_diff [where 'a = rat])
  show ?thesis using up
    by (auto simp: parse_at_scale_def checked_rescale_up_def result_simps split: if_splits)
qed

theorem decimal_no_precision_loss_witness:
  "parse_at_scale ''1.5'' 3 = Inr \<lparr>raw = 1500, scale = 3\<rparr>
   \<and> dec_value \<lparr>raw = 1500, scale = 3\<rparr> = dec_value \<lparr>raw = 15, scale = 1\<rparr>
   \<and> checked_rescale_up \<lparr>raw = 7, scale = 0\<rparr> 2 = Inr \<lparr>raw = 700, scale = 2\<rparr>
   \<and> dec_value \<lparr>raw = 700, scale = 2\<rparr> = dec_value \<lparr>raw = 7, scale = 0\<rparr>"
proof -
  have p: "parse_at_scale ''1.5'' 3 = Inr \<lparr>raw = 1500, scale = 3\<rparr>"
    by (simp add: parse_at_scale_def rescale_def rescale_big_def cmp_def big_to_i128_def decimal_eval)
  have q: "decimal_from_str ''1.5'' = Inr \<lparr>raw = 15, scale = 1\<rparr>"
    by (simp add: decimal_eval)
  have r: "checked_rescale_up \<lparr>raw = 7, scale = 0\<rparr> 2 = Inr \<lparr>raw = 700, scale = 2\<rparr>"
    by (simp add: checked_rescale_up_def rescale_def rescale_big_def cmp_def big_to_i128_def decimal_eval)
  have "dec_value \<lparr>raw = 1500, scale = 3\<rparr> = dec_value \<lparr>raw = 15, scale = 1\<rparr>"
    using decimal_no_precision_loss [of "''1.5''" 3 "\<lparr>raw = 1500, scale = 3\<rparr>"] p q by auto
  moreover have "dec_value \<lparr>raw = 700, scale = 2\<rparr> = dec_value \<lparr>raw = 7, scale = 0\<rparr>"
    using decimal_no_precision_loss [where a = "\<lparr>raw = 7, scale = 0\<rparr>" and t = 2
      and b = "\<lparr>raw = 700, scale = 2\<rparr>"] r by blast
  ultimately show ?thesis using p r by blast
qed

end
