(* ===== verification/Exact_Notional.thy ===== *)
theory Exact_Notional
  imports Domain_Decimal
begin

text \<open>
  The exact quote notional of \<^verbatim>\<open>crates/domain-types/src/decimal.rs\<close>: a price times a size
  without rounding, kept as an unbounded coefficient of at most 512 bits with trailing zeros
  stripped. Products of a valid price and size always exist, sums and differences are exact,
  and the wire form is canonical: the parser accepts exactly the strings the printer writes.
\<close>

section \<open>Values\<close>

record exact_quote_notional =
  coefficient :: int
  notional_scale :: nat

definition MAX_NOTIONAL_SCALE :: nat where
  "MAX_NOTIONAL_SCALE = 76"

definition MAX_NOTIONAL_COEFFICIENT_BITS :: nat where
  "MAX_NOTIONAL_COEFFICIENT_BITS = 512"

definition MAX_NOTIONAL_DECIMAL_DIGITS :: nat where
  "MAX_NOTIONAL_DECIMAL_DIGITS = 155"

definition MAX_NOTIONAL_WIRE_BYTES :: nat where
  "MAX_NOTIONAL_WIRE_BYTES = 256"

text \<open>\<^verbatim>\<open>BigInt::bits\<close>: the length of the binary magnitude.\<close>

fun bit_length :: "nat \<Rightarrow> nat" where
  "bit_length n = (if n = 0 then 0 else Suc (bit_length (n div 2)))"

declare bit_length.simps [simp del]

definition validate_notional_scale :: "nat \<Rightarrow> value_error + unit" where
  "validate_notional_scale s =
     (if s > MAX_NOTIONAL_SCALE then Inl (ScaleOutOfRange s MAX_NOTIONAL_SCALE) else Inr ())"

definition validate_notional_coefficient :: "int \<Rightarrow> value_error + unit" where
  "validate_notional_coefficient c =
     (if bit_length (nat \<bar>c\<bar>) > MAX_NOTIONAL_COEFFICIENT_BITS then Inl OutOfRange else Inr ())"

definition canonicalize_notional :: "int \<Rightarrow> nat \<Rightarrow> int \<times> nat" where
  "canonicalize_notional c s = (if c = 0 then (0, 0) else strip_zeros c s)"

definition from_coefficient :: "int \<Rightarrow> nat \<Rightarrow> value_error + exact_quote_notional" where
  "from_coefficient c s =
     rbind (validate_notional_scale s) (\<lambda>_.
     let (c', s') = canonicalize_notional c s in
     rbind (validate_notional_coefficient c') (\<lambda>_.
     Inr \<lparr>coefficient = c', notional_scale = s'\<rparr>))"

text \<open>The sum of two scales is a checked addition of bytes.\<close>

definition checked_product :: "decimal \<Rightarrow> decimal \<Rightarrow> value_error + exact_quote_notional" where
  "checked_product price quantity =
     (let c = raw price * raw quantity in
      rbind (if scale price + scale quantity \<le> 255 then Inr (scale price + scale quantity)
             else Inl Overflow) (\<lambda>s.
      from_coefficient c s))"

definition checked_coefficient_at_scale ::
  "exact_quote_notional \<Rightarrow> nat \<Rightarrow> value_error + int" where
  "checked_coefficient_at_scale n target_scale =
     rbind (validate_notional_scale target_scale) (\<lambda>_.
     if target_scale < notional_scale n
     then Inl (DownwardExactRescale (notional_scale n) target_scale)
     else
       let c = coefficient n * pow10_big (target_scale - notional_scale n) in
       rbind (validate_notional_coefficient c) (\<lambda>_. Inr c))"

definition notional_checked_add ::
  "exact_quote_notional \<Rightarrow> exact_quote_notional \<Rightarrow> value_error + exact_quote_notional" where
  "notional_checked_add a b =
     (let target_scale = max (notional_scale a) (notional_scale b) in
      rbind (checked_coefficient_at_scale a target_scale) (\<lambda>left.
      rbind (checked_coefficient_at_scale b target_scale) (\<lambda>right.
      from_coefficient (left + right) target_scale)))"

definition notional_checked_sub ::
  "exact_quote_notional \<Rightarrow> exact_quote_notional \<Rightarrow> value_error + exact_quote_notional" where
  "notional_checked_sub a b =
     (let target_scale = max (notional_scale a) (notional_scale b) in
      rbind (checked_coefficient_at_scale a target_scale) (\<lambda>left.
      rbind (checked_coefficient_at_scale b target_scale) (\<lambda>right.
      from_coefficient (left - right) target_scale)))"

definition coefficient_at_scale_for_ordering :: "exact_quote_notional \<Rightarrow> nat \<Rightarrow> int" where
  "coefficient_at_scale_for_ordering n target_scale =
     coefficient n * pow10_big (target_scale - notional_scale n)"

definition notional_cmp :: "exact_quote_notional \<Rightarrow> exact_quote_notional \<Rightarrow> ordering" where
  "notional_cmp a b =
     (let target_scale = max (notional_scale a) (notional_scale b) in
      cmp (coefficient_at_scale_for_ordering a target_scale)
          (coefficient_at_scale_for_ordering b target_scale))"

section \<open>Text\<close>

definition notional_split_sign :: "string \<Rightarrow> value_error + (bool \<times> string)" where
  "notional_split_sign input =
     (case strip_prefix ''-'' input of
        Some rest \<Rightarrow> Inr (True, rest)
      | None \<Rightarrow> if strip_prefix ''+'' input \<noteq> None then Inl Invalid else Inr (False, input))"

definition notional_from_str :: "string \<Rightarrow> value_error + exact_quote_notional" where
  "notional_from_str input =
     (if length input > MAX_NOTIONAL_WIRE_BYTES then Inl OutOfRange
      else if input = [] then Inl Invalid
      else
        rbind (notional_split_sign input) (\<lambda>(negative, unsigned).
        if unsigned = [] then Inl Invalid
        else case split_on (CHR ''.'') unsigned of
          [] \<Rightarrow> Inl Invalid
        | whole # rest \<Rightarrow>
            if tl rest \<noteq> [] \<or> whole = [] \<or> \<not> list_all is_digit whole
               \<or> (length whole > 1 \<and> hd whole = CHR ''0'')
            then Inl Invalid
            else
              rbind (case rest of
                       [] \<Rightarrow> Inr []
                     | v # _ \<Rightarrow>
                         if v \<noteq> [] \<and> list_all is_digit v \<and> last v \<noteq> CHR ''0'' then Inr v
                         else Inl Invalid) (\<lambda>fraction.
              if negative \<and> whole = ''0'' \<and> fraction = [] then Inl Invalid
              else
                let digit_count = length whole + length fraction in
                if digit_count > MAX_NOTIONAL_DECIMAL_DIGITS then Inl OutOfRange
                else
                  rbind (if length fraction \<le> 255 then Inr (length fraction) else Inl OutOfRange)
                    (\<lambda>s.
                  rbind (validate_notional_scale s) (\<lambda>_.
                  let magnitude = int (dec_val (whole @ fraction)) in
                  from_coefficient (if negative then - magnitude else magnitude) s)))))"

definition notional_display :: "exact_quote_notional \<Rightarrow> string" where
  "notional_display n =
     (let digits = nat_dec (nat \<bar>coefficient n\<bar>); s = notional_scale n in
      (if coefficient n < 0 then ''-'' else [])
      @ (if s = 0 then digits
         else if length digits \<le> s
         then ''0.'' @ replicate (s - length digits) (CHR ''0'') @ digits
         else
           let split = length digits - s in take split digits @ ''.'' @ drop split digits))"

section \<open>The specification\<close>

definition notional_value :: "exact_quote_notional \<Rightarrow> rat" where
  "notional_value n = of_int (coefficient n) / 10 ^ notional_scale n"

text \<open>The invariant of the private fields: bounded, and no trailing zero to strip.\<close>

definition notional_ok :: "exact_quote_notional \<Rightarrow> bool" where
  "notional_ok n \<longleftrightarrow>
     notional_scale n \<le> MAX_NOTIONAL_SCALE
     \<and> \<bar>coefficient n\<bar> < 2 ^ MAX_NOTIONAL_COEFFICIENT_BITS
     \<and> (notional_scale n = 0 \<or> \<not> 10 dvd coefficient n)"

text \<open>The canonical digits of a magnitude: no leading zero, no trailing zero after the point.\<close>

definition canonical_digits :: "string \<Rightarrow> string \<Rightarrow> bool" where
  "canonical_digits w f \<longleftrightarrow>
     w \<noteq> [] \<and> list_all is_digit w \<and> list_all is_digit f
     \<and> (length w = 1 \<or> hd w \<noteq> CHR ''0'') \<and> (f = [] \<or> last f \<noteq> CHR ''0'')"

section \<open>Arithmetic is exact\<close>

lemma bit_length_le: "bit_length n \<le> k \<longleftrightarrow> n < 2 ^ k"
proof (induction n arbitrary: k rule: bit_length.induct)
  case (1 n)
  show ?case
  proof (cases "n = 0")
    case False
    show ?thesis
    proof (cases k)
      case 0
      then show ?thesis using False by (simp add: bit_length.simps [of n])
    next
      case (Suc j)
      have "n div 2 < 2 ^ j \<longleftrightarrow> n < 2 ^ Suc j" by auto
      then show ?thesis using 1 [OF False, of j] False Suc by (simp add: bit_length.simps [of n])
    qed
  qed (simp add: bit_length.simps)
qed

lemma validate_notional_scale_Inr [result_simps]:
  "validate_notional_scale s = Inr u \<longleftrightarrow> s \<le> MAX_NOTIONAL_SCALE"
  by (auto simp: validate_notional_scale_def)

lemma validate_notional_coefficient_Inr [result_simps]:
  "validate_notional_coefficient c = Inr u \<longleftrightarrow> \<bar>c\<bar> < 2 ^ MAX_NOTIONAL_COEFFICIENT_BITS"
proof -
  have "nat \<bar>c\<bar> < 2 ^ k \<longleftrightarrow> \<bar>c\<bar> < 2 ^ k" for k by (simp add: nat_less_iff)
  then show ?thesis
    using bit_length_le [of "nat \<bar>c\<bar>" MAX_NOTIONAL_COEFFICIENT_BITS]
    by (auto simp: validate_notional_coefficient_def not_less)
qed

lemma canonicalize_notional_spec:
  assumes "canonicalize_notional c s = (c', s')"
  shows "of_int c' / 10 ^ s' = (of_int c / 10 ^ s :: rat)" and "s' = 0 \<or> \<not> 10 dvd c'"
    and "s' \<le> s" and "\<bar>c'\<bar> \<le> \<bar>c\<bar>"
proof -
  note parts = canonical_parts_spec [of "\<lparr>raw = c, scale = s\<rparr>" c' s']
  have p: "canonical_parts \<lparr>raw = c, scale = s\<rparr> = (c', s')"
    using assms by (auto simp: canonical_parts_def canonicalize_notional_def split: if_splits)
  show "of_int c' / 10 ^ s' = (of_int c / 10 ^ s :: rat)" and "s' = 0 \<or> \<not> 10 dvd c'" and "s' \<le> s"
    using parts [OF p] by (simp_all add: dec_value_def)
  show "\<bar>c'\<bar> \<le> \<bar>c\<bar>"
  proof (cases "c = 0")
    case False
    then have "c = c' * 10 ^ (s - s')"
      using assms strip_zeros_spec [of c s c' s'] by (simp add: canonicalize_notional_def)
    then have "\<bar>c\<bar> = \<bar>c'\<bar> * 10 ^ (s - s')" by (simp add: abs_mult)
    then show ?thesis using mult_left_mono [of 1 "10 ^ (s - s')" "\<bar>c'\<bar>"] by simp
  qed (use assms in \<open>simp add: canonicalize_notional_def\<close>)
qed

lemma from_coefficient_Inr:
  assumes "from_coefficient c s = Inr n"
  shows "notional_ok n" and "notional_value n = of_int c / 10 ^ s"
proof -
  obtain c' s' where cs: "canonicalize_notional c s = (c', s')" by force
  have n: "n = \<lparr>coefficient = c', notional_scale = s'\<rparr>" "s \<le> MAX_NOTIONAL_SCALE"
    "\<bar>c'\<bar> < 2 ^ MAX_NOTIONAL_COEFFICIENT_BITS"
    using assms by (auto simp: from_coefficient_def cs result_simps)
  show "notional_ok n" and "notional_value n = of_int c / 10 ^ s"
    using n canonicalize_notional_spec [OF cs] by (auto simp: notional_ok_def notional_value_def)
qed

lemma from_coefficient_total:
  assumes "s \<le> MAX_NOTIONAL_SCALE" and "\<bar>c\<bar> < 2 ^ MAX_NOTIONAL_COEFFICIENT_BITS"
  shows "\<exists>n. from_coefficient c s = Inr n"
proof -
  obtain c' s' where cs: "canonicalize_notional c s = (c', s')" by force
  have "\<bar>c'\<bar> < 2 ^ MAX_NOTIONAL_COEFFICIENT_BITS"
    using canonicalize_notional_spec(4) [OF cs] assms(2) by linarith
  then show ?thesis using assms(1) by (auto simp: from_coefficient_def cs result_simps)
qed

lemma notional_value_inject:
  assumes "notional_ok a" and "notional_ok b" and "notional_value a = notional_value b"
  shows "a = b"
proof -
  have v: "of_int (coefficient a) / 10 ^ notional_scale a =
      (of_int (coefficient b) / 10 ^ notional_scale b :: rat)"
    using assms(3) by (simp add: notional_value_def)
  have "notional_scale a = notional_scale b"
    using canonical_quotient_le [OF v] canonical_quotient_le [OF v [symmetric]] assms(1,2)
    by (simp add: notional_ok_def)
  with v show ?thesis by (intro exact_quote_notional.equality) simp_all
qed

lemma coefficient_at_scale_exact:
  assumes "checked_coefficient_at_scale n t = Inr c"
  shows "of_int c / 10 ^ t = notional_value n" and "t \<le> MAX_NOTIONAL_SCALE"
  using assms
  by (auto simp: checked_coefficient_at_scale_def notional_value_def result_simps Let_def
      power_diff [where 'a = rat] split: if_splits)

lemma ordering_coefficient:
  "notional_scale n \<le> t \<Longrightarrow>
   of_int (coefficient_at_scale_for_ordering n t) = notional_value n * 10 ^ t"
  by (simp add: coefficient_at_scale_for_ordering_def notional_value_def power_diff [where 'a = rat])

lemma notional_cmp_value: "notional_cmp a b = cmp (notional_value a) (notional_value b)"
proof -
  let ?t = "max (notional_scale a) (notional_scale b)"
  let ?l = "coefficient_at_scale_for_ordering a ?t" and ?r = "coefficient_at_scale_for_ordering b ?t"
  have l: "(of_int ?l :: rat) = notional_value a * 10 ^ ?t"
    and r: "(of_int ?r :: rat) = notional_value b * 10 ^ ?t"
    by (simp_all add: ordering_coefficient)
  have "?l < ?r \<longleftrightarrow> notional_value a < notional_value b"
    using of_int_less_iff [of ?l ?r, where 'a = rat] unfolding l r by simp
  moreover have "?l = ?r \<longleftrightarrow> notional_value a = notional_value b"
    using of_int_eq_iff [of ?l ?r, where 'a = rat] unfolding l r by simp
  ultimately show ?thesis by (simp add: notional_cmp_def cmp_def Let_def)
qed

section \<open>The wire form is canonical\<close>

lemma canonical_digits_eq:
  assumes "canonical_digits w f"
  shows "w = nat_dec (dec_val (w @ f) div 10 ^ length f)" and "dec_val f = dec_val (w @ f) mod 10 ^ length f"
proof -
  have f: "dec_val f < 10 ^ length f" using assms by (simp add: canonical_digits_def dec_val_less)
  have "dec_val (w @ f) div 10 ^ length f = dec_val w" using f by (simp add: dec_val_append)
  then show "w = nat_dec (dec_val (w @ f) div 10 ^ length f)"
    using nat_dec_dec_val [of w] assms by (simp add: canonical_digits_def)
  show "dec_val f = dec_val (w @ f) mod 10 ^ length f" using f by (simp add: dec_val_append)
qed

lemma canonical_digits_unique:
  assumes "canonical_digits w f" and "canonical_digits w' f'" and "length f = length f'"
    and "dec_val (w @ f) = dec_val (w' @ f')"
  shows "w = w'" and "f = f'"
  using assms canonical_digits_eq [OF assms(1)] canonical_digits_eq [OF assms(2)]
  by (auto simp: canonical_digits_def intro: dec_val_inject_length)

lemma last_digit_zero:
  assumes "list_all is_digit f" and "f \<noteq> []"
  shows "last f = CHR ''0'' \<longleftrightarrow> 10 dvd dec_val (w @ f)"
proof -
  obtain g c where f: "f = g @ [c]" using assms(2) by (cases f rule: rev_cases) auto
  have "is_digit c" using assms(1) f by simp
  then have "c = CHR ''0'' \<longleftrightarrow> digit_val c = 0"
    using digit_char_digit_val [of c] by (auto simp flip: digit_char_0)
  moreover have "dec_val (w @ f) = 10 * dec_val (w @ g) + digit_val c"
    using dec_val_snoc [of "w @ g" c] f by simp
  moreover have "digit_val c < 10" using \<open>is_digit c\<close> by (rule digit_val_less)
  ultimately show ?thesis using f by (auto simp: dvd_eq_mod_eq_0)
qed

lemma digits_of_padded:
  "0 < s \<Longrightarrow> length d \<le> s \<Longrightarrow> replicate (s - length d) (CHR ''0'') @ d = pad_zeros s d"
  by (simp add: pad_zeros_def)

lemma notional_display_digits:
  assumes "notional_scale n = 0 \<or> \<not> 10 dvd coefficient n"
  shows "\<exists>w f. notional_display n = decimal_text (if coefficient n < 0 then ''-'' else '''') w f
    \<and> canonical_digits w f \<and> length f = notional_scale n \<and> dec_val (w @ f) = nat \<bar>coefficient n\<bar>"
proof -
  let ?c = "nat \<bar>coefficient n\<bar>" and ?s = "notional_scale n"
  let ?d = "nat_dec ?c"
  have ten: "\<not> 10 dvd ?c" if "0 < ?s" using assms that by (simp add: nat_dvd_iff)
  have fit: "canonical_digits w f \<and> length f = ?s \<and> dec_val (w @ f) = ?c"
    if "w \<noteq> []" "list_all is_digit (w @ f)" "length w = 1 \<or> hd w \<noteq> CHR ''0''" "length f = ?s"
      "dec_val (w @ f) = ?c" for w f
  proof -
    have "f = [] \<or> 0 < ?s" using that(4) by (cases f) auto
    then show ?thesis using that ten last_digit_zero [of f w] by (auto simp: canonical_digits_def)
  qed
  have hd: "length ?d = 1 \<or> hd ?d \<noteq> CHR ''0''"
    using hd_nat_dec [of ?c] by (cases "?c = 0") simp_all
  consider (int) "?s = 0" | (small) "0 < ?s" "length ?d \<le> ?s" | (big) "0 < ?s" "?s < length ?d"
    by linarith
  then show ?thesis
  proof cases
    case int
    have "canonical_digits ?d [] \<and> length ([] :: string) = ?s \<and> dec_val (?d @ []) = ?c"
      using int hd by (intro fit) simp_all
    moreover have "notional_display n = decimal_text (if coefficient n < 0 then ''-'' else []) ?d []"
      using int by (simp add: notional_display_def decimal_text_def Let_def)
    ultimately show ?thesis by blast
  next
    case small
    have "dec_val ([CHR ''0''] @ pad_zeros ?s ?d) = ?c"
      unfolding dec_val_append using dec_val_zeros [of 1] by simp
    then have "canonical_digits [CHR ''0''] (pad_zeros ?s ?d) \<and> length (pad_zeros ?s ?d) = ?s
        \<and> dec_val ([CHR ''0''] @ pad_zeros ?s ?d) = ?c"
      using small by (intro fit) (auto simp: digits_pad_zeros)
    moreover have "notional_display n =
        decimal_text (if coefficient n < 0 then ''-'' else []) [CHR ''0''] (pad_zeros ?s ?d)"
      using small by (simp add: notional_display_def decimal_text_def Let_def digits_of_padded)
    ultimately show ?thesis by blast
  next
    case big
    let ?k = "length ?d - ?s"
    have "hd (take ?k ?d) = hd ?d" using big by (simp add: hd_take)
    moreover have "length ?d \<noteq> 1" using big by simp
    ultimately have "canonical_digits (take ?k ?d) (drop ?k ?d) \<and> length (drop ?k ?d) = ?s
        \<and> dec_val (take ?k ?d @ drop ?k ?d) = ?c"
      using big hd by (intro fit) auto
    moreover have "notional_display n =
        decimal_text (if coefficient n < 0 then ''-'' else []) (take ?k ?d) (drop ?k ?d)"
      using big by (simp add: notional_display_def decimal_text_def Let_def)
    ultimately show ?thesis by blast
  qed
qed

lemma notional_split_sign_Inr:
  assumes "notional_split_sign s = Inr (neg, u)"
  shows "s = (if neg then ''-'' else '''') @ u"
  using assms
  by (auto simp: notional_split_sign_def strip_prefix_Some_iff split: option.splits if_splits)

lemma notional_split_sign_text:
  assumes "canonical_digits w f"
  shows "notional_split_sign ((if neg then ''-'' else '''') @ w @ r) = Inr (neg, w @ r)"
proof -
  obtain c cs where "w = c # cs" and "is_digit c"
    using assms by (cases w) (auto simp: canonical_digits_def)
  then show ?thesis by (auto simp: notional_split_sign_def)
qed

lemma notional_from_str_shape:
  assumes "notional_from_str s = Inr n"
  shows "\<exists>neg w f. s = decimal_text (if neg then ''-'' else '''') w f \<and> canonical_digits w f
    \<and> \<not> (neg \<and> w = ''0'' \<and> f = []) \<and> length w + length f \<le> MAX_NOTIONAL_DECIMAL_DIGITS
    \<and> length f \<le> MAX_NOTIONAL_SCALE"
proof -
  obtain neg u where u: "notional_split_sign s = Inr (neg, u)"
    using assms by (auto simp: notional_from_str_def result_simps split: if_splits)
  obtain w rest where p: "split_on (CHR ''.'') u = w # rest"
    by (cases "split_on (CHR ''.'') u") auto
  have "\<exists>f. (rest = [] \<and> f = [] \<or> rest = [f] \<and> f \<noteq> [] \<and> last f \<noteq> CHR ''0'') \<and> w \<noteq> []
      \<and> list_all is_digit w \<and> list_all is_digit f \<and> (length w = 1 \<or> hd w \<noteq> CHR ''0'')
      \<and> \<not> (neg \<and> w = ''0'' \<and> f = []) \<and> length w + length f \<le> MAX_NOTIONAL_DECIMAL_DIGITS
      \<and> length f \<le> MAX_NOTIONAL_SCALE"
  proof (cases rest)
    case Nil
    then show ?thesis using assms u p
      by (auto simp: notional_from_str_def result_simps Suc_lessI Let_def split: if_splits)
  next
    case (Cons v vs)
    then show ?thesis using assms u p
      by (auto simp: notional_from_str_def result_simps Suc_lessI Let_def split: if_splits)
  qed
  then obtain f where f: "rest = [] \<and> f = [] \<or> rest = [f] \<and> f \<noteq> []" "canonical_digits w f"
    "\<not> (neg \<and> w = ''0'' \<and> f = [])" "length w + length f \<le> MAX_NOTIONAL_DECIMAL_DIGITS"
    "length f \<le> MAX_NOTIONAL_SCALE" by (auto simp: canonical_digits_def)
  have "u = w @ (if f = [] then [] else CHR ''.'' # f)"
    using f(1) p split_on_single [of _ u w] split_on_pair [of _ u w f] by auto
  with notional_split_sign_Inr [OF u] f show ?thesis
    by (intro exI [of _ neg] exI [of _ w] exI [of _ f]) (auto simp: decimal_text_def)
qed

lemma notional_from_str_text:
  assumes c: "canonical_digits w f" and n: "\<not> (neg \<and> w = ''0'' \<and> f = [])"
    and len: "length w + length f \<le> MAX_NOTIONAL_DECIMAL_DIGITS" "length f \<le> MAX_NOTIONAL_SCALE"
  shows "notional_from_str (decimal_text (if neg then ''-'' else '''') w f) =
    from_coefficient (if neg then - int (dec_val (w @ f)) else int (dec_val (w @ f))) (length f)"
proof -
  let ?sign = "if neg then ''-'' else ''''"
  let ?u = "w @ (if f = [] then [] else CHR ''.'' # f)"
  have w: "w \<noteq> []" "list_all is_digit w" "list_all is_digit f" "length w = 1 \<or> hd w \<noteq> CHR ''0''"
    "f = [] \<or> last f \<noteq> CHR ''0''"
    using c by (simp_all add: canonical_digits_def)
  have sign: "notional_split_sign (decimal_text ?sign w f) = Inr (neg, ?u)"
    unfolding decimal_text_def using notional_split_sign_text [OF c] by blast
  have split: "split_on (CHR ''.'') ?u = (if f = [] then [w] else [w, f])"
    using w digits_no_point by (auto simp: split_on_id split_on_append)
  have shape: "decimal_text ?sign w f \<noteq> []" "?u \<noteq> []" "length (decimal_text ?sign w f) \<le> MAX_NOTIONAL_WIRE_BYTES"
    using w len by (auto simp: decimal_text_def MAX_NOTIONAL_WIRE_BYTES_def MAX_NOTIONAL_DECIMAL_DIGITS_def)
  have scale: "validate_notional_scale (length f) = Inr ()" "length f \<le> 255"
    using len by (simp_all add: validate_notional_scale_def MAX_NOTIONAL_SCALE_def)
  show ?thesis
  proof (cases "f = []")
    case True
    then show ?thesis using split sign shape scale w n len(1)
      by (auto simp: notional_from_str_def not_less)
  next
    case False
    then show ?thesis using split sign shape scale w n len(1)
      by (auto simp: notional_from_str_def not_less)
  qed
qed

lemma from_coefficient_canonical:
  assumes "notional_ok n"
  shows "from_coefficient (coefficient n) (notional_scale n) = Inr n"
proof -
  obtain m where m: "from_coefficient (coefficient n) (notional_scale n) = Inr m"
    using from_coefficient_total [of "notional_scale n" "coefficient n"] assms
    by (auto simp: notional_ok_def)
  have "m = n"
    using from_coefficient_Inr [OF m] assms
    by (intro notional_value_inject) (simp_all add: notional_value_def)
  with m show ?thesis by simp
qed

lemma canonical_digits_length:
  assumes "canonical_digits w f" and "length f \<le> MAX_NOTIONAL_SCALE"
    and "dec_val (w @ f) < 2 ^ MAX_NOTIONAL_COEFFICIENT_BITS"
  shows "length w + length f \<le> MAX_NOTIONAL_DECIMAL_DIGITS"
proof (cases "length w = 1")
  case True
  then show ?thesis using assms(2)
    by (simp add: MAX_NOTIONAL_SCALE_def MAX_NOTIONAL_DECIMAL_DIGITS_def)
next
  case False
  then have "hd (w @ f) \<noteq> CHR ''0''" "w \<noteq> []" "list_all is_digit (w @ f)"
    using assms(1) by (auto simp: canonical_digits_def)
  then have "nat_dec (dec_val (w @ f)) = w @ f" by (intro nat_dec_dec_val) auto
  moreover have "(2::nat) ^ 512 < 10 ^ 155" by simp
  then have "dec_val (w @ f) < 10 ^ 155"
    using assms(3) by (simp add: MAX_NOTIONAL_COEFFICIENT_BITS_def)
  then have "length (nat_dec (dec_val (w @ f))) \<le> 155" by (intro length_nat_dec_le) simp_all
  ultimately show ?thesis by (simp add: MAX_NOTIONAL_DECIMAL_DIGITS_def)
qed

lemma notional_from_str_display:
  assumes "notional_ok n"
  shows "notional_from_str (notional_display n) = Inr n"
proof -
  let ?neg = "coefficient n < 0"
  obtain w f where d: "notional_display n = decimal_text (if ?neg then ''-'' else '''') w f"
    "canonical_digits w f" "length f = notional_scale n" "dec_val (w @ f) = nat \<bar>coefficient n\<bar>"
    using notional_display_digits [of n] assms by (auto simp: notional_ok_def)
  have n: "\<not> (?neg \<and> w = ''0'' \<and> f = [])"
    using d(4) dec_val_zeros [of 1] by auto
  have len: "length f \<le> MAX_NOTIONAL_SCALE" using assms d(3) by (simp add: notional_ok_def)
  have "dec_val (w @ f) < 2 ^ MAX_NOTIONAL_COEFFICIENT_BITS"
    using assms d(4) by (simp add: notional_ok_def nat_less_iff)
  from notional_from_str_text [OF d(2) n canonical_digits_length [OF d(2) len this] len]
  show ?thesis unfolding d(1) d(3) d(4)
    using from_coefficient_canonical [OF assms] by (simp split: if_splits)
qed

lemma notional_display_from_str:
  assumes "notional_from_str s = Inr n"
  shows "notional_ok n" and "notional_display n = s"
proof -
  obtain neg w f where s: "s = decimal_text (if neg then ''-'' else '''') w f" "canonical_digits w f"
    "\<not> (neg \<and> w = ''0'' \<and> f = [])" "length w + length f \<le> MAX_NOTIONAL_DECIMAL_DIGITS"
    "length f \<le> MAX_NOTIONAL_SCALE"
    using notional_from_str_shape [OF assms] by blast
  let ?m = "int (dec_val (w @ f))"
  have coeff: "from_coefficient (if neg then - ?m else ?m) (length f) = Inr n"
    using assms notional_from_str_text [OF s(2-5)] s(1) by simp
  note n = from_coefficient_Inr [OF coeff]
  show "notional_ok n" by (rule n)
  have bits: "\<bar>if neg then - ?m else ?m\<bar> < 2 ^ MAX_NOTIONAL_COEFFICIENT_BITS"
    and eq: "n = \<lparr>coefficient = (if neg then - ?m else ?m), notional_scale = length f\<rparr>"
  proof -
    have canon: "length f = 0 \<or> \<not> 10 dvd (if neg then - ?m else ?m)"
      using s(2) last_digit_zero [of f w] int_dvd_int_iff [of 10 "dec_val (w @ f)"]
      by (auto simp: canonical_digits_def)
    let ?n = "\<lparr>coefficient = (if neg then - ?m else ?m), notional_scale = length f\<rparr>"
    have v: "of_int (coefficient n) / 10 ^ notional_scale n =
        (of_int (coefficient ?n) / 10 ^ notional_scale ?n :: rat)"
      using n(2) by (simp add: notional_value_def)
    have "notional_scale n = notional_scale ?n"
      using canonical_quotient_le [OF v] canonical_quotient_le [OF v [symmetric]] canon n(1)
      by (auto simp: notional_ok_def)
    with v show eq: "n = ?n" by (intro exact_quote_notional.equality) simp_all
    then show "\<bar>if neg then - ?m else ?m\<bar> < 2 ^ MAX_NOTIONAL_COEFFICIENT_BITS"
      using n(1) by (simp add: notional_ok_def)
  qed
  have pos: "0 < dec_val (w @ f)" if neg
  proof (rule ccontr)
    assume "\<not> 0 < dec_val (w @ f)"
    then have "dec_val (w @ f) = 0" by simp
    then have "w = nat_dec 0" and "f = [] \<or> last f = CHR ''0''"
      using canonical_digits_eq(1) [OF s(2)] s(2) last_digit_zero [of f w]
      by (auto simp: canonical_digits_def)
    then show False using s(2,3) that by (auto simp: canonical_digits_def)
  qed
  obtain w' f' where d: "notional_display n = decimal_text (if coefficient n < 0 then ''-'' else '''') w' f'"
    "canonical_digits w' f'" "length f' = notional_scale n" "dec_val (w' @ f') = nat \<bar>coefficient n\<bar>"
    using notional_display_digits [of n] n(1) by (auto simp: notional_ok_def)
  have "w' = w" "f' = f"
    using canonical_digits_unique [OF d(2) s(2)] d(3,4) eq by simp_all
  moreover have "coefficient n < 0 \<longleftrightarrow> neg" using eq pos by auto
  ultimately show "notional_display n = s" using d(1) s(1) by simp
qed

section \<open>Properties\<close>

lemma validate_notional_coefficient_eq:
  "validate_notional_coefficient c =
     (if \<bar>c\<bar> < 2 ^ MAX_NOTIONAL_COEFFICIENT_BITS then Inr () else Inl OutOfRange)"
  using validate_notional_coefficient_Inr [of c "()"]
  by (auto simp: validate_notional_coefficient_def split: if_splits)

lemma checked_product_total:
  assumes "decimal_ok p" and "decimal_ok q"
  shows "\<exists>n. checked_product p q = Inr n"
proof -
  have s: "scale p + scale q \<le> MAX_NOTIONAL_SCALE"
    using assms by (simp add: decimal_ok_def MAX_DECIMAL_SCALE_def MAX_NOTIONAL_SCALE_def)
  have "\<bar>raw p\<bar> \<le> 2 ^ 127" "\<bar>raw q\<bar> \<le> 2 ^ 127"
    using assms by (auto simp: decimal_ok_def in_i128_def i128_max_eq i128_min_eq abs_le_iff)
  then have "\<bar>raw p * raw q\<bar> \<le> 2 ^ 127 * 2 ^ 127"
    unfolding abs_mult by (intro mult_mono) simp_all
  also have "\<dots> < (2 :: int) ^ 512" by simp
  finally have "\<bar>raw p * raw q\<bar> < 2 ^ MAX_NOTIONAL_COEFFICIENT_BITS"
    by (simp only: MAX_NOTIONAL_COEFFICIENT_BITS_def)
  from from_coefficient_total [OF s this] s show ?thesis
    by (auto simp: checked_product_def MAX_NOTIONAL_SCALE_def)
qed

lemma checked_product_exact:
  "checked_product p q = Inr n \<Longrightarrow> notional_ok n \<and> notional_value n = dec_value p * dec_value q"
  using from_coefficient_Inr [of "raw p * raw q" "scale p + scale q" n]
  by (auto simp: checked_product_def Let_def dec_value_def power_add split: if_splits)

lemma notional_checked_add_value:
  assumes "notional_checked_add a b = Inr c"
  shows "notional_ok c \<and> notional_value c = notional_value a + notional_value b"
proof -
  let ?t = "max (notional_scale a) (notional_scale b)"
  obtain l r where lr: "checked_coefficient_at_scale a ?t = Inr l"
    "checked_coefficient_at_scale b ?t = Inr r" "from_coefficient (l + r) ?t = Inr c"
    using assms by (auto simp: notional_checked_add_def Let_def result_simps)
  then show ?thesis using from_coefficient_Inr [OF lr(3)]
    coefficient_at_scale_exact(1) [OF lr(1)] coefficient_at_scale_exact(1) [OF lr(2)]
    by (simp add: add_divide_distrib)
qed

lemma notional_checked_sub_value:
  assumes "notional_checked_sub a b = Inr c"
  shows "notional_ok c \<and> notional_value c = notional_value a - notional_value b"
proof -
  let ?t = "max (notional_scale a) (notional_scale b)"
  obtain l r where lr: "checked_coefficient_at_scale a ?t = Inr l"
    "checked_coefficient_at_scale b ?t = Inr r" "from_coefficient (l - r) ?t = Inr c"
    using assms by (auto simp: notional_checked_sub_def Let_def result_simps)
  then show ?thesis using from_coefficient_Inr [OF lr(3)]
    coefficient_at_scale_exact(1) [OF lr(1)] coefficient_at_scale_exact(1) [OF lr(2)]
    by (simp add: diff_divide_distrib)
qed

text \<open>
  C23. The notional of a valid price and size always exists and is their exact product: no
  intermediate overflow, no rounding, and the stored form is canonical.
\<close>

theorem notional_product_exact:
  assumes "decimal_ok price" and "decimal_ok quantity"
  shows "\<exists>n. checked_product price quantity = Inr n \<and> notional_ok n
    \<and> notional_value n = dec_value price * dec_value quantity"
  using checked_product_total [OF assms] checked_product_exact by blast

theorem notional_product_exact_witness:
  "\<exists>n. checked_product \<lparr>raw = i128_min, scale = 38\<rparr> \<lparr>raw = i128_max, scale = 38\<rparr> = Inr n
     \<and> notional_ok n"
proof -
  have "decimal_ok \<lparr>raw = i128_min, scale = 38\<rparr>" "decimal_ok \<lparr>raw = i128_max, scale = 38\<rparr>"
    by (simp_all add: decimal_ok_def in_i128_def i128_max_def i128_min_def MAX_DECIMAL_SCALE_def)
  from notional_product_exact [OF this] show ?thesis by blast
qed

text \<open>
  C24. Sums and differences of notionals are exact and canonical, and comparison is that of
  the values: a result of the addition or subtraction is the exact sum or difference, two
  valid notionals are equal field by field exactly when they compare equal, and the order is
  the order of the numbers.
\<close>

theorem notional_add_cmp:
  assumes "notional_ok a" and "notional_ok b"
  shows "(notional_checked_add a b = Inr c \<longrightarrow>
            notional_ok c \<and> notional_value c = notional_value a + notional_value b)
       \<and> (notional_checked_sub a b = Inr c \<longrightarrow>
            notional_ok c \<and> notional_value c = notional_value a - notional_value b)
       \<and> notional_cmp a b = cmp (notional_value a) (notional_value b)
       \<and> (a = b \<longleftrightarrow> notional_cmp a b = Equal)"
proof -
  show ?thesis
    using notional_checked_add_value notional_checked_sub_value notional_value_inject [OF assms]
    by (auto simp: notional_cmp_value)
qed

theorem notional_add_cmp_witness:
  "notional_ok \<lparr>coefficient = 25, notional_scale = 1\<rparr>
   \<and> notional_ok \<lparr>coefficient = 5, notional_scale = 1\<rparr>
   \<and> notional_checked_add \<lparr>coefficient = 25, notional_scale = 1\<rparr> \<lparr>coefficient = 5, notional_scale = 1\<rparr>
       = Inr \<lparr>coefficient = 3, notional_scale = 0\<rparr>
   \<and> notional_value \<lparr>coefficient = 3, notional_scale = 0\<rparr> =
       notional_value \<lparr>coefficient = 25, notional_scale = 1\<rparr>
       + notional_value \<lparr>coefficient = 5, notional_scale = 1\<rparr>"
proof -
  have ok: "notional_ok \<lparr>coefficient = 25, notional_scale = 1\<rparr>"
    "notional_ok \<lparr>coefficient = 5, notional_scale = 1\<rparr>"
    by (simp_all add: notional_ok_def MAX_NOTIONAL_SCALE_def MAX_NOTIONAL_COEFFICIENT_BITS_def)
  have "notional_checked_add \<lparr>coefficient = 25, notional_scale = 1\<rparr> \<lparr>coefficient = 5, notional_scale = 1\<rparr>
      = Inr \<lparr>coefficient = 3, notional_scale = 0\<rparr>"
    by (simp add: notional_checked_add_def checked_coefficient_at_scale_def from_coefficient_def
        validate_notional_scale_def validate_notional_coefficient_eq canonicalize_notional_def
        MAX_NOTIONAL_SCALE_def MAX_NOTIONAL_COEFFICIENT_BITS_def)
  with notional_add_cmp [OF ok, of "\<lparr>coefficient = 3, notional_scale = 0\<rparr>"] ok
  show ?thesis by simp
qed

text \<open>
  The wire form of a notional is canonical: the parser accepts a string exactly when it
  is what the printer writes for the valid notional it returns. So two different strings
  never stand for the same notional, and every valid notional survives the wire, within the
  limits on bytes, digits, scale and bits.
\<close>

theorem notional_wire_canonical:
  "notional_from_str s = Inr n \<longleftrightarrow> notional_ok n \<and> s = notional_display n"
  using notional_display_from_str notional_from_str_display by blast

end
