(* ===== verification/Domain_Ids.thy ===== *)
theory Domain_Ids
  imports Domain_Decimal
begin

text \<open>
  Identifiers and small shared enums of \<^verbatim>\<open>crates/domain-types/src/ids.rs\<close> and
  \<^verbatim>\<open>shared.rs\<close>. Every \<^verbatim>\<open>string_id!\<close> type is a string whose constructor rejects the empty
  string and surrounding white space; they are compared byte by byte.
\<close>

type_synonym market_id = string
type_synonym order_id = string
type_synonym client_order_id = string
type_synonym account_id = string
type_synonym source_id = string
type_synonym chain_id = string
type_synonym address = bytes
type_synonym block_height = u64

definition string_id_new :: "string \<Rightarrow> value_error + string" where
  "string_id_new value = (if value = [] \<or> \<not> is_trimmed value then Inl Invalid else Inr value)"

datatype order_side = Buy | Sell

fun as_wire_name :: "order_side \<Rightarrow> string" where
  "as_wire_name Buy = ''buy''"
| "as_wire_name Sell = ''sell''"

definition parse_wire :: "string \<Rightarrow> value_error + order_side" where
  "parse_wire value =
     (if value = ''buy'' then Inr Buy else if value = ''sell'' then Inr Sell else Inl Invalid)"

text \<open>
  The text form of an address. The hex crate is a parameter: \<open>enc\<close> writes lower-case digits
  and \<open>dec n\<close> reads a string into exactly \<open>n\<close> bytes.
\<close>

definition is_ascii_uppercase :: "char \<Rightarrow> bool" where
  "is_ascii_uppercase c \<longleftrightarrow> 65 \<le> code c \<and> code c \<le> 90"

definition parse_api :: "(nat \<Rightarrow> string \<Rightarrow> bytes option) \<Rightarrow> string \<Rightarrow> value_error + address" where
  "parse_api dec input =
     rbind (ok_or Invalid (strip_prefix ''0x'' input)) (\<lambda>hex_value.
     if length hex_value \<noteq> 40 \<or> list_ex is_ascii_uppercase hex_value then Inl Invalid
     else ok_or Invalid (dec 20 hex_value))"

definition to_api_string :: "(bytes \<Rightarrow> string) \<Rightarrow> address \<Rightarrow> string" where
  "to_api_string enc a = ''0x'' @ enc a"

text \<open>The documented behaviour of the hex crate the code relies on.\<close>

definition hex_law :: "(bytes \<Rightarrow> string) \<Rightarrow> (nat \<Rightarrow> string \<Rightarrow> bytes option) \<Rightarrow> bool" where
  "hex_law enc dec \<longleftrightarrow>
     (\<forall>b. dec (length b) (enc b) = Some b \<and> length (enc b) = 2 * length b
        \<and> \<not> list_ex is_ascii_uppercase (enc b))"

lemma parse_api_to_api_string:
  "hex_law enc dec \<Longrightarrow> length a = 20 \<Longrightarrow> parse_api dec (to_api_string enc a) = Inr a"
  by (auto simp: hex_law_def parse_api_def to_api_string_def dest!: spec [of _ a])

lemma string_id_new_Inr [result_simps]:
  "string_id_new s = Inr t \<longleftrightarrow> t = s \<and> s \<noteq> [] \<and> is_trimmed s"
  by (auto simp: string_id_new_def)

lemma parse_wire_Inr: "parse_wire s = Inr side \<longleftrightarrow> s = as_wire_name side"
  by (cases side) (auto simp: parse_wire_def)

end
