(* ===== verification/Order_Book.thy ===== *)
theory Order_Book
  imports Domain_Ids
begin

text \<open>
  The level-4 order book of \<^verbatim>\<open>crates/orderbook/src/book.rs\<close>: resting orders in two maps
  ordered by price, time and id, an index by order id, and the diffs that change them. The
  book fails closed: any inconsistency clears it and marks it red. Errors inside an
  operation leave the sequence and the lifecycle unchanged, and the only caller reacts by
  \<^verbatim>\<open>mark_red\<close>, which empties the three maps; an operation is therefore a function to an error
  or the new book.
\<close>

section \<open>State\<close>

datatype book_health = Healthy | AwaitingSnapshot string | Red string

datatype trigger_kind =
    TriggerNone
  | Untriggered bool decimal
  | Activated decimal

definition is_untriggered :: "trigger_kind \<Rightarrow> bool" where
  "is_untriggered t = (case t of Untriggered _ _ \<Rightarrow> True | _ \<Rightarrow> False)"

record resting_order =
  order_id :: order_id
  side :: order_side
  price :: decimal
  remaining :: decimal
  original :: decimal
  ord_sequence :: u64
  account_id :: "address option"
  client_order_id :: "client_order_id option"
  time_millis :: "u64 option"
  trigger :: trigger_kind

definition new_order ::
  "order_id \<Rightarrow> order_side \<Rightarrow> decimal \<Rightarrow> decimal \<Rightarrow> u64 \<Rightarrow> resting_order" where
  "new_order i s p q n =
     \<lparr>order_id = i, side = s, price = p, remaining = q, original = q, ord_sequence = n,
      account_id = None, client_order_id = None, time_millis = None, trigger = TriggerNone\<rparr>"

definition time_priority :: "resting_order \<Rightarrow> u64" where
  "time_priority r = (case time_millis r of Some t \<Rightarrow> t | None \<Rightarrow> ord_sequence r)"

definition rests_on_l2 :: "resting_order \<Rightarrow> bool" where
  "rests_on_l2 r \<longleftrightarrow> \<not> is_untriggered (trigger r)"

datatype book_diff =
    Add resting_order
  | Update order_id decimal decimal
  | Cancel order_id
  | Fill order_id decimal

record l2_level =
  l2_price :: decimal
  l2_quantity :: decimal
  order_count :: u32

datatype lifecycle_kind = Added | Updated | Filled | Cancelled

record lifecycle_event =
  ev_order_id :: order_id
  kind :: lifecycle_kind
  ev_sequence :: u64

record order_index =
  ix_side :: order_side
  ix_price :: decimal
  ix_time_priority :: u64

type_synonym order_key = "decimal \<times> u64 \<times> order_id"

record order_book =
  market_id :: market_id
  sequence :: u64
  as_of_block :: block_height
  health :: book_health
  max_orders :: nat
  bids :: "(order_key, resting_order) btree"
  asks :: "(order_key, resting_order) btree"
  by_id :: "(order_id, order_index) btree"
  lifecycle :: "lifecycle_event list"

text \<open>
  The two maps differ in the direction of the price: the key of a bid wraps its price in
  \<^verbatim>\<open>Reverse\<close>.
\<close>

definition ask_lt :: "order_key \<Rightarrow> order_key \<Rightarrow> bool" where
  "ask_lt = lex_lt decimal_lt (lex_lt (<) (<))"

definition bid_lt :: "order_key \<Rightarrow> order_key \<Rightarrow> bool" where
  "bid_lt = lex_lt (reverse_lt decimal_lt) (lex_lt (<) (<))"

definition key_of :: "resting_order \<Rightarrow> order_key" where
  "key_of r = (price r, time_priority r, order_id r)"

definition index_of :: "resting_order \<Rightarrow> order_index" where
  "index_of r = \<lparr>ix_side = side r, ix_price = price r, ix_time_priority = time_priority r\<rparr>"

definition DEFAULT_MAX_ORDERS :: nat where
  "DEFAULT_MAX_ORDERS = 1048576"

definition awaiting_snapshot_bounded :: "market_id \<Rightarrow> block_height \<Rightarrow> nat \<Rightarrow> order_book" where
  "awaiting_snapshot_bounded m h n =
     \<lparr>market_id = m, sequence = 0, as_of_block = h,
      health = AwaitingSnapshot ''empty book requires a verified snapshot'',
      max_orders = n, bids = [], asks = [], by_id = [], lifecycle = []\<rparr>"

definition awaiting_snapshot :: "market_id \<Rightarrow> block_height \<Rightarrow> order_book" where
  "awaiting_snapshot m h = awaiting_snapshot_bounded m h DEFAULT_MAX_ORDERS"

section \<open>Reading\<close>

definition active_orders :: "order_book \<Rightarrow> resting_order list" where
  "active_orders b = bt_values (bids b) @ bt_values (asks b)"

definition best_bid :: "order_book \<Rightarrow> resting_order option" where
  "best_bid b = find rests_on_l2 (bt_values (bids b))"

definition best_ask :: "order_book \<Rightarrow> resting_order option" where
  "best_ask b = find rests_on_l2 (bt_values (asks b))"

text \<open>Aggregation into price levels; the first order at a price opens the level at zero.\<close>

definition aggregate_order ::
  "resting_order \<Rightarrow> (decimal, decimal \<times> u32) btree \<Rightarrow> string + (decimal, decimal \<times> u32) btree" where
  "aggregate_order r levels =
     (if \<not> rests_on_l2 r then Inr levels
      else
        rbind (if bt_get decimal_lt (price r) levels = None
               then rbind (map_err (\<lambda>_. ''invalid quantity scale'') (from_raw 0 (scale (remaining r))))
                      (\<lambda>zero. Inr (bt_insert decimal_lt (price r) (zero, 0) levels))
               else Inr levels) (\<lambda>levels.
        rbind (ok_or ''l2 level index is inconsistent'' (bt_get decimal_lt (price r) levels))
          (\<lambda>(q, n).
        rbind (map_err (\<lambda>_. ''l2 aggregation overflow'') (checked_add q (remaining r))) (\<lambda>q'.
        rbind (ok_or ''l2 order count overflow'' (checked_succ n)) (\<lambda>n'.
        Inr (bt_insert decimal_lt (price r) (q', n') levels))))))"

definition aggregate_l2 :: "resting_order list \<Rightarrow> bool \<Rightarrow> string + l2_level list" where
  "aggregate_l2 orders is_bids =
     rbind (rfold aggregate_order orders []) (\<lambda>levels.
     let out = map (\<lambda>(p, q, n). \<lparr>l2_price = p, l2_quantity = q, order_count = n\<rparr>) levels in
     Inr (if is_bids then rev out else out))"

definition l2_bids :: "order_book \<Rightarrow> l2_level list" where
  "l2_bids b = (case aggregate_l2 (bt_values (bids b)) True of Inr ls \<Rightarrow> ls | Inl _ \<Rightarrow> [])"

definition l2_asks :: "order_book \<Rightarrow> l2_level list" where
  "l2_asks b = (case aggregate_l2 (bt_values (asks b)) False of Inr ls \<Rightarrow> ls | Inl _ \<Rightarrow> [])"

definition price_ge :: "decimal \<Rightarrow> decimal \<Rightarrow> bool" where
  "price_ge p q \<longleftrightarrow> numeric_cmp p q \<noteq> Less"

definition assert_invariants :: "order_book \<Rightarrow> string + unit" where
  "assert_invariants b =
     (if length (by_id b) \<noteq> length (bids b) + length (asks b)
      then Inl ''active index is inconsistent''
      else if (case (best_bid b, best_ask b) of
                 (Some bid, Some ask) \<Rightarrow> price_ge (price bid) (price ask)
               | _ \<Rightarrow> False)
      then Inl ''crossed or locked book''
      else
        rbind (aggregate_l2 (bt_values (bids b)) True) (\<lambda>_.
        rbind (aggregate_l2 (bt_values (asks b)) False) (\<lambda>_. Inr ())))"

section \<open>Changing\<close>

definition mark_red :: "string \<Rightarrow> order_book \<Rightarrow> order_book" where
  "mark_red reason b = b\<lparr>bids := [], asks := [], by_id := [], health := Red reason\<rparr>"

text \<open>The \<^verbatim>\<open>match order.side\<close> that stores an order under its key.\<close>

definition place_order :: "resting_order \<Rightarrow> order_book \<Rightarrow> order_book" where
  "place_order r b =
     (case side r of
        Buy \<Rightarrow> b\<lparr>bids := bt_insert bid_lt (key_of r) r (bids b)\<rparr>
      | Sell \<Rightarrow> b\<lparr>asks := bt_insert ask_lt (key_of r) r (asks b)\<rparr>)"

definition push_lifecycle :: "order_id \<Rightarrow> lifecycle_kind \<Rightarrow> order_book \<Rightarrow> order_book" where
  "push_lifecycle i k b =
     b\<lparr>lifecycle := lifecycle b @ [\<lparr>ev_order_id = i, kind = k, ev_sequence = sequence b\<rparr>]\<rparr>"

definition insert_active :: "resting_order \<Rightarrow> bool \<Rightarrow> order_book \<Rightarrow> string + order_book" where
  "insert_active r from_snapshot b =
     (if raw (remaining r) \<le> 0 \<or> raw (price r) \<le> 0 \<or> raw (original r) \<le> 0
      then Inl ''negative or non-positive order quantity or price''
      else if bt_get (<) (order_id r) (by_id b) \<noteq> None then Inl ''duplicate order id''
      else if length (by_id b) \<ge> max_orders b then Inl ''order count bound''
      else
        let index = index_of r;
            b1 = place_order r b;
            b2 = b1\<lparr>by_id := bt_insert (<) (order_id r) index (by_id b1)\<rparr>
        in Inr (if from_snapshot then b2 else push_lifecycle (order_id r) Added b2))"

definition side_get :: "order_side \<Rightarrow> order_key \<Rightarrow> order_book \<Rightarrow> resting_order option" where
  "side_get s k b =
     (case s of Buy \<Rightarrow> bt_get bid_lt k (bids b) | Sell \<Rightarrow> bt_get ask_lt k (asks b))"

definition take_active ::
  "order_id \<Rightarrow> order_index \<Rightarrow> order_book \<Rightarrow> (resting_order \<times> order_book) option" where
  "take_active i ix b =
     (if bt_get (<) i (by_id b) = None then None
      else
        let b1 = b\<lparr>by_id := bt_remove (<) i (by_id b)\<rparr>; k = (ix_price ix, ix_time_priority ix, i) in
        case side_get (ix_side ix) k b1 of
          None \<Rightarrow> None
        | Some r \<Rightarrow>
            Some (r, case ix_side ix of
                       Buy \<Rightarrow> b1\<lparr>bids := bt_remove bid_lt k (bids b1)\<rparr>
                     | Sell \<Rightarrow> b1\<lparr>asks := bt_remove ask_lt k (asks b1)\<rparr>))"

definition update_active :: "order_id \<Rightarrow> decimal \<Rightarrow> decimal \<Rightarrow> order_book \<Rightarrow> string + order_book" where
  "update_active i q p b =
     (if raw q < 0 \<or> raw p \<le> 0 then Inl ''negative or non-positive order quantity or price''
      else case bt_get (<) i (by_id b) of
        None \<Rightarrow> Inl ''order id is not active''
      | Some index \<Rightarrow>
          rbind (ok_or ''order index is inconsistent'' (take_active i index b)) (\<lambda>(r, b1).
          let r = r\<lparr>remaining := q, price := p\<rparr> in
          if raw q = 0 then Inr (push_lifecycle i Filled b1)
          else
            let b2 = place_order r b1;
                b3 = b2\<lparr>by_id := bt_insert (<) i (index_of r) (by_id b2)\<rparr>
            in Inr (push_lifecycle i Updated b3)))"

definition remove_active :: "order_id \<Rightarrow> lifecycle_kind \<Rightarrow> order_book \<Rightarrow> string + order_book" where
  "remove_active i k b =
     (case bt_get (<) i (by_id b) of
        None \<Rightarrow> Inl ''order id is not active''
      | Some index \<Rightarrow>
          rbind (ok_or ''order index is inconsistent'' (take_active i index b)) (\<lambda>(r, b1).
          Inr (push_lifecycle i k b1)))"

definition apply_fill_qty :: "resting_order \<Rightarrow> decimal \<Rightarrow> string + resting_order" where
  "apply_fill_qty r fill =
     rbind (map_err (\<lambda>_. ''fill exceeds remaining quantity'') (checked_sub (remaining r) fill))
       (\<lambda>q.
     if raw q < 0 then Inl ''negative remaining quantity'' else Inr (r\<lparr>remaining := q\<rparr>))"

text \<open>\<^verbatim>\<open>get_mut\<close> changes the stored value and keeps the stored key.\<close>

definition fill_active :: "order_id \<Rightarrow> decimal \<Rightarrow> order_book \<Rightarrow> string + order_book" where
  "fill_active i fill b =
     (if raw fill \<le> 0 then Inl ''fill quantity must be positive''
      else case bt_get (<) i (by_id b) of
        None \<Rightarrow> Inl ''order id is not active''
      | Some index \<Rightarrow>
          let k = (ix_price index, ix_time_priority index, i) in
          rbind (case ix_side index of
                   Buy \<Rightarrow>
                     rbind (ok_or ''bid index is inconsistent'' (bt_get bid_lt k (bids b))) (\<lambda>r.
                     rbind (apply_fill_qty r fill) (\<lambda>r'.
                     Inr (r', b\<lparr>bids := bt_insert bid_lt k r' (bids b)\<rparr>)))
                 | Sell \<Rightarrow>
                     rbind (ok_or ''ask index is inconsistent'' (bt_get ask_lt k (asks b))) (\<lambda>r.
                     rbind (apply_fill_qty r fill) (\<lambda>r'.
                     Inr (r', b\<lparr>asks := bt_insert ask_lt k r' (asks b)\<rparr>)))) (\<lambda>(r', b1).
          if raw (remaining r') = 0 then remove_active i Filled b1
          else Inr (push_lifecycle i Filled b1)))"

fun apply_healthy_diff :: "book_diff \<Rightarrow> order_book \<Rightarrow> string + order_book" where
  "apply_healthy_diff (Add r) b = insert_active r False b"
| "apply_healthy_diff (Update i q p) b = update_active i q p b"
| "apply_healthy_diff (Cancel i) b = remove_active i Cancelled b"
| "apply_healthy_diff (Fill i q) b = fill_active i q b"

definition apply_snapshot ::
  "u64 \<Rightarrow> block_height \<Rightarrow> resting_order list \<Rightarrow> order_book \<Rightarrow> order_book" where
  "apply_snapshot seq h orders b =
     (let b0 = b\<lparr>bids := [], asks := [], by_id := [], lifecycle := [], sequence := seq,
                as_of_block := h, health := Healthy\<rparr> in
      if length orders > max_orders b0 then mark_red ''order count bound'' b0
      else case rfold (\<lambda>r. insert_active r True) orders b0 of
        Inl reason \<Rightarrow> mark_red reason b0
      | Inr b1 \<Rightarrow> (case assert_invariants b1 of Inl reason \<Rightarrow> mark_red reason b1 | Inr _ \<Rightarrow> b1))"

definition apply_diff :: "u64 \<Rightarrow> block_height \<Rightarrow> book_diff \<Rightarrow> order_book \<Rightarrow> order_book" where
  "apply_diff seq h d b =
     (if health b \<noteq> Healthy then mark_red ''diff applied while book is not healthy'' b
      else if seq \<noteq> saturating_succ (sequence b) then mark_red ''sequence gap'' b
      else
        let b0 = b\<lparr>sequence := seq, as_of_block := h\<rparr> in
        case apply_healthy_diff d b0 of
          Inl reason \<Rightarrow> mark_red reason b0
        | Inr b1 \<Rightarrow> (case assert_invariants b1 of Inl reason \<Rightarrow> mark_red reason b1 | Inr _ \<Rightarrow> b1))"

section \<open>One side of the book\<close>

interpretation key_tail: key_order_pair "(<) :: u64 \<Rightarrow> u64 \<Rightarrow> bool" "(<) :: string \<Rightarrow> string \<Rightarrow> bool"
  by unfold_locales

interpretation ask_keys: key_order_pair decimal_lt
  "lex_lt ((<) :: u64 \<Rightarrow> u64 \<Rightarrow> bool) ((<) :: string \<Rightarrow> string \<Rightarrow> bool)"
  by unfold_locales

interpretation price_rev: key_order_rev decimal_lt
  by unfold_locales

interpretation bid_keys: key_order_pair "reverse_lt decimal_lt"
  "lex_lt ((<) :: u64 \<Rightarrow> u64 \<Rightarrow> bool) ((<) :: string \<Rightarrow> string \<Rightarrow> bool)"
  by unfold_locales

text \<open>One side of the book: a map whose keys are those of its orders.\<close>

definition side_ok :: "(order_key \<Rightarrow> order_key \<Rightarrow> bool) \<Rightarrow> order_side \<Rightarrow> (order_key, resting_order) btree \<Rightarrow> bool" where
  "side_ok lt s m \<longleftrightarrow> bt_sorted lt m \<and> (\<forall>x \<in> set m. fst x = key_of (snd x) \<and> side (snd x) = s)"

locale book_side = key_order lt for lt :: "order_key \<Rightarrow> order_key \<Rightarrow> bool" +
  fixes s :: order_side
  assumes same_id: "same_key lt (p, t, i) (p', t', i') \<Longrightarrow> i = i'"
begin

lemma side_ok_sorted: "side_ok lt s m \<Longrightarrow> bt_sorted lt m"
  by (simp add: side_ok_def)

lemma side_member: "side_ok lt s m \<Longrightarrow> r \<in> set (bt_values m) \<longleftrightarrow> (key_of r, r) \<in> set m"
  by (force simp: side_ok_def bt_values_def)

lemma side_get_member:
  "side_ok lt s m \<Longrightarrow> r \<in> set (bt_values m) \<Longrightarrow> bt_get lt (key_of r) m = Some r"
  by (meson bt_get_in side_member side_ok_sorted)

lemma side_get_Some:
  assumes "side_ok lt s m" and "bt_get lt (p, t, i) m = Some r"
  shows "r \<in> set (bt_values m) \<and> order_id r = i"
proof -
  obtain a where a: "(a, r) \<in> set m" "same_key lt a (p, t, i)"
    using assms(2) bt_get_Some_iff [OF side_ok_sorted [OF assms(1)]] by auto
  have "a = (price r, time_priority r, order_id r)"
    using assms(1) a(1) by (auto simp: side_ok_def key_of_def)
  then have "order_id r = i" using a(2) same_id by blast
  then show ?thesis using a(1) by (auto simp: bt_values_def image_iff intro: bexI [rotated])
qed

lemma side_fresh:
  assumes "side_ok lt s m" and "order_id r \<notin> order_id ` set (bt_values m)"
  shows "bt_get lt (key_of r) m = None"
proof (cases "bt_get lt (key_of r) m")
  case (Some x)
  then have "order_id r \<in> order_id ` set (bt_values m)"
    using side_get_Some [OF assms(1)] by (metis imageI key_of_def)
  with assms(2) show ?thesis by simp
qed simp

lemma side_diff:
  assumes "side_ok lt s m" and "(key_of r, r) \<in> set m"
  shows "snd ` (set m - {(key_of r, r)}) = snd ` set m - {r}"
proof -
  have "inj_on snd (set m)" using assms(1) by (simp add: side_ok_def inj_on_def prod_eq_iff)
  then show ?thesis using inj_on_image_set_diff [of snd "set m" "set m" "{(key_of r, r)}"] assms(2)
    by simp
qed

lemma side_put:
  assumes "side_ok lt s m" and "side r = s" and "order_id r \<notin> order_id ` set (bt_values m)"
  shows "side_ok lt s (bt_insert lt (key_of r) r m)"
    and "set (bt_values (bt_insert lt (key_of r) r m)) = insert r (set (bt_values m))"
    and "length (bt_insert lt (key_of r) r m) = Suc (length m)"
proof -
  note fresh = side_fresh [OF assms(1,3)] and sorted = side_ok_sorted [OF assms(1)]
  note set = set_bt_insert_fresh [OF fresh sorted, of r]
  show "side_ok lt s (bt_insert lt (key_of r) r m)"
    using assms sorted by (auto simp: side_ok_def set bt_sorted_insert)
  show "set (bt_values (bt_insert lt (key_of r) r m)) = insert r (set (bt_values m))"
    by (simp add: bt_values_def set)
  show "length (bt_insert lt (key_of r) r m) = Suc (length m)"
    using length_bt_insert [OF sorted, of "key_of r" r] fresh by simp
qed

lemma side_take:
  assumes "side_ok lt s m" and "r \<in> set (bt_values m)"
  shows "side_ok lt s (bt_remove lt (key_of r) m)"
    and "set (bt_values (bt_remove lt (key_of r) m)) = set (bt_values m) - {r}"
    and "length m = Suc (length (bt_remove lt (key_of r) m))"
proof -
  note sorted = side_ok_sorted [OF assms(1)]
  have r: "(key_of r, r) \<in> set m" using side_member [OF assms(1)] assms(2) by simp
  have set: "set (bt_remove lt (key_of r) m) = set m - {(key_of r, r)}"
    using set_bt_remove [OF sorted, of "key_of r"] same_key_unique [OF sorted _ r] by auto
  show "side_ok lt s (bt_remove lt (key_of r) m)"
    using assms(1) by (auto simp: side_ok_def set bt_sorted_remove)
  show "set (bt_values (bt_remove lt (key_of r) m)) = set (bt_values m) - {r}"
    by (simp add: bt_values_def set side_diff [OF assms(1) r])
  have "0 < length m" using r by (cases m) auto
  then show "length m = Suc (length (bt_remove lt (key_of r) m))"
    using length_bt_remove [OF sorted, of "key_of r"] side_get_member [OF assms] by simp
qed

lemma side_replace:
  assumes "side_ok lt s m" and "r \<in> set (bt_values m)" and "key_of r' = key_of r" and "side r' = s"
  shows "side_ok lt s (bt_insert lt (key_of r) r' m)"
    and "set (bt_values (bt_insert lt (key_of r) r' m)) = insert r' (set (bt_values m) - {r})"
    and "length (bt_insert lt (key_of r) r' m) = length m"
proof -
  note sorted = side_ok_sorted [OF assms(1)]
  have r: "(key_of r, r) \<in> set m" using side_member [OF assms(1)] assms(2) by simp
  note set = set_bt_insert_present [OF sorted r, of r']
  show "side_ok lt s (bt_insert lt (key_of r) r' m)"
    using assms by (auto simp: side_ok_def set bt_sorted_insert)
  show "set (bt_values (bt_insert lt (key_of r) r' m)) = insert r' (set (bt_values m) - {r})"
    by (simp add: bt_values_def set side_diff [OF assms(1) r])
  show "length (bt_insert lt (key_of r) r' m) = length m"
    using length_bt_insert [OF sorted, of "key_of r" r'] side_get_member [OF assms(1,2)] by simp
qed

end

interpretation ask: book_side ask_lt Sell
  unfolding ask_lt_def by unfold_locales (auto simp: same_key_lex)

interpretation bid: book_side bid_lt Buy
  unfolding bid_lt_def by unfold_locales (auto simp: same_key_lex)

section \<open>The index invariant\<close>

text \<open>
  The index invariant: both sides are keyed by their orders, no id occurs twice, and the
  index lists exactly the resting orders with their positions.
\<close>

definition index_inv :: "order_book \<Rightarrow> bool" where
  "index_inv b \<longleftrightarrow>
     side_ok bid_lt Buy (bids b) \<and> side_ok ask_lt Sell (asks b) \<and> bt_sorted (<) (by_id b)
     \<and> inj_on order_id (set (active_orders b))
     \<and> set (by_id b) = (\<lambda>r. (order_id r, index_of r)) ` set (active_orders b)
     \<and> length (by_id b) = length (bids b) + length (asks b)"

text \<open>The book as a finite map from order ids to resting orders.\<close>

definition order_map :: "order_book \<Rightarrow> order_id \<Rightarrow> resting_order option" where
  "order_map b i =
     (case bt_get (<) i (by_id b) of
        None \<Rightarrow> None
      | Some ix \<Rightarrow> side_get (ix_side ix) (ix_price ix, ix_time_priority ix, i) b)"

lemma active_orders_set: "set (active_orders b) = set (bt_values (bids b)) \<union> set (bt_values (asks b))"
  by (simp add: active_orders_def)

lemma bt_values_side: "side_ok lt s m \<Longrightarrow> r \<in> set (bt_values m) \<Longrightarrow> side r = s"
  by (auto simp: side_ok_def bt_values_def)

lemma index_get_Some:
  assumes "index_inv b"
  shows "bt_get (<) i (by_id b) = Some ix \<longleftrightarrow>
    (\<exists>r \<in> set (active_orders b). order_id r = i \<and> ix = index_of r)"
  using assms bt_get_lin_Some_iff [of "by_id b" i ix] by (auto simp: index_inv_def)

lemma index_get_None:
  assumes "index_inv b"
  shows "bt_get (<) i (by_id b) = None \<longleftrightarrow> i \<notin> order_id ` set (active_orders b)"
  using assms bt_get_lin_None_iff [of "by_id b" i] by (auto simp: index_inv_def image_image)

lemma active_position:
  assumes "index_inv b" and "r \<in> set (active_orders b)"
  shows "bt_get (<) (order_id r) (by_id b) = Some (index_of r)"
    and "side_get (side r) (key_of r) b = Some r"
proof -
  show "bt_get (<) (order_id r) (by_id b) = Some (index_of r)"
    using assms index_get_Some by blast
  have ok: "side_ok bid_lt Buy (bids b)" "side_ok ask_lt Sell (asks b)"
    using assms(1) by (simp_all add: index_inv_def)
  consider "r \<in> set (bt_values (bids b))" | "r \<in> set (bt_values (asks b))"
    using assms(2) by (auto simp: active_orders_set)
  then show "side_get (side r) (key_of r) b = Some r"
  proof cases
    case 1
    then show ?thesis using bid.side_get_member [OF ok(1)] bt_values_side [OF ok(1)]
      by (simp add: side_get_def)
  next
    case 2
    then show ?thesis using ask.side_get_member [OF ok(2)] bt_values_side [OF ok(2)]
      by (simp add: side_get_def)
  qed
qed

lemma order_map_Some:
  assumes "index_inv b"
  shows "order_map b i = Some r \<longleftrightarrow> r \<in> set (active_orders b) \<and> order_id r = i"
proof
  assume "order_map b i = Some r"
  then obtain ix where ix: "bt_get (<) i (by_id b) = Some ix"
    "side_get (ix_side ix) (ix_price ix, ix_time_priority ix, i) b = Some r"
    by (auto simp: order_map_def split: option.splits)
  then obtain x where x: "x \<in> set (active_orders b)" "order_id x = i" "ix = index_of x"
    using index_get_Some [OF assms] by blast
  then have "r = x"
    using active_position(2) [OF assms x(1)] ix(2) by (simp add: index_of_def key_of_def)
  with x show "r \<in> set (active_orders b) \<and> order_id r = i" by simp
next
  assume r: "r \<in> set (active_orders b) \<and> order_id r = i"
  then show "order_map b i = Some r"
    using active_position [OF assms, of r] by (auto simp: order_map_def index_of_def key_of_def)
qed

lemma order_map_None:
  assumes "index_inv b"
  shows "order_map b i = None \<longleftrightarrow> bt_get (<) i (by_id b) = None"
proof -
  have "order_map b i = None \<longleftrightarrow> (\<forall>r. order_map b i \<noteq> Some r)" by (cases "order_map b i") auto
  then show ?thesis using order_map_Some [OF assms] index_get_None [OF assms] by auto
qed

lemma order_map_dom: "index_inv b \<Longrightarrow> dom (order_map b) = order_id ` set (active_orders b)"
  by (auto simp: dom_def order_map_Some)

lemma order_map_eqI:
  assumes "index_inv b" and "\<And>i r. m i = Some r \<longleftrightarrow> r \<in> set (active_orders b) \<and> order_id r = i"
  shows "order_map b = m"
proof
  fix i
  show "order_map b i = m i"
    using order_map_Some [OF assms(1), of i] assms(2) [of i]
    by (cases "order_map b i"; cases "m i") auto
qed

lemma order_map_card: "index_inv b \<Longrightarrow> card (dom (order_map b)) = length (by_id b)"
proof -
  assume inv: "index_inv b"
  then have "dom (order_map b) = fst ` set (by_id b)"
    by (auto simp: order_map_dom index_inv_def image_image)
  moreover have "distinct (map fst (by_id b))"
    using inv lin.distinct_bt by (auto simp: index_inv_def)
  ultimately show ?thesis by (metis distinct_card length_map list.set_map)
qed

lemma place_order_frame [simp]:
  "by_id (place_order r b) = by_id b" "market_id (place_order r b) = market_id b"
  "sequence (place_order r b) = sequence b" "as_of_block (place_order r b) = as_of_block b"
  "health (place_order r b) = health b" "max_orders (place_order r b) = max_orders b"
  "lifecycle (place_order r b) = lifecycle b"
  by (simp_all add: place_order_def split: order_side.splits)

lemma index_inv_frame [simp]:
  "index_inv (b\<lparr>lifecycle := l\<rparr>) = index_inv b" "index_inv (b\<lparr>sequence := q\<rparr>) = index_inv b"
  "index_inv (b\<lparr>as_of_block := h\<rparr>) = index_inv b" "index_inv (push_lifecycle i k b) = index_inv b"
  "index_inv (b\<lparr>health := x\<rparr>) = index_inv b"
  by (simp_all add: index_inv_def active_orders_def push_lifecycle_def)

lemma active_orders_frame [simp]:
  "active_orders (b\<lparr>lifecycle := l\<rparr>) = active_orders b" "active_orders (b\<lparr>sequence := q\<rparr>) = active_orders b"
  "active_orders (b\<lparr>as_of_block := h\<rparr>) = active_orders b"
  "active_orders (push_lifecycle i k b) = active_orders b"
  "active_orders (b\<lparr>by_id := m\<rparr>) = active_orders b"
  by (simp_all add: active_orders_def push_lifecycle_def)

lemma push_lifecycle_frame [simp]:
  "by_id (push_lifecycle i k b) = by_id b" "bids (push_lifecycle i k b) = bids b"
  "asks (push_lifecycle i k b) = asks b" "sequence (push_lifecycle i k b) = sequence b"
  "market_id (push_lifecycle i k b) = market_id b" "as_of_block (push_lifecycle i k b) = as_of_block b"
  "health (push_lifecycle i k b) = health b" "max_orders (push_lifecycle i k b) = max_orders b"
  by (simp_all add: push_lifecycle_def)

lemma place_order_inv:
  assumes inv: "index_inv b" and fresh: "bt_get (<) (order_id r) (by_id b) = None"
  defines "b' \<equiv> (place_order r b)\<lparr>by_id := bt_insert (<) (order_id r) (index_of r) (by_id b)\<rparr>"
  shows "index_inv b'" and "set (active_orders b') = insert r (set (active_orders b))"
    and "length (by_id b') = Suc (length (by_id b))"
proof -
  have ok: "side_ok bid_lt Buy (bids b)" "side_ok ask_lt Sell (asks b)" "bt_sorted (<) (by_id b)"
    using inv by (simp_all add: index_inv_def)
  have new: "order_id r \<notin> order_id ` set (active_orders b)"
    using index_get_None [OF inv] fresh by simp
  have new2: "order_id r \<notin> order_id ` set (bt_values (bids b))"
    "order_id r \<notin> order_id ` set (bt_values (asks b))"
    using new by (auto simp: active_orders_set)
  have sides: "side_ok bid_lt Buy (bids b') \<and> side_ok ask_lt Sell (asks b')
      \<and> set (active_orders b') = insert r (set (active_orders b))
      \<and> length (bids b') + length (asks b') = Suc (length (bids b) + length (asks b))"
  proof (cases "side r")
    case Buy
    then show ?thesis using bid.side_put [OF ok(1) Buy new2(1)] ok(2)
      by (simp add: b'_def place_order_def active_orders_set)
  next
    case Sell
    then show ?thesis using ask.side_put [OF ok(2) Sell new2(2)] ok(1)
      by (simp add: b'_def place_order_def active_orders_set)
  qed
  then show set: "set (active_orders b') = insert r (set (active_orders b))" by simp
  have len: "length (by_id b') = Suc (length (by_id b))"
    using lin.length_bt_insert [OF ok(3), of "order_id r" "index_of r"] fresh by (simp add: b'_def)
  then show "length (by_id b') = Suc (length (by_id b))" .
  have "set (by_id b') = insert (order_id r, index_of r) (set (by_id b))"
    using lin.set_bt_insert_fresh [OF fresh ok(3)] by (simp add: b'_def)
  moreover have "bt_sorted (<) (by_id b')"
    using lin.bt_sorted_insert [OF ok(3)] by (simp add: b'_def)
  moreover have "inj_on order_id (set (active_orders b'))"
    using inv new by (auto simp: set index_inv_def)
  ultimately show "index_inv b'"
    using sides len inv by (simp add: index_inv_def set)
qed

lemma take_active_inv:
  assumes inv: "index_inv b" and r: "r \<in> set (active_orders b)"
  shows "\<exists>b'. take_active (order_id r) (index_of r) b = Some (r, b') \<and> index_inv b'
    \<and> set (active_orders b') = set (active_orders b) - {r}
    \<and> bt_get (<) (order_id r) (by_id b') = None
    \<and> length (by_id b) = Suc (length (by_id b'))
    \<and> market_id b' = market_id b \<and> sequence b' = sequence b \<and> as_of_block b' = as_of_block b
    \<and> health b' = health b \<and> max_orders b' = max_orders b \<and> lifecycle b' = lifecycle b"
proof -
  let ?ids = "bt_remove (<) (order_id r) (by_id b)"
  let ?b = "case side r of
      Buy \<Rightarrow> b\<lparr>by_id := ?ids, bids := bt_remove bid_lt (key_of r) (bids b)\<rparr>
    | Sell \<Rightarrow> b\<lparr>by_id := ?ids, asks := bt_remove ask_lt (key_of r) (asks b)\<rparr>"
  have ok: "side_ok bid_lt Buy (bids b)" "side_ok ask_lt Sell (asks b)" "bt_sorted (<) (by_id b)"
    using inv by (simp_all add: index_inv_def)
  note pos = active_position [OF inv r]
  have take: "take_active (order_id r) (index_of r) b = Some (r, ?b)"
    using pos by (cases "side r")
      (simp_all add: take_active_def Let_def side_get_def index_of_def key_of_def)
  have one: "side r = Buy \<and> r \<in> set (bt_values (bids b)) \<and> r \<notin> set (bt_values (asks b))
      \<or> side r = Sell \<and> r \<in> set (bt_values (asks b)) \<and> r \<notin> set (bt_values (bids b))"
    using r bt_values_side [OF ok(1), of r] bt_values_side [OF ok(2), of r]
    by (auto simp: active_orders_set)
  have sides: "side_ok bid_lt Buy (bids ?b) \<and> side_ok ask_lt Sell (asks ?b)
      \<and> set (active_orders ?b) = set (active_orders b) - {r}
      \<and> length (bids b) + length (asks b) = Suc (length (bids ?b) + length (asks ?b))"
  proof (cases "side r")
    case Buy
    then have m: "r \<in> set (bt_values (bids b))" "r \<notin> set (bt_values (asks b))" using one by auto
    show ?thesis using Buy bid.side_take [OF ok(1) m(1)] m(2) ok(2)
      by (simp add: active_orders_set Un_Diff)
  next
    case Sell
    then have m: "r \<in> set (bt_values (asks b))" "r \<notin> set (bt_values (bids b))" using one by auto
    show ?thesis using Sell ask.side_take [OF ok(2) m(1)] m(2) ok(1)
      by (simp add: active_orders_set Un_Diff)
  qed
  have ids: "by_id ?b = ?ids" by (simp split: order_side.splits)
  have len: "length (by_id b) = Suc (length ?ids)"
  proof -
    have "by_id b \<noteq> []" using pos(1) by auto
    then show ?thesis using lin.length_bt_remove [OF ok(3), of "order_id r"] pos(1) by simp
  qed
  have "set ?ids = (\<lambda>x. (order_id x, index_of x)) ` (set (active_orders b) - {r})"
  proof -
    have "set ?ids = {p \<in> set (by_id b). fst p \<noteq> order_id r}"
      using lin.set_bt_remove [OF ok(3), of "order_id r"] by auto
    also have "\<dots> = (\<lambda>x. (order_id x, index_of x)) ` (set (active_orders b) - {r})"
      using inv r by (auto simp: index_inv_def inj_on_def)
    finally show ?thesis .
  qed
  moreover have "inj_on order_id (set (active_orders ?b))"
    using inv sides by (auto simp: index_inv_def intro: inj_on_subset)
  ultimately have "index_inv ?b"
    using sides len inv lin.bt_sorted_remove [OF ok(3), of "order_id r"]
    unfolding index_inv_def ids by simp
  moreover have "bt_get (<) (order_id r) (by_id ?b) = None"
    unfolding ids using lin.bt_get_remove [OF ok(3)] by simp
  ultimately show ?thesis
    using take sides len by (intro exI [of _ ?b]) (simp split: order_side.splits)
qed

section \<open>Refinement to a map of orders\<close>

lemma refill_keys [simp]:
  "key_of (r\<lparr>remaining := q\<rparr>) = key_of r" "index_of (r\<lparr>remaining := q\<rparr>) = index_of r"
  by (simp_all add: key_of_def index_of_def time_priority_def split: option.splits)

lemma replace_order_inv:
  fixes q :: decimal
  assumes inv: "index_inv b" and r: "r \<in> set (active_orders b)"
  defines "b' \<equiv> case side r of
      Buy \<Rightarrow> b\<lparr>bids := bt_insert bid_lt (key_of r) (r\<lparr>remaining := q\<rparr>) (bids b)\<rparr>
    | Sell \<Rightarrow> b\<lparr>asks := bt_insert ask_lt (key_of r) (r\<lparr>remaining := q\<rparr>) (asks b)\<rparr>"
  shows "index_inv b'" and "set (active_orders b') = insert (r\<lparr>remaining := q\<rparr>) (set (active_orders b) - {r})"
proof -
  let ?r = "r\<lparr>remaining := q\<rparr>"
  have ok: "side_ok bid_lt Buy (bids b)" "side_ok ask_lt Sell (asks b)"
    using inv by (simp_all add: index_inv_def)
  have one: "side r = Buy \<and> r \<in> set (bt_values (bids b)) \<and> r \<notin> set (bt_values (asks b))
      \<or> side r = Sell \<and> r \<in> set (bt_values (asks b)) \<and> r \<notin> set (bt_values (bids b))"
    using r bt_values_side [OF ok(1), of r] bt_values_side [OF ok(2), of r]
    by (auto simp: active_orders_set)
  have sides: "side_ok bid_lt Buy (bids b') \<and> side_ok ask_lt Sell (asks b')
      \<and> set (active_orders b') = insert ?r (set (active_orders b) - {r})
      \<and> length (bids b') = length (bids b) \<and> length (asks b') = length (asks b)"
  proof (cases "side r")
    case Buy
    then have m: "r \<in> set (bt_values (bids b))" "r \<notin> set (bt_values (asks b))" using one by auto
    show ?thesis using Buy bid.side_replace [OF ok(1) m(1), of ?r] m(2) ok(2)
      by (simp add: active_orders_set Un_Diff b'_def)
  next
    case Sell
    then have m: "r \<in> set (bt_values (asks b))" "r \<notin> set (bt_values (bids b))" using one by auto
    show ?thesis using Sell ask.side_replace [OF ok(2) m(1), of ?r] m(2) ok(1)
      by (simp add: active_orders_set Un_Diff b'_def)
  qed
  then show set: "set (active_orders b') = insert ?r (set (active_orders b) - {r})" by simp
  have ids: "by_id b' = by_id b" by (simp add: b'_def split: order_side.splits)
  have "inj_on order_id (set (active_orders b'))"
    using inv r unfolding set index_inv_def inj_on_def by auto
  moreover have "set (by_id b) = (\<lambda>r. (order_id r, index_of r)) ` set (active_orders b')"
    using inv r unfolding set index_inv_def by (auto simp: image_iff)
  ultimately show "index_inv b'" using sides inv by (simp add: index_inv_def ids)
qed

text \<open>The specification of a diff on the map of orders, errors included.\<close>

fun spec_diff ::
  "nat \<Rightarrow> book_diff \<Rightarrow> (order_id \<rightharpoonup> resting_order) \<Rightarrow> string + (order_id \<rightharpoonup> resting_order)" where
  "spec_diff n (Add r) m =
     (if raw (remaining r) \<le> 0 \<or> raw (price r) \<le> 0 \<or> raw (original r) \<le> 0
      then Inl ''negative or non-positive order quantity or price''
      else if order_id r \<in> dom m then Inl ''duplicate order id''
      else if n \<le> card (dom m) then Inl ''order count bound''
      else Inr (m(order_id r \<mapsto> r)))"
| "spec_diff n (Update i q p) m =
     (if raw q < 0 \<or> raw p \<le> 0 then Inl ''negative or non-positive order quantity or price''
      else case m i of
        None \<Rightarrow> Inl ''order id is not active''
      | Some r \<Rightarrow> Inr (if raw q = 0 then m(i := None) else m(i \<mapsto> r\<lparr>remaining := q, price := p\<rparr>)))"
| "spec_diff n (Cancel i) m =
     (case m i of None \<Rightarrow> Inl ''order id is not active'' | Some r \<Rightarrow> Inr (m(i := None)))"
| "spec_diff n (Fill i q) m =
     (if raw q \<le> 0 then Inl ''fill quantity must be positive''
      else case m i of
        None \<Rightarrow> Inl ''order id is not active''
      | Some r \<Rightarrow>
          rbind (apply_fill_qty r q) (\<lambda>r'.
          Inr (if raw (remaining r') = 0 then m(i := None) else m(i \<mapsto> r'))))"

text \<open>What every operation of the book keeps.\<close>

definition same_frame :: "order_book \<Rightarrow> order_book \<Rightarrow> bool" where
  "same_frame b b' \<longleftrightarrow>
     market_id b' = market_id b \<and> sequence b' = sequence b \<and> as_of_block b' = as_of_block b
     \<and> health b' = health b \<and> max_orders b' = max_orders b"

lemma insert_active_refines:
  assumes inv: "index_inv b"
  shows "rmap order_map (insert_active r s b) = spec_diff (max_orders b) (Add r) (order_map b)"
    and "insert_active r s b = Inr b' \<Longrightarrow> index_inv b' \<and> same_frame b b'"
proof -
  let ?b = "(place_order r b)\<lparr>by_id := bt_insert (<) (order_id r) (index_of r) (by_id b)\<rparr>"
  let ?c = "if s then ?b else push_lifecycle (order_id r) Added ?b"
  have dom: "order_id r \<in> dom (order_map b) \<longleftrightarrow> bt_get (<) (order_id r) (by_id b) \<noteq> None"
    using order_map_None [OF inv] by (simp add: domIff)
  have eq: "insert_active r s b =
      (if raw (remaining r) \<le> 0 \<or> raw (price r) \<le> 0 \<or> raw (original r) \<le> 0
       then Inl ''negative or non-positive order quantity or price''
       else if bt_get (<) (order_id r) (by_id b) \<noteq> None then Inl ''duplicate order id''
       else if max_orders b \<le> length (by_id b) then Inl ''order count bound'' else Inr ?c)"
    by (simp add: insert_active_def Let_def)
  have new: "index_inv ?c \<and> same_frame b ?c \<and> order_map ?c = (order_map b)(order_id r \<mapsto> r)"
    if fresh: "bt_get (<) (order_id r) (by_id b) = None"
  proof -
    note p = place_order_inv [OF inv fresh]
    have new_id: "\<forall>x \<in> set (active_orders b). order_id x \<noteq> order_id r"
      using fresh index_get_None [OF inv] by force
    have "index_inv ?c" using p(1) by simp
    moreover have "order_map ?c = (order_map b)(order_id r \<mapsto> r)"
      using new_id p(2)
      by (intro order_map_eqI [OF calculation]) (auto simp: order_map_Some [OF inv] split: if_splits)
    ultimately show ?thesis by (simp add: same_frame_def)
  qed
  show "rmap order_map (insert_active r s b) = spec_diff (max_orders b) (Add r) (order_map b)"
    unfolding eq using new dom order_map_card [OF inv] by auto
  show "insert_active r s b = Inr b' \<Longrightarrow> index_inv b' \<and> same_frame b b'"
    unfolding eq using new by (auto split: if_splits)
qed

lemma same_frame_push [simp]: "same_frame b (push_lifecycle i k b') = same_frame b b'"
  by (simp add: same_frame_def)

lemma order_map_push [simp]: "order_map (push_lifecycle i k b) = order_map b"
  by (auto simp: order_map_def side_get_def split: option.splits order_side.splits)

lemma take_active_refines:
  assumes inv: "index_inv b" and r: "order_map b i = Some r"
  obtains b' where "bt_get (<) i (by_id b) = Some (index_of r)"
    and "take_active i (index_of r) b = Some (r, b')" and "index_inv b'" and "same_frame b b'"
    and "order_map b' = (order_map b)(i := None)" and "bt_get (<) i (by_id b') = None"
proof -
  have m: "r \<in> set (active_orders b)" "order_id r = i" using r order_map_Some [OF inv] by auto
  obtain b' where b': "take_active i (index_of r) b = Some (r, b')" "index_inv b'"
    "set (active_orders b') = set (active_orders b) - {r}" "bt_get (<) i (by_id b') = None"
    "same_frame b b'"
    using take_active_inv [OF inv m(1)] m(2) by (auto simp: same_frame_def)
  have uniq: "x = r" if "x \<in> set (active_orders b)" "order_id x = i" for x
    using inv m that by (auto simp: index_inv_def inj_on_def)
  have "order_map b' = (order_map b)(i := None)"
  proof (rule order_map_eqI [OF b'(2)])
    fix j x
    show "((order_map b)(i := None)) j = Some x \<longleftrightarrow> x \<in> set (active_orders b') \<and> order_id x = j"
      using b'(3) m uniq [of x] order_map_Some [OF inv, of j x] by (cases "j = i") auto
  qed
  then show thesis using b' active_position(1) [OF inv m(1)] m(2) that by simp
qed

lemma replaced_map:
  assumes "index_inv b'" and "set (active_orders b') = insert r' (set (active_orders b) - {r})"
    and "\<And>j x. order_map b j = Some x \<longleftrightarrow> x \<in> set (active_orders b) \<and> order_id x = j"
    and "order_id r' = i" and "\<And>y. y \<in> set (active_orders b) \<Longrightarrow> order_id y = i \<Longrightarrow> y = r"
    and "order_id r = i"
  shows "order_map b' = (order_map b)(i \<mapsto> r')"
proof (rule order_map_eqI [OF assms(1)])
  fix j x
  show "((order_map b)(i \<mapsto> r')) j = Some x \<longleftrightarrow> x \<in> set (active_orders b') \<and> order_id x = j"
    using assms(2,4,6) assms(5) [of x] assms(3) [of j x] by (cases "j = i") auto
qed

lemma index_missing: "index_inv b \<Longrightarrow> order_map b i = None \<Longrightarrow> bt_get (<) i (by_id b) = None"
  using order_map_None by simp

lemma remove_active_refines:
  assumes inv: "index_inv b"
  shows "rmap order_map (remove_active i k b) = spec_diff n (Cancel i) (order_map b)"
    and "remove_active i k b = Inr b' \<Longrightarrow> index_inv b' \<and> same_frame b b'"
proof -
  have "rmap order_map (remove_active i k b) = spec_diff n (Cancel i) (order_map b)
    \<and> (remove_active i k b = Inr b' \<longrightarrow> index_inv b' \<and> same_frame b b')"
  proof (cases "order_map b i")
    case None
    then show ?thesis using index_missing [OF inv] by (simp add: remove_active_def)
  next
    case (Some r)
    from take_active_refines [OF inv Some] obtain c where
      c: "bt_get (<) i (by_id b) = Some (index_of r)" "take_active i (index_of r) b = Some (r, c)"
        "index_inv c" "same_frame b c" "order_map c = (order_map b)(i := None)" by metis
    then show ?thesis using Some by (auto simp: remove_active_def)
  qed
  then show "rmap order_map (remove_active i k b) = spec_diff n (Cancel i) (order_map b)"
    and "remove_active i k b = Inr b' \<Longrightarrow> index_inv b' \<and> same_frame b b'" by auto
qed

lemma update_active_refines:
  assumes inv: "index_inv b"
  shows "rmap order_map (update_active i q p b) = spec_diff n (Update i q p) (order_map b)
    \<and> (update_active i q p b = Inr b' \<longrightarrow> index_inv b' \<and> same_frame b b')"
proof (cases "raw q < 0 \<or> raw p \<le> 0")
  case False
  show ?thesis
  proof (cases "order_map b i")
    case None
    then show ?thesis using False index_missing [OF inv] by (simp add: update_active_def)
  next
    case (Some r)
    have i: "order_id r = i" using Some order_map_Some [OF inv] by simp
    from take_active_refines [OF inv Some] obtain c where
      c: "bt_get (<) i (by_id b) = Some (index_of r)" "take_active i (index_of r) b = Some (r, c)"
        "index_inv c" "same_frame b c" "order_map c = (order_map b)(i := None)"
        "bt_get (<) i (by_id c) = None" by metis
    let ?r = "r\<lparr>remaining := q, price := p\<rparr>"
    let ?d = "(place_order ?r c)\<lparr>by_id := bt_insert (<) i (index_of ?r) (by_id c)\<rparr>"
    have fresh: "bt_get (<) (order_id ?r) (by_id c) = None" using c(6) i by simp
    have d: "index_inv ?d" "set (active_orders ?d) = insert ?r (set (active_orders c))"
      using place_order_inv [OF c(3) fresh] i by simp_all
    have new_id: "\<forall>x \<in> set (active_orders c). order_id x \<noteq> i"
      using c(6) index_get_None [OF c(3)] by force
    have "order_map ?d = (order_map c)(i \<mapsto> ?r)"
      using d(2) new_id i by (intro order_map_eqI [OF d(1)]) (auto simp: order_map_Some [OF c(3)])
    then have "order_map ?d = (order_map b)(i \<mapsto> ?r)" using c(5) by simp
    moreover have "same_frame b ?d" using c(4) by (simp add: same_frame_def)
    ultimately show ?thesis using False Some c d(1)
      by (auto simp: update_active_def Let_def)
  qed
qed (auto simp: update_active_def)

lemma apply_fill_qty_Inr:
  "apply_fill_qty r q = Inr r' \<Longrightarrow> \<exists>x. r' = r\<lparr>remaining := x\<rparr> \<and> raw x \<ge> 0
     \<and> checked_sub (remaining r) q = Inr x"
  by (auto simp: apply_fill_qty_def result_simps split: if_splits)

lemma fill_active_refines:
  assumes inv: "index_inv b"
  shows "rmap order_map (fill_active i q b) = spec_diff n (Fill i q) (order_map b)
    \<and> (fill_active i q b = Inr b' \<longrightarrow> index_inv b' \<and> same_frame b b')"
proof (cases "raw q \<le> 0")
  case False
  show ?thesis
  proof (cases "order_map b i")
    case None
    then show ?thesis using False index_missing [OF inv] by (simp add: fill_active_def)
  next
    case (Some r)
    have m: "r \<in> set (active_orders b)" "order_id r = i" using Some order_map_Some [OF inv] by auto
    note pos = active_position [OF inv m(1)]
    let ?c = "\<lambda>r'. case side r of
        Buy \<Rightarrow> b\<lparr>bids := bt_insert bid_lt (key_of r) r' (bids b)\<rparr>
      | Sell \<Rightarrow> b\<lparr>asks := bt_insert ask_lt (key_of r) r' (asks b)\<rparr>"
    have eq: "fill_active i q b = rbind (apply_fill_qty r q) (\<lambda>r'.
        if raw (remaining r') = 0 then remove_active i Filled (?c r')
        else Inr (push_lifecycle i Filled (?c r')))"
      using pos m(2) False
      by (cases "side r"; cases "apply_fill_qty r q")
         (simp_all add: fill_active_def side_get_def index_of_def key_of_def)
    show ?thesis
    proof (cases "apply_fill_qty r q")
      case (Inl e)
      then show ?thesis using eq Some False by simp
    next
      case (Inr r')
      then obtain x where x: "r' = r\<lparr>remaining := x\<rparr>" using apply_fill_qty_Inr by blast
      have c: "index_inv (?c r')" "set (active_orders (?c r')) = insert r' (set (active_orders b) - {r})"
        using replace_order_inv [OF inv m(1)] unfolding x by blast+
      have frame: "same_frame b (?c r')" by (simp add: same_frame_def split: order_side.splits)
      have uniq: "y = r" if "y \<in> set (active_orders b)" "order_id y = i" for y
        using inv m that by (auto simp: index_inv_def inj_on_def)
      have "order_id r' = i" using x m(2) by simp
      then have map: "order_map (?c r') = (order_map b)(i \<mapsto> r')"
        using replaced_map [OF c order_map_Some [OF inv] _ uniq m(2)] by blast
      have trans: "same_frame b d" if "same_frame (?c r') d" for d
        using that frame by (simp add: same_frame_def)
      show ?thesis
        using Inr Some False c(1) frame map trans remove_active_refines [OF c(1), of i Filled]
        unfolding eq by auto
    qed
  qed
qed (auto simp: fill_active_def)

lemma apply_healthy_diff_refines:
  assumes "index_inv b"
  shows "rmap order_map (apply_healthy_diff d b) = spec_diff (max_orders b) d (order_map b)"
    and "apply_healthy_diff d b = Inr b' \<Longrightarrow> index_inv b' \<and> same_frame b b'"
  using insert_active_refines [OF assms] remove_active_refines [OF assms]
    update_active_refines [OF assms] fill_active_refines [OF assms]
  by (cases d; simp)+

section \<open>The invariant of a book\<close>

definition order_pos :: "resting_order \<Rightarrow> bool" where
  "order_pos r \<longleftrightarrow> 0 < raw (remaining r) \<and> 0 < raw (price r) \<and> 0 < raw (original r)"

text \<open>
  The invariant of a book: consistent index, positive orders, the order bound, and either
  healthy with all checks passed, or empty.
\<close>

definition book_ok :: "order_book \<Rightarrow> bool" where
  "book_ok b \<longleftrightarrow>
     index_inv b \<and> (\<forall>r \<in> set (active_orders b). order_pos r) \<and> length (by_id b) \<le> max_orders b
     \<and> (if health b = Healthy then assert_invariants b = Inr ()
        else bids b = [] \<and> asks b = [] \<and> by_id b = [])"

text \<open>Everything a caller can do to a book.\<close>

inductive book_reach :: "order_book \<Rightarrow> bool" where
  init: "book_reach (awaiting_snapshot_bounded m h n)"
| snapshot: "book_reach b \<Longrightarrow> book_reach (apply_snapshot seq h orders b)"
| diff: "book_reach b \<Longrightarrow> book_reach (apply_diff seq h d b)"

lemma index_inv_empty: "bids b = [] \<Longrightarrow> asks b = [] \<Longrightarrow> by_id b = [] \<Longrightarrow> index_inv b"
  by (simp add: index_inv_def side_ok_def active_orders_def bt_values_def)

lemma order_map_ran: "index_inv b \<Longrightarrow> ran (order_map b) = set (active_orders b)"
  by (auto simp: ran_def order_map_Some)

lemma spec_diff_keeps:
  assumes "spec_diff n d m = Inr m'" and "\<forall>r \<in> ran m. order_pos r" and "finite (dom m)"
    and "card (dom m) \<le> n"
  shows "\<forall>r \<in> ran m'. order_pos r" and "card (dom m') \<le> n"
proof -
  have del: "ran (m(i := None)) \<subseteq> ran m" "card (dom (m(i := None))) \<le> n" for i
    using assms(3,4) card_mono [OF assms(3), of "dom m - {i}"] by (auto simp: ran_def)
  have "(\<forall>r \<in> ran m'. order_pos r) \<and> card (dom m') \<le> n"
  proof (cases d)
    case (Add r)
    then have m': "m' = m(order_id r \<mapsto> r)" "order_pos r" "order_id r \<notin> dom m" "card (dom m) < n"
      using assms(1) by (auto simp: order_pos_def split: if_splits)
    then show ?thesis using assms(2,3) by (auto simp: ran_def)
  next
    case (Update i q p)
    then obtain r where r: "m i = Some r" "0 \<le> raw q" "0 < raw p"
      "m' = (if raw q = 0 then m(i := None) else m(i \<mapsto> r\<lparr>remaining := q, price := p\<rparr>))"
      using assms(1) by (auto split: if_splits option.splits)
    have "insert i (dom m) = dom m" using r(1) by auto
    then show ?thesis using r assms(2,4) del by (auto simp: ran_def order_pos_def)
  next
    case (Cancel i)
    then have "m' = m(i := None)" using assms(1) by (auto split: option.splits)
    then show ?thesis using del assms(2) by auto
  next
    case (Fill i q)
    then obtain r r' where r: "m i = Some r" "apply_fill_qty r q = Inr r'"
      "m' = (if raw (remaining r') = 0 then m(i := None) else m(i \<mapsto> r'))"
      using assms(1) by (auto simp: result_simps split: if_splits option.splits)
    obtain x where x: "r' = r\<lparr>remaining := x\<rparr>" "0 \<le> raw x" using apply_fill_qty_Inr [OF r(2)] by auto
    have "order_pos r" using r(1) assms(2) by (auto simp: ran_def)
    then have pos: "raw (remaining r') \<noteq> 0 \<Longrightarrow> order_pos r'" using x by (simp add: order_pos_def)
    have "insert i (dom m) = dom m" using r(1) by auto
    then show ?thesis using r(3) assms(2,4) del pos by (auto simp: ran_def)
  qed
  then show "\<forall>r \<in> ran m'. order_pos r" and "card (dom m') \<le> n" by auto
qed

definition core_ok :: "order_book \<Rightarrow> bool" where
  "core_ok b \<longleftrightarrow>
     index_inv b \<and> (\<forall>r \<in> set (active_orders b). order_pos r) \<and> length (by_id b) \<le> max_orders b"

lemma core_ok_step:
  assumes "core_ok b" and "index_inv b'" and "same_frame b b'"
    and "Inr (order_map b') = spec_diff (max_orders b) d (order_map b)"
  shows "core_ok b'"
proof -
  have inv: "index_inv b" using assms(1) by (simp add: core_ok_def)
  have fin: "finite (dom (order_map b))" by (simp add: order_map_dom [OF inv])
  note keeps = spec_diff_keeps [OF assms(4) [symmetric], unfolded order_map_ran [OF inv], OF _ fin]
  show ?thesis
    using keeps assms(1-3) order_map_card [OF inv] order_map_card [OF assms(2)]
    by (simp add: core_ok_def same_frame_def order_map_ran [OF assms(2)])
qed

lemma core_ok_diff: "core_ok b \<Longrightarrow> apply_healthy_diff d b = Inr b' \<Longrightarrow> core_ok b'"
  using apply_healthy_diff_refines [of b d] core_ok_step [of b b' d] by (auto simp: core_ok_def)

lemma core_ok_insert: "core_ok b \<Longrightarrow> insert_active r s b = Inr b' \<Longrightarrow> core_ok b'"
  using insert_active_refines [of b r s] core_ok_step [of b b' "Add r"] by (auto simp: core_ok_def)

lemma book_ok_checked:
  assumes "core_ok b" and "health b = Healthy"
  shows "book_ok (case assert_invariants b of Inl reason \<Rightarrow> mark_red reason b | Inr _ \<Rightarrow> b)"
  using assms
  by (auto simp: book_ok_def core_ok_def mark_red_def index_inv_empty active_orders_def bt_values_def
      split: sum.splits)

lemma book_ok_red [simp]: "book_ok (mark_red reason b)"
  by (simp add: book_ok_def mark_red_def index_inv_empty active_orders_def bt_values_def)

lemma book_ok_apply_diff: "book_ok b \<Longrightarrow> book_ok (apply_diff seq h d b)"
proof -
  assume ok: "book_ok b"
  let ?b = "b\<lparr>sequence := seq, as_of_block := h\<rparr>"
  have core: "core_ok ?b" using ok by (simp add: book_ok_def core_ok_def)
  show ?thesis
  proof (cases "health b = Healthy \<and> seq = saturating_succ (sequence b)")
    case True
    show ?thesis
    proof (cases "apply_healthy_diff d ?b")
      case (Inr c)
      have "index_inv ?b" using core by (simp add: core_ok_def)
      then have "health c = Healthy"
        using apply_healthy_diff_refines(2) [OF _ Inr] True by (simp add: same_frame_def)
      then show ?thesis using book_ok_checked [OF core_ok_diff [OF core Inr]] True Inr
        by (simp add: apply_diff_def Let_def)
    qed (use True in \<open>simp add: apply_diff_def Let_def\<close>)
  qed (auto simp: apply_diff_def)
qed

lemma insert_all:
  assumes "rfold (\<lambda>r. insert_active r True) rs b = Inr b'" and "core_ok b"
  shows "core_ok b'" and "same_frame b b'" and "lifecycle b' = lifecycle b"
    and "set (active_orders b') = set rs \<union> set (active_orders b)"
    and "length (by_id b') = length rs + length (by_id b)"
proof -
  have "core_ok b' \<and> same_frame b b' \<and> lifecycle b' = lifecycle b
    \<and> set (active_orders b') = set rs \<union> set (active_orders b)
    \<and> length (by_id b') = length rs + length (by_id b)"
    using assms
  proof (induction rs arbitrary: b)
    case (Cons r rs)
    from Cons.prems(1) obtain c where c: "insert_active r True b = Inr c"
      "rfold (\<lambda>r. insert_active r True) rs c = Inr b'" by (auto simp: result_simps)
    have inv: "index_inv b" using Cons.prems(2) by (simp add: core_ok_def)
    have fresh: "bt_get (<) (order_id r) (by_id b) = None"
      and c': "c = (place_order r b)\<lparr>by_id := bt_insert (<) (order_id r) (index_of r) (by_id b)\<rparr>"
      using c(1) by (auto simp: insert_active_def Let_def split: if_splits)
    have "set (active_orders c) = insert r (set (active_orders b))"
      "length (by_id c) = Suc (length (by_id b))"
      using place_order_inv [OF inv fresh] unfolding c' by blast+
    moreover have "same_frame b c" "lifecycle c = lifecycle b" by (simp_all add: c' same_frame_def)
    ultimately show ?case
      using Cons.IH [OF c(2) core_ok_insert [OF Cons.prems(2) c(1)]] by (auto simp: same_frame_def)
  qed (simp add: same_frame_def)
  then show "core_ok b'" "same_frame b b'" "lifecycle b' = lifecycle b"
    "set (active_orders b') = set rs \<union> set (active_orders b)"
    "length (by_id b') = length rs + length (by_id b)" by auto
qed

text \<open>The book a snapshot starts from.\<close>

definition cleared :: "u64 \<Rightarrow> block_height \<Rightarrow> order_book \<Rightarrow> order_book" where
  "cleared seq h b = b\<lparr>bids := [], asks := [], by_id := [], lifecycle := [], sequence := seq,
     as_of_block := h, health := Healthy\<rparr>"

lemma core_ok_cleared: "core_ok (cleared seq h b)"
  by (simp add: cleared_def core_ok_def index_inv_empty active_orders_def bt_values_def)

lemma book_ok_apply_snapshot: "book_ok (apply_snapshot seq h orders b)"
proof (cases "length orders > max_orders b")
  case False
  show ?thesis
  proof (cases "rfold (\<lambda>r. insert_active r True) orders (cleared seq h b)")
    case (Inr c)
    note ins = insert_all [OF Inr core_ok_cleared]
    have "health c = Healthy" using ins(2) by (simp add: same_frame_def cleared_def)
    then show ?thesis using book_ok_checked [OF ins(1)] False Inr
      by (simp add: apply_snapshot_def Let_def cleared_def)
  qed (use False in \<open>simp add: apply_snapshot_def Let_def cleared_def\<close>)
qed (simp add: apply_snapshot_def Let_def)

lemma book_reach_ok: "book_reach b \<Longrightarrow> book_ok b"
proof (induction rule: book_reach.induct)
  case (init m h n)
  show ?case by (simp add: book_ok_def awaiting_snapshot_bounded_def index_inv_empty active_orders_def bt_values_def)
qed (simp_all add: book_ok_apply_snapshot book_ok_apply_diff)

section \<open>Best prices and price levels\<close>

lemma bt_values_sorted:
  "side_ok lt s m \<Longrightarrow> sorted_wrt (\<lambda>a b. lt (key_of a) (key_of b)) (bt_values m)"
  unfolding side_ok_def bt_values_def bt_sorted_def sorted_wrt_map
  by (elim conjE, erule sorted_wrt_mono_rel [rotated]) metis

lemma find_first:
  assumes "find P xs = Some x" and "sorted_wrt R xs" and "y \<in> set xs" and "P y"
  shows "x = y \<or> R x y"
  using assms by (induction xs) (auto split: if_splits)

lemma ask_lt_price: "ask_lt (key_of a) (key_of b) \<Longrightarrow> dec_value (price a) \<le> dec_value (price b)"
  by (auto simp: ask_lt_def lex_lt_def key_of_def decimal_lt_value same_key_decimal)

lemma bid_lt_price: "bid_lt (key_of a) (key_of b) \<Longrightarrow> dec_value (price b) \<le> dec_value (price a)"
  by (auto simp: bid_lt_def lex_lt_def key_of_def decimal_lt_value same_key_decimal reverse_lt_def)

lemma best_bid_max:
  assumes "side_ok bid_lt Buy (bids b)" and "r \<in> set (bt_values (bids b))" and "rests_on_l2 r"
  shows "\<exists>x. best_bid b = Some x \<and> dec_value (price r) \<le> dec_value (price x)"
proof (cases "best_bid b")
  case None
  then show ?thesis using assms(2,3) by (auto simp: best_bid_def find_None_iff)
next
  case (Some x)
  then show ?thesis
    using find_first [of rests_on_l2 "bt_values (bids b)" x, OF _ bt_values_sorted [OF assms(1)]]
      assms(2,3) bid_lt_price by (fastforce simp: best_bid_def)
qed

lemma best_ask_min:
  assumes "side_ok ask_lt Sell (asks b)" and "r \<in> set (bt_values (asks b))" and "rests_on_l2 r"
  shows "\<exists>x. best_ask b = Some x \<and> dec_value (price x) \<le> dec_value (price r)"
proof (cases "best_ask b")
  case None
  then show ?thesis using assms(2,3) by (auto simp: best_ask_def find_None_iff)
next
  case (Some x)
  then show ?thesis
    using find_first [of rests_on_l2 "bt_values (asks b)" x, OF _ bt_values_sorted [OF assms(1)]]
      assms(2,3) ask_lt_price by (fastforce simp: best_ask_def)
qed

lemma healthy_uncrossed:
  assumes "book_ok b" and "health b = Healthy" and "bid \<in> set (active_orders b)"
    and "ask \<in> set (active_orders b)" and "side bid = Buy" and "side ask = Sell"
    and "rests_on_l2 bid" and "rests_on_l2 ask"
  shows "dec_value (price bid) < dec_value (price ask)"
proof -
  have ok: "side_ok bid_lt Buy (bids b)" "side_ok ask_lt Sell (asks b)" "assert_invariants b = Inr ()"
    using assms(1,2) by (simp_all add: book_ok_def index_inv_def)
  have "bid \<in> set (bt_values (bids b))" "ask \<in> set (bt_values (asks b))"
    using assms(3-6) bt_values_side [OF ok(1)] bt_values_side [OF ok(2)]
    by (auto simp: active_orders_set)
  then obtain x y where "best_bid b = Some x" "dec_value (price bid) \<le> dec_value (price x)"
    "best_ask b = Some y" "dec_value (price y) \<le> dec_value (price ask)"
    using best_bid_max [OF ok(1)] best_ask_min [OF ok(2)] assms(7,8) by blast
  moreover have "\<not> price_ge (price x) (price y)"
    using ok(3) calculation by (auto simp: assert_invariants_def split: if_splits)
  ultimately show ?thesis by (auto simp: price_ge_def numeric_cmp_value)
qed

text \<open>The orders that make up the level at a price.\<close>

definition at_price :: "decimal \<Rightarrow> resting_order list \<Rightarrow> resting_order list" where
  "at_price p rs = filter (\<lambda>r. rests_on_l2 r \<and> dec_value (price r) = dec_value p) rs"

definition levels_ok :: "resting_order list \<Rightarrow> (decimal, decimal \<times> u32) btree \<Rightarrow> bool" where
  "levels_ok rs levels \<longleftrightarrow> bt_sorted decimal_lt levels
     \<and> (\<forall>p. case bt_get decimal_lt p levels of
               None \<Rightarrow> at_price p rs = []
             | Some (q, n) \<Rightarrow> at_price p rs \<noteq> [] \<and> unat n = length (at_price p rs)
                 \<and> dec_value q = (\<Sum>r \<leftarrow> at_price p rs. dec_value (remaining r)))"

lemma aggregate_order_Inr:
  assumes agg: "aggregate_order r levels = Inr levels'" and rests: "rests_on_l2 r"
    and sorted: "bt_sorted decimal_lt levels"
  obtains q n q' n' where
    "(case bt_get decimal_lt (price r) levels of None \<Rightarrow> (\<lparr>raw = 0, scale = scale (remaining r)\<rparr>, 0) | Some x \<Rightarrow> x) = (q, n)"
    "checked_add q (remaining r) = Inr q'" "checked_succ n = Some n'" "bt_sorted decimal_lt levels'"
    "\<And>p. bt_get decimal_lt p levels' =
      (if dec_value p = dec_value (price r) then Some (q', n') else bt_get decimal_lt p levels)"
proof -
  let ?p = "price r"
  let ?z = "\<lparr>raw = 0, scale = scale (remaining r)\<rparr>"
  let ?l1 = "if bt_get decimal_lt ?p levels = None then bt_insert decimal_lt ?p (?z, 0) levels else levels"
  have "rbind (ok_or ''l2 level index is inconsistent'' (bt_get decimal_lt ?p ?l1)) (\<lambda>(q, n).
      rbind (map_err (\<lambda>_. ''l2 aggregation overflow'') (checked_add q (remaining r))) (\<lambda>q'.
      rbind (ok_or ''l2 order count overflow'' (checked_succ n)) (\<lambda>n'.
      Inr (bt_insert decimal_lt ?p (q', n') ?l1)))) = Inr levels'"
  proof (cases "bt_get decimal_lt ?p levels")
    case None
    have "from_raw 0 (scale (remaining r)) = Inr ?z"
      using agg rests None
      by (cases "from_raw 0 (scale (remaining r))") (auto simp: aggregate_order_def from_raw_Inr_iff)
    with agg rests None show ?thesis by (simp add: aggregate_order_def)
  qed (use agg rests in \<open>simp add: aggregate_order_def\<close>)
  then obtain q n q' n' where
    s: "bt_get decimal_lt ?p ?l1 = Some (q, n)" "checked_add q (remaining r) = Inr q'"
      "checked_succ n = Some n'" "levels' = bt_insert decimal_lt ?p (q', n') ?l1"
    by (auto simp: rbind_Inr_iff map_err_Inr_iff ok_or_Inr_iff)
  have s1: "bt_sorted decimal_lt ?l1" using sorted by (simp add: dec.bt_sorted_insert)
  show thesis
  proof (rule that [OF _ s(2,3)])
    show "(case bt_get decimal_lt ?p levels of None \<Rightarrow> (?z, 0) | Some x \<Rightarrow> x) = (q, n)"
      using s(1) sorted by (cases "bt_get decimal_lt ?p levels") simp_all
    show "bt_sorted decimal_lt levels'" unfolding s(4) by (rule dec.bt_sorted_insert [OF s1])
    show "bt_get decimal_lt p levels' =
        (if dec_value p = dec_value ?p then Some (q', n') else bt_get decimal_lt p levels)" for p
      unfolding s(4) dec.bt_get_insert [OF s1] by (simp add: same_key_decimal dec.bt_get_insert [OF sorted])
  qed
qed

lemma aggregate_order_levels:
  assumes "aggregate_order r levels = Inr levels'" and "levels_ok rs levels"
  shows "levels_ok (rs @ [r]) levels'"
proof (cases "rests_on_l2 r")
  case False
  then have same: "at_price p (rs @ [r]) = at_price p rs" for p by (simp add: at_price_def)
  show ?thesis using assms False unfolding levels_ok_def same by (simp add: aggregate_order_def)
next
  case True
  let ?p = "price r"
  have sorted: "bt_sorted decimal_lt levels" using assms(2) by (simp add: levels_ok_def)
  obtain q n q' n' where
    s: "(case bt_get decimal_lt ?p levels of None \<Rightarrow> (\<lparr>raw = 0, scale = scale (remaining r)\<rparr>, 0) | Some x \<Rightarrow> x) = (q, n)"
      "checked_add q (remaining r) = Inr q'" "checked_succ n = Some n'" "bt_sorted decimal_lt levels'"
    and get: "\<And>p. bt_get decimal_lt p levels' =
      (if dec_value p = dec_value ?p then Some (q', n') else bt_get decimal_lt p levels)"
    using aggregate_order_Inr [OF assms(1) True sorted] by blast
  have here: "unat n = length (at_price ?p rs) \<and> dec_value q = (\<Sum>r \<leftarrow> at_price ?p rs. dec_value (remaining r))"
  proof (cases "bt_get decimal_lt ?p levels")
    case None
    then have "q = \<lparr>raw = 0, scale = scale (remaining r)\<rparr>" "n = 0" using s(1) by simp_all
    moreover have "at_price ?p rs = []"
      using assms(2) None unfolding levels_ok_def by (auto dest!: spec [of _ ?p])
    ultimately show ?thesis by (simp add: dec_value_def)
  next
    case (Some x)
    then show ?thesis using assms(2) s(1) unfolding levels_ok_def by (auto dest!: spec [of _ ?p])
  qed
  have add: "dec_value q' = dec_value q + dec_value (remaining r)" "unat n' = Suc (unat n)"
    using s(2,3) unat_checked_succ
    by (auto simp: checked_add_exact dec_value_def add_divide_distrib)
  have same: "at_price p xs = at_price ?p xs" if "dec_value p = dec_value ?p" for p xs
    using that by (simp add: at_price_def)
  have snoc: "at_price p (rs @ [r]) = at_price p rs @ (if dec_value p = dec_value ?p then [r] else [])" for p
    using True by (auto simp: at_price_def)
  show ?thesis unfolding levels_ok_def
  proof (intro conjI allI)
    show "bt_sorted decimal_lt levels'" by (rule s(4))
    fix p
    show "case bt_get decimal_lt p levels' of
               None \<Rightarrow> at_price p (rs @ [r]) = []
             | Some (q, n) \<Rightarrow> at_price p (rs @ [r]) \<noteq> [] \<and> unat n = length (at_price p (rs @ [r]))
                 \<and> dec_value q = (\<Sum>r \<leftarrow> at_price p (rs @ [r]). dec_value (remaining r))"
    proof (cases "dec_value p = dec_value ?p")
      case True
      then show ?thesis using here add same [OF True] by (simp add: get snoc)
    next
      case False
      have keep: "at_price p (rs @ [r]) = at_price p rs"
        "bt_get decimal_lt p levels' = bt_get decimal_lt p levels"
        using False by (simp_all add: get snoc)
      show ?thesis unfolding keep using assms(2) by (simp add: levels_ok_def)
    qed
  qed
qed

lemma aggregate_levels: "rfold aggregate_order rs [] = Inr levels \<Longrightarrow> levels_ok rs levels"
proof (induction rs arbitrary: levels rule: rev_induct)
  case Nil
  then show ?case by (simp add: levels_ok_def at_price_def)
next
  case (snoc r rs)
  then show ?case using aggregate_order_levels by (auto simp: rfold_append result_simps)
qed

text \<open>What a published list of levels promises about the orders it was made from.\<close>

definition l2_exact :: "resting_order list \<Rightarrow> l2_level list \<Rightarrow> bool" where
  "l2_exact rs ls \<longleftrightarrow>
     (\<forall>l \<in> set ls. at_price (l2_price l) rs \<noteq> []
        \<and> dec_value (l2_quantity l) = (\<Sum>r \<leftarrow> at_price (l2_price l) rs. dec_value (remaining r))
        \<and> unat (order_count l) = length (at_price (l2_price l) rs))
     \<and> (\<forall>r \<in> set rs. rests_on_l2 r \<longrightarrow> (\<exists>l \<in> set ls. dec_value (l2_price l) = dec_value (price r)))"

lemma aggregate_l2_exact:
  assumes "aggregate_l2 rs flag = Inr ls"
  shows "l2_exact rs ls"
    and "sorted_wrt (\<lambda>a b. if flag then dec_value (l2_price b) < dec_value (l2_price a)
           else dec_value (l2_price a) < dec_value (l2_price b)) ls"
proof -
  let ?f = "\<lambda>(p, q, n). \<lparr>l2_price = p, l2_quantity = q, order_count = n\<rparr>"
  obtain levels where l: "rfold aggregate_order rs [] = Inr levels"
    "ls = (if flag then rev (map ?f levels) else map ?f levels)"
    using assms by (auto simp: aggregate_l2_def Let_def result_simps split: if_splits)
  have ok: "levels_ok rs levels" using aggregate_levels [OF l(1)] .
  have sorted: "bt_sorted decimal_lt levels" using ok by (simp add: levels_ok_def)
  have set: "set ls = ?f ` set levels" using l(2) by simp
  have level: "at_price p rs \<noteq> [] \<and> unat n = length (at_price p rs)
      \<and> dec_value q = (\<Sum>r \<leftarrow> at_price p rs. dec_value (remaining r))" if "(p, q, n) \<in> set levels" for p q n
    using ok dec.bt_get_in [OF sorted that] unfolding levels_ok_def by (auto dest!: spec [of _ p])
  have all: "\<exists>l \<in> set ls. dec_value (l2_price l) = dec_value (price r)"
    if r: "r \<in> set rs" "rests_on_l2 r" for r
  proof -
    have "at_price (price r) rs \<noteq> []" using r by (auto simp: at_price_def filter_empty_conv)
    then obtain q n where "bt_get decimal_lt (price r) levels = Some (q, n)"
      using ok unfolding levels_ok_def by (auto dest!: spec [of _ "price r"] split: option.splits)
    then obtain p where "(p, q, n) \<in> set levels" "dec_value p = dec_value (price r)"
      using dec.bt_get_Some_iff [OF sorted] by (auto simp: same_key_decimal)
    then show ?thesis unfolding set by (auto intro!: bexI [of _ "(p, q, n)"])
  qed
  show "l2_exact rs ls" using level all by (auto simp: l2_exact_def set)
  have "sorted_wrt (\<lambda>a b. dec_value (l2_price a) < dec_value (l2_price b)) (map ?f levels)"
    using sorted unfolding bt_sorted_def sorted_wrt_map
    by (rule sorted_wrt_mono_rel [rotated]) (auto simp: decimal_lt_value)
  then show "sorted_wrt (\<lambda>a b. if flag then dec_value (l2_price b) < dec_value (l2_price a)
           else dec_value (l2_price a) < dec_value (l2_price b)) ls"
    using l(2) by (simp add: sorted_wrt_rev)
qed

text \<open>The reasons the closing check of a diff can still have.\<close>

definition closing_reasons :: "string set" where
  "closing_reasons = {''crossed or locked book'', ''invalid quantity scale'',
     ''l2 aggregation overflow'', ''l2 order count overflow''}"

lemma closing_reasons_intro [simp]:
  "''crossed or locked book'' \<in> closing_reasons" "''invalid quantity scale'' \<in> closing_reasons"
  "''l2 aggregation overflow'' \<in> closing_reasons" "''l2 order count overflow'' \<in> closing_reasons"
  by (simp_all only: closing_reasons_def insert_iff simp_thms)

lemma aggregate_tail_reason:
  assumes "rbind (map_err (\<lambda>_. ''l2 aggregation overflow'') (checked_add q s)) (\<lambda>q'.
      rbind (ok_or ''l2 order count overflow'' (checked_succ n)) (\<lambda>n'. Inr (f q' n'))) = Inl e"
  shows "e \<in> closing_reasons"
proof (cases "checked_add q s")
  case (Inl x)
  then have "e = ''l2 aggregation overflow''" using assms by simp
  then show ?thesis by (simp only: closing_reasons_intro)
next
  case (Inr q')
  then have "e = ''l2 order count overflow''" using assms by (cases "checked_succ n") simp_all
  then show ?thesis by (simp only: closing_reasons_intro)
qed

lemma aggregate_order_reason:
  assumes "aggregate_order r levels = Inl e" and "bt_sorted decimal_lt levels"
  shows "e \<in> closing_reasons"
proof (cases "bt_get decimal_lt (price r) levels")
  case None
  show ?thesis
  proof (cases "from_raw 0 (scale (remaining r))")
    case (Inl x)
    then have "e = ''invalid quantity scale''"
      using assms(1) None by (simp add: aggregate_order_def split: if_splits)
    then show ?thesis by (simp only: closing_reasons_intro)
  next
    case (Inr z)
    then show ?thesis using assms None aggregate_tail_reason [of z "remaining r" 0 _ e]
      by (simp add: aggregate_order_def split: if_splits)
  qed
next
  case (Some x)
  then show ?thesis using assms aggregate_tail_reason [of "fst x" "remaining r" "snd x" _ e]
    by (simp add: aggregate_order_def split_beta split: if_splits)
qed

lemma aggregate_reason:
  assumes "aggregate_l2 rs flag = Inl e"
  shows "e \<in> closing_reasons"
proof -
  have "rfold aggregate_order rs [] = Inl e"
    using assms by (auto simp: aggregate_l2_def Let_def result_simps)
  then show ?thesis
  proof (induction rs rule: rev_induct)
    case (snoc r rs)
    show ?case
    proof (cases "rfold aggregate_order rs []")
      case (Inr levels)
      then have "levels_ok rs levels" by (rule aggregate_levels)
      then show ?thesis using snoc.prems Inr aggregate_order_reason [of r levels e]
        by (cases "aggregate_order r levels") (simp_all add: rfold_append levels_ok_def)
    qed (use snoc in \<open>simp add: rfold_append\<close>)
  qed simp
qed

lemma assert_invariants_reason:
  assumes "core_ok b" and "assert_invariants b = Inl e"
  shows "e \<in> closing_reasons"
proof -
  have "length (by_id b) = length (bids b) + length (asks b)"
    using assms(1) by (simp add: core_ok_def index_inv_def)
  then consider "e = ''crossed or locked book''" | "aggregate_l2 (bt_values (bids b)) True = Inl e"
    | "aggregate_l2 (bt_values (asks b)) False = Inl e"
    using assms(2) by (auto simp only: assert_invariants_def rbind_Inl_iff sum.inject sum.distinct
        simp_thms split: if_splits)
  then show ?thesis using aggregate_reason by cases (simp_all only: closing_reasons_intro)
qed

section \<open>Properties\<close>

text \<open>A small book for evaluation: one bid at 100, one ask at 101.\<close>

definition sample_bid :: resting_order where
  "sample_bid = new_order ''b1'' Buy \<lparr>raw = 100, scale = 0\<rparr> \<lparr>raw = 5, scale = 0\<rparr> 1"

definition sample_ask :: resting_order where
  "sample_ask = new_order ''a1'' Sell \<lparr>raw = 101, scale = 0\<rparr> \<lparr>raw = 7, scale = 0\<rparr> 2"

definition sample_book :: order_book where
  "sample_book = apply_snapshot 1 7 [sample_bid, sample_ask] (awaiting_snapshot_bounded ''BTC'' 0 10)"

lemma sample_reach: "book_reach sample_book"
  unfolding sample_book_def by (intro book_reach.intros)

lemma sample_health: "health sample_book = Healthy"
  by code_simp

lemma sample_sequence: "sequence sample_book = 1"
  by code_simp

lemma apply_diff_cases:
  assumes ok: "book_ok b" and healthy: "health b = Healthy" and seq: "seq = saturating_succ (sequence b)"
  shows "case spec_diff (max_orders b) d (order_map b) of
      Inl reason \<Rightarrow> health (apply_diff seq h d b) = Red reason
    | Inr m \<Rightarrow> (if health (apply_diff seq h d b) = Healthy
               then order_map (apply_diff seq h d b) = m \<and> sequence (apply_diff seq h d b) = seq
               else \<exists>reason \<in> closing_reasons. health (apply_diff seq h d b) = Red reason)"
proof -
  let ?b = "b\<lparr>sequence := seq, as_of_block := h\<rparr>"
  have core: "core_ok ?b" using ok by (simp add: book_ok_def core_ok_def)
  then have inv: "index_inv ?b" by (simp add: core_ok_def)
  have map: "order_map ?b = order_map b"
    by (auto simp: order_map_def side_get_def split: option.splits order_side.splits)
  note ref = apply_healthy_diff_refines [OF inv, of d]
  show ?thesis
  proof (cases "apply_healthy_diff d ?b")
    case (Inl e)
    then have "spec_diff (max_orders b) d (order_map b) = Inl e" using ref(1) map by simp
    then show ?thesis using healthy seq Inl by (simp add: apply_diff_def Let_def mark_red_def)
  next
    case (Inr c)
    then have spec: "spec_diff (max_orders b) d (order_map b) = Inr (order_map c)"
      using ref(1) map by simp
    have c: "sequence c = seq" "health c = Healthy"
      using ref(2) [OF Inr] healthy by (simp_all add: same_frame_def)
    show ?thesis
    proof (cases "assert_invariants c")
      case (Inl e)
      then have "apply_diff seq h d b = mark_red e c"
        using Inr healthy seq by (simp add: apply_diff_def Let_def)
      moreover have "e \<in> closing_reasons"
        using assert_invariants_reason [OF core_ok_diff [OF core Inr] Inl] .
      ultimately show ?thesis using spec by (simp add: mark_red_def)
    next
      case good: (Inr u)
      then have "apply_diff seq h d b = c"
        using Inr healthy seq by (simp add: apply_diff_def Let_def)
      then show ?thesis using spec c by simp
    qed
  qed
qed

text \<open>
  C9. However snapshots and diffs are applied to a book, right or wrong, it satisfies its
  invariant: the index and the two sides agree, no order id occurs twice, every resting
  order is positive and the order bound holds; a healthy book is never crossed or locked,
  whichever pair of resting orders is compared; a book that is not healthy holds no orders.
\<close>

theorem order_book_invariant:
  assumes "book_reach b"
  shows "book_ok b
    \<and> (health b = Healthy \<longrightarrow>
         (\<forall>bid \<in> set (active_orders b). \<forall>ask \<in> set (active_orders b).
            side bid = Buy \<and> side ask = Sell \<and> rests_on_l2 bid \<and> rests_on_l2 ask \<longrightarrow>
            dec_value (price bid) < dec_value (price ask)))
    \<and> (health b \<noteq> Healthy \<longrightarrow> active_orders b = [])"
proof -
  have ok: "book_ok b" using assms by (rule book_reach_ok)
  moreover have "health b \<noteq> Healthy \<longrightarrow> active_orders b = []"
    using ok by (simp add: book_ok_def active_orders_def bt_values_def)
  ultimately show ?thesis using healthy_uncrossed [OF ok] by blast
qed

theorem order_book_invariant_witness:
  "book_reach sample_book \<and> health sample_book = Healthy \<and> book_ok sample_book"
  using order_book_invariant [OF sample_reach] sample_reach sample_health by blast

text \<open>
  C7. A diff with the next sequence number does to the map from order ids to orders exactly
  what its specification says: add, amend or remove one order, or reject with that error.
  The internal error branches of the code (an index that misses an order) are unreachable,
  and an accepted diff is only undone, by marking the book red, when the closing check finds
  the book crossed or a level that cannot be summed.
\<close>

theorem order_book_diff_refines:
  assumes "book_reach b" and "health b = Healthy" and "seq = saturating_succ (sequence b)"
  shows "case spec_diff (max_orders b) d (order_map b) of
      Inl reason \<Rightarrow> health (apply_diff seq h d b) = Red reason
    | Inr m \<Rightarrow> (if health (apply_diff seq h d b) = Healthy
               then order_map (apply_diff seq h d b) = m \<and> sequence (apply_diff seq h d b) = seq
               else \<exists>reason \<in> closing_reasons. health (apply_diff seq h d b) = Red reason)"
  using apply_diff_cases [OF book_reach_ok [OF assms(1)] assms(2,3)] .

theorem order_book_diff_refines_witness:
  "health sample_book = Healthy \<and> sequence sample_book = 1
   \<and> order_map (apply_diff 2 8 (Fill ''b1'' \<lparr>raw = 2, scale = 0\<rparr>) sample_book) =
       (order_map sample_book)(''b1'' \<mapsto> sample_bid\<lparr>remaining := \<lparr>raw = 3, scale = 0\<rparr>\<rparr>)"
proof -
  let ?d = "Fill ''b1'' \<lparr>raw = 2, scale = 0\<rparr>"
  have seq: "2 = saturating_succ (sequence sample_book)" by code_simp
  have good: "health (apply_diff 2 8 ?d sample_book) = Healthy" by code_simp
  have "order_map sample_book ''b1'' = Some sample_bid" by code_simp
  moreover have "apply_fill_qty sample_bid \<lparr>raw = 2, scale = 0\<rparr> =
      Inr (sample_bid\<lparr>remaining := \<lparr>raw = 3, scale = 0\<rparr>\<rparr>)" by code_simp
  ultimately have "spec_diff (max_orders sample_book) ?d (order_map sample_book) =
      Inr ((order_map sample_book)(''b1'' \<mapsto> sample_bid\<lparr>remaining := \<lparr>raw = 3, scale = 0\<rparr>\<rparr>))"
    by simp
  with order_book_diff_refines [OF sample_reach sample_health seq, where d = ?d and h = 8] good sample_health
  show ?thesis using seq by (simp add: sample_sequence)
qed

lemma snapshot_installs:
  assumes good: "health (apply_snapshot seq h orders b) = Healthy"
  shows "set (active_orders (apply_snapshot seq h orders b)) = set orders
    \<and> distinct (map order_id orders) \<and> (\<forall>r \<in> set orders. order_pos r) \<and> length orders \<le> max_orders b
    \<and> sequence (apply_snapshot seq h orders b) = seq \<and> as_of_block (apply_snapshot seq h orders b) = h"
proof -
  have len: "length orders \<le> max_orders b"
    using good by (auto simp: apply_snapshot_def Let_def mark_red_def split: if_splits)
  obtain c where c: "rfold (\<lambda>r. insert_active r True) orders (cleared seq h b) = Inr c"
    "apply_snapshot seq h orders b = c"
    using good len by (auto simp: apply_snapshot_def cleared_def Let_def mark_red_def split: sum.splits)
  note ins = insert_all [OF c(1) core_ok_cleared]
  have set: "set (active_orders c) = set orders" "length (by_id c) = length orders"
    using ins(4,5) by (simp_all add: cleared_def active_orders_def bt_values_def)
  have inv: "index_inv c" using ins(1) by (simp add: core_ok_def)
  have "card (order_id ` set orders) = length (map order_id orders)"
    using order_map_card [OF inv] order_map_dom [OF inv] set by simp
  then have "distinct (map order_id orders)" by (metis card_distinct list.set_map)
  then show ?thesis
    using ins(1,2) set len c(2) by (auto simp: core_ok_def same_frame_def cleared_def)
qed

text \<open>
  A snapshot that leaves the book healthy puts exactly its orders there, under the given
  sequence number and block, all with different ids and positive, within the bound; and a
  book that leaves the healthy state, or misses a sequence number, is emptied.
\<close>

theorem order_book_snapshot:
  "(health (apply_snapshot seq h orders b) = Healthy \<longrightarrow>
      set (active_orders (apply_snapshot seq h orders b)) = set orders
      \<and> distinct (map order_id orders) \<and> (\<forall>r \<in> set orders. order_pos r)
      \<and> length orders \<le> max_orders b
      \<and> sequence (apply_snapshot seq h orders b) = seq
      \<and> as_of_block (apply_snapshot seq h orders b) = h)
   \<and> (health b = Healthy \<longrightarrow> seq \<noteq> saturating_succ (sequence b) \<longrightarrow>
      health (apply_diff seq h d b) = Red ''sequence gap''
      \<and> active_orders (apply_diff seq h d b) = [])"
proof -
  show ?thesis using snapshot_installs [of seq h orders b]
    by (simp add: apply_diff_def mark_red_def active_orders_def bt_values_def)
qed

theorem order_book_snapshot_witness:
  "health (apply_snapshot 1 7 [sample_bid, sample_ask] (awaiting_snapshot_bounded ''BTC'' 0 10)) = Healthy
   \<and> set (active_orders sample_book) = {sample_bid, sample_ask}
   \<and> health (apply_diff 5 8 (Cancel ''b1'') sample_book) = Red ''sequence gap''"
proof -
  have "\<not> 5 = saturating_succ (sequence sample_book)" by code_simp
  then show ?thesis
    using order_book_snapshot [of 1 7 "[sample_bid, sample_ask]" "awaiting_snapshot_bounded ''BTC'' 0 10"]
      order_book_snapshot [where seq = 5 and h = 8 and b = sample_book and d = "Cancel ''b1''"] sample_health
    by (simp add: sample_book_def)
qed

text \<open>
  C25. The published price levels of a healthy book are exact: every level's quantity is the
  sum of the remaining sizes of the resting orders at that price and its count their number,
  every resting order is in a level, bids are listed from the highest price down and asks
  from the lowest price up, without duplicates.
\<close>

theorem order_book_levels_exact:
  assumes "book_reach b" and "health b = Healthy"
  shows "l2_exact (bt_values (bids b)) (l2_bids b) \<and> l2_exact (bt_values (asks b)) (l2_asks b)
    \<and> sorted_wrt (\<lambda>x y. dec_value (l2_price y) < dec_value (l2_price x)) (l2_bids b)
    \<and> sorted_wrt (\<lambda>x y. dec_value (l2_price x) < dec_value (l2_price y)) (l2_asks b)"
proof -
  have "assert_invariants b = Inr ()" using book_reach_ok [OF assms(1)] assms(2) by (simp add: book_ok_def)
  then obtain x y where x: "aggregate_l2 (bt_values (bids b)) True = Inr x"
    and y: "aggregate_l2 (bt_values (asks b)) False = Inr y"
    by (auto simp: assert_invariants_def result_simps split: if_splits)
  show ?thesis using aggregate_l2_exact [OF x] aggregate_l2_exact [OF y] x y
    by (simp add: l2_bids_def l2_asks_def)
qed

theorem order_book_levels_exact_witness:
  "health sample_book = Healthy \<and> length (l2_bids sample_book) = 1
   \<and> l2_exact (bt_values (bids sample_book)) (l2_bids sample_book)"
proof -
  have "length (l2_bids sample_book) = 1" by code_simp
  then show ?thesis using order_book_levels_exact [OF sample_reach sample_health] sample_health by simp
qed

end
