(* ===== verification/Execution_Quote.thy ===== *)
theory Execution_Quote
  imports Exact_Notional Order_Book
begin

text \<open>
  The execution estimate of \<^verbatim>\<open>crates/orderbook/src/execution.rs\<close>: a market order is walked
  through the visible price levels of the opposite side, and the average price, the spread
  and the impact are returned only when they are exact.
\<close>

section \<open>The estimate\<close>

record latency_distribution =
  p10_micros :: u64
  p50_micros :: u64
  p90_micros :: u64
  p99_micros :: u64

record execution_request =
  rq_market_id :: market_id
  rq_side :: order_side
  rq_quantity :: decimal
  max_participation :: probability_ppm
  fee_schedule_id :: string
  exit_stress_multiplier :: probability_ppm

record execution_estimate =
  fill_probability :: probability_ppm
  expected_fill_quantity :: decimal
  p10_vwap :: decimal
  p50_vwap :: decimal
  p90_vwap :: decimal
  spread_bps :: decimal
  impact_bps :: decimal
  queue_uncertainty :: probability_ppm
  time_to_fill :: latency_distribution
  normal_exit_cost_bps :: decimal
  stressed_exit_cost_bps :: decimal
  capacity_by_cost :: "(decimal, decimal) btree"
  est_as_of_block :: block_height

datatype execution_error =
    BookNotHealthy
  | MarketMismatch
  | InvalidQuantity
  | InsufficientLiquidity
  | UnsupportedAssumption string
  | InexactMetric

definition FEE_SCHEDULE_NONE :: string where
  "FEE_SCHEDULE_NONE = ''none''"

definition FEE_SCHEDULE_TAKER_100BPS_V1 :: string where
  "FEE_SCHEDULE_TAKER_100BPS_V1 = ''taker-100bps@1.0.0''"

definition latency_is_point_estimate :: "latency_distribution \<Rightarrow> bool" where
  "latency_is_point_estimate l \<longleftrightarrow>
     p10_micros l = p50_micros l \<and> p50_micros l = p90_micros l \<and> p90_micros l = p99_micros l"

definition taker_fee_bps :: "string \<Rightarrow> execution_error + decimal" where
  "taker_fee_bps schedule =
     rbind (if schedule = FEE_SCHEDULE_NONE then Inr 0
            else if schedule = FEE_SCHEDULE_TAKER_100BPS_V1 then Inr 100
            else Inl (UnsupportedAssumption ''unknown fee schedule'')) (\<lambda>r.
     map_err (\<lambda>_. InexactMetric) (from_raw r 0))"

text \<open>\<^verbatim>\<open>BigInt\<close> division truncates toward zero.\<close>

definition scale_i128 :: "int \<Rightarrow> probability_ppm \<Rightarrow> execution_error + int" where
  "scale_i128 v p =
     (let product = v * uint p; denominator = 1000000;
          quotient = product sdiv denominator; remainder = product - quotient * denominator in
      if remainder \<noteq> 0 then Inl InexactMetric else ok_or InexactMetric (to_i128 quotient))"

definition scale_quantity :: "decimal \<Rightarrow> probability_ppm \<Rightarrow> execution_error + decimal" where
  "scale_quantity q p =
     rbind (scale_i128 (raw q) p) (\<lambda>r.
     if r \<le> 0 then Inl InvalidQuantity
     else map_err (\<lambda>_. InvalidQuantity) (from_raw r (scale q)))"

definition scale_bps :: "decimal \<Rightarrow> probability_ppm \<Rightarrow> execution_error + decimal" where
  "scale_bps b p =
     rbind (scale_i128 (raw b) p) (\<lambda>r. map_err (\<lambda>_. InexactMetric) (from_raw r (scale b)))"

definition usd_from_notional :: "exact_quote_notional \<Rightarrow> execution_error + decimal" where
  "usd_from_notional n =
     rbind (ok_or InexactMetric (to_i128 (coefficient n))) (\<lambda>r.
     map_err (\<lambda>_. InexactMetric) (from_raw r (notional_scale n)))"

definition exact_vwap :: "exact_quote_notional option \<Rightarrow> decimal \<Rightarrow> execution_error + decimal" where
  "exact_vwap notional filled =
     rbind (ok_or InsufficientLiquidity notional) (\<lambda>n.
     if raw filled = 0 then Inl InvalidQuantity
     else
       let numerator = coefficient n; denominator = raw filled;
           quotient = numerator sdiv denominator;
           remainder = numerator - numerator sdiv denominator * denominator in
       if remainder \<noteq> 0 then Inl InexactMetric
       else
         rbind (if notional_scale n < scale filled then Inl InexactMetric
                else Inr (notional_scale n - scale filled)) (\<lambda>vwap_scale.
         rbind (ok_or InexactMetric (to_i128 quotient)) (\<lambda>r.
         map_err (\<lambda>_. InexactMetric) (from_raw r vwap_scale))))"

definition ratio_to_bps :: "int \<Rightarrow> int \<Rightarrow> int \<Rightarrow> execution_error + decimal" where
  "ratio_to_bps numerator denominator factor =
     (if denominator = 0 then Inl InexactMetric
      else
        let product = numerator * factor; quotient = product sdiv denominator;
            remainder = product - quotient * denominator in
        if remainder \<noteq> 0 then Inl InexactMetric
        else rbind (ok_or InexactMetric (to_i128 quotient)) (\<lambda>r.
          map_err (\<lambda>_. InexactMetric) (from_raw r 0)))"

definition exact_spread_bps :: "decimal \<Rightarrow> decimal \<Rightarrow> execution_error + decimal" where
  "exact_spread_bps bid ask =
     (if scale bid \<noteq> scale ask then Inl InexactMetric
      else
        rbind (map_err (\<lambda>_. InexactMetric) (checked_sub ask bid)) (\<lambda>diff.
        rbind (map_err (\<lambda>_. InexactMetric) (checked_add ask bid)) (\<lambda>sum.
        ratio_to_bps (raw diff) (raw sum) 20000)))"

definition exact_impact_bps :: "decimal \<Rightarrow> decimal \<Rightarrow> decimal \<Rightarrow> execution_error + decimal" where
  "exact_impact_bps vwap bid ask =
     (if scale vwap \<noteq> scale bid \<or> scale vwap \<noteq> scale ask then Inl InexactMetric
      else
        rbind (ok_or InexactMetric (to_i128 (raw vwap * 2))) (\<lambda>twice_vwap.
        rbind (ok_or InexactMetric (to_i128 (raw ask + raw bid))) (\<lambda>sum.
        rbind (ok_or InexactMetric (to_i128 (twice_vwap - sum))) (\<lambda>numer.
        ratio_to_bps numer sum 10000))))"

text \<open>The variables the loop over the levels changes.\<close>

record walk =
  w_remaining :: decimal
  w_filled :: decimal
  w_notional :: "exact_quote_notional option"
  w_capacity :: "(decimal, decimal) btree"

definition walk_level :: "decimal \<Rightarrow> decimal \<Rightarrow> l2_level \<Rightarrow> walk \<Rightarrow> execution_error + walk" where
  "walk_level bid ask level w =
     (let take = (if raw (w_remaining w) \<le> raw (l2_quantity level) then w_remaining w
                  else l2_quantity level) in
      rbind (map_err (\<lambda>_. InsufficientLiquidity) (checked_product (l2_price level) take))
        (\<lambda>level_notional.
      rbind (case w_notional w of
               Some existing \<Rightarrow>
                 map_err (\<lambda>_. InsufficientLiquidity) (notional_checked_add existing level_notional)
             | None \<Rightarrow> Inr level_notional) (\<lambda>notional.
      rbind (map_err (\<lambda>_. InsufficientLiquidity) (checked_add (w_filled w) take)) (\<lambda>filled.
      rbind (map_err (\<lambda>_. InsufficientLiquidity) (checked_sub (w_remaining w) take)) (\<lambda>remaining.
      rbind (exact_vwap (Some notional) filled) (\<lambda>prefix_vwap.
      rbind (exact_impact_bps prefix_vwap bid ask) (\<lambda>prefix_impact.
      rbind (usd_from_notional notional) (\<lambda>prefix_usd.
      Inr \<lparr>w_remaining = remaining, w_filled = filled, w_notional = Some notional,
           w_capacity = bt_insert decimal_lt prefix_impact prefix_usd (w_capacity w)\<rparr>))))))))"

fun walk_levels :: "decimal \<Rightarrow> decimal \<Rightarrow> l2_level list \<Rightarrow> walk \<Rightarrow> execution_error + walk" where
  "walk_levels bid ask [] w = Inr w"
| "walk_levels bid ask (level # levels) w =
     (if raw (w_remaining w) = 0 then Inr w
      else rbind (walk_level bid ask level w) (walk_levels bid ask levels))"

definition opposite_levels :: "order_side \<Rightarrow> order_book \<Rightarrow> l2_level list" where
  "opposite_levels s b = (case s of Buy \<Rightarrow> l2_asks b | Sell \<Rightarrow> l2_bids b)"

definition quote_execution ::
  "order_book \<Rightarrow> execution_request \<Rightarrow> latency_distribution \<Rightarrow> execution_error + execution_estimate" where
  "quote_execution b rq latency =
     (if health b \<noteq> Healthy then Inl BookNotHealthy
      else if rq_market_id rq \<noteq> market_id b then Inl MarketMismatch
      else if raw (rq_quantity rq) \<le> 0 then Inl InvalidQuantity
      else if \<not> latency_is_point_estimate latency
      then Inl (UnsupportedAssumption ''latency-dependent fill times are unmodeled'')
      else
        rbind (taker_fee_bps (fee_schedule_id rq)) (\<lambda>fee_bps.
        rbind (scale_quantity (rq_quantity rq) (max_participation rq)) (\<lambda>quantity.
        rbind (case (best_bid b, best_ask b) of
                 (Some bid, Some ask) \<Rightarrow> Inr (price bid, price ask)
               | _ \<Rightarrow> Inl (UnsupportedAssumption ''spread and impact require a two-sided book''))
          (\<lambda>(bid, ask).
        rbind (map_err (\<lambda>_. InvalidQuantity) (from_raw 0 (scale quantity))) (\<lambda>zero.
        rbind (walk_levels bid ask (opposite_levels (rq_side rq) b)
                 \<lparr>w_remaining = quantity, w_filled = zero, w_notional = None, w_capacity = []\<rparr>) (\<lambda>w.
        if raw (w_remaining w) \<noteq> 0 then Inl InsufficientLiquidity
        else
          rbind (exact_vwap (w_notional w) (w_filled w)) (\<lambda>vwap.
          rbind (exact_spread_bps bid ask) (\<lambda>spread.
          rbind (exact_impact_bps vwap bid ask) (\<lambda>impact.
          if w_capacity w = [] then Inl InexactMetric
          else
            rbind (map_err (\<lambda>_. InexactMetric) (checked_add spread fee_bps)) (\<lambda>normal.
            rbind (scale_bps normal (exit_stress_multiplier rq)) (\<lambda>stressed.
            Inr \<lparr>fill_probability = 1000000, expected_fill_quantity = w_filled w, p10_vwap = vwap,
                 p50_vwap = vwap, p90_vwap = vwap, spread_bps = spread, impact_bps = impact,
                 queue_uncertainty = 0, time_to_fill = latency, normal_exit_cost_bps = normal,
                 stressed_exit_cost_bps = stressed, capacity_by_cost = w_capacity w,
                 est_as_of_block = as_of_block b\<rparr>)))))))))))"

section \<open>What an order costs\<close>

text \<open>
  The specification: walk rational levels, best first, and pay for each what is still needed
  or all of it; no cost when the levels do not suffice.
\<close>

fun fill_cost :: "(rat \<times> rat) list \<Rightarrow> rat \<Rightarrow> rat option" where
  "fill_cost [] q = (if q = 0 then Some 0 else None)"
| "fill_cost ((p, s) # ls) q =
     (if q = 0 then Some 0
      else if q \<le> s then Some (p * q)
      else map_option (\<lambda>c. p * s + c) (fill_cost ls (q - s)))"

definition level_values :: "l2_level list \<Rightarrow> (rat \<times> rat) list" where
  "level_values ls = map (\<lambda>l. (dec_value (l2_price l), dec_value (l2_quantity l))) ls"

lemma scale_i128_exact:
  "scale_i128 v p = Inr r \<Longrightarrow> of_int r = (of_int v * of_int (uint p) / 1000000 :: rat)"
proof -
  assume "scale_i128 v p = Inr r"
  then have "v * uint p = r * 1000000"
    by (auto simp: scale_i128_def Let_def result_simps split: if_splits)
  then have "(of_int (v * uint p) :: rat) = of_int (r * 1000000)" by simp
  then show ?thesis by simp
qed

lemma scale_quantity_exact:
  "scale_quantity q p = Inr r \<Longrightarrow>
     scale r = scale q \<and> 0 < raw r \<and> dec_value r = dec_value q * of_int (uint p) / 1000000"
  by (auto simp: scale_quantity_def result_simps dec_value_def scale_i128_exact split: if_splits)

lemma scale_bps_exact:
  "scale_bps q p = Inr r \<Longrightarrow> dec_value r = dec_value q * of_int (uint p) / 1000000"
  by (auto simp: scale_bps_def result_simps dec_value_def scale_i128_exact)

lemma usd_from_notional_exact:
  "usd_from_notional n = Inr u \<Longrightarrow> dec_value u = notional_value n"
  by (auto simp: usd_from_notional_def result_simps dec_value_def notional_value_def)

lemma exact_vwap_exact:
  assumes "exact_vwap (Some n) filled = Inr v"
  shows "dec_value v * dec_value filled = notional_value n"
proof -
  have v: "coefficient n = raw v * raw filled" "scale v = notional_scale n - scale filled"
    "scale filled \<le> notional_scale n"
    using assms by (auto simp: exact_vwap_def Let_def result_simps split: if_splits)
  have "(10 :: rat) ^ notional_scale n = 10 ^ scale v * 10 ^ scale filled"
    using v(2,3) by (simp flip: power_add)
  then show ?thesis using v(1) by (simp add: dec_value_def notional_value_def)
qed

lemma ratio_to_bps_exact:
  assumes "ratio_to_bps n d t = Inr r"
  shows "d \<noteq> 0" and "scale r = 0" and "raw r * d = n * t"
  using assms by (auto simp: ratio_to_bps_def Let_def result_simps split: if_splits)

lemma exact_spread_exact:
  assumes "exact_spread_bps bid ask = Inr r"
  shows "dec_value r * (dec_value ask + dec_value bid) = 20000 * (dec_value ask - dec_value bid)"
proof -
  have s: "scale bid = scale ask" and r: "ratio_to_bps (raw ask - raw bid) (raw ask + raw bid) 20000 = Inr r"
    using assms by (auto simp: exact_spread_bps_def result_simps checked_sub_exact checked_add_exact split: if_splits)
  have "(of_int (raw r * (raw ask + raw bid)) :: rat) = of_int ((raw ask - raw bid) * 20000)"
    using ratio_to_bps_exact(3) [OF r] by simp
  then show ?thesis using s ratio_to_bps_exact(2) [OF r] by (simp add: dec_value_def field_simps)
qed

lemma exact_impact_exact:
  assumes "exact_impact_bps v bid ask = Inr r"
  shows "dec_value r * (dec_value ask + dec_value bid) = 10000 * (2 * dec_value v - (dec_value ask + dec_value bid))"
proof -
  have s: "scale v = scale bid" "scale v = scale ask"
    and r: "ratio_to_bps (raw v * 2 - (raw ask + raw bid)) (raw ask + raw bid) 10000 = Inr r"
    using assms by (auto simp: exact_impact_bps_def result_simps split: if_splits)
  have "(of_int (raw r * (raw ask + raw bid)) :: rat) = of_int ((raw v * 2 - (raw ask + raw bid)) * 10000)"
    using ratio_to_bps_exact(3) [OF r] by simp
  then show ?thesis using s ratio_to_bps_exact(2) [OF r] by (simp add: dec_value_def field_simps)
qed

text \<open>The value of the accumulated notional, and that the capacity table ends with it.\<close>

definition spent :: "walk \<Rightarrow> rat" where
  "spent w = (case w_notional w of Some n \<Rightarrow> notional_value n | None \<Rightarrow> 0)"

definition capacity_ok :: "decimal \<Rightarrow> decimal \<Rightarrow> walk \<Rightarrow> bool" where
  "capacity_ok bid ask w \<longleftrightarrow> bt_sorted decimal_lt (w_capacity w) \<and>
     (\<forall>n v i. w_notional w = Some n \<longrightarrow> exact_vwap (Some n) (w_filled w) = Inr v \<longrightarrow>
        exact_impact_bps v bid ask = Inr i \<longrightarrow>
        (\<exists>u. bt_get decimal_lt i (w_capacity w) = Some u \<and> dec_value u = notional_value n))"

lemma walk_level_exact:
  assumes "walk_level bid ask l w = Inr w'"
  defines "t \<equiv> (if raw (w_remaining w) \<le> raw (l2_quantity l) then w_remaining w else l2_quantity l)"
  shows "spent w' = spent w + dec_value (l2_price l) * dec_value t"
    and "scale t = scale (w_remaining w) \<and> scale (w_filled w) = scale t"
    and "w_remaining w' = \<lparr>raw = raw (w_remaining w) - raw t, scale = scale t\<rparr>"
    and "w_filled w' = \<lparr>raw = raw (w_filled w) + raw t, scale = scale t\<rparr>"
    and "bt_sorted decimal_lt (w_capacity w) \<Longrightarrow> capacity_ok bid ask w'"
proof -
  obtain ln n v i u where h: "checked_product (l2_price l) t = Inr ln"
    "(case w_notional w of Some e \<Rightarrow> map_err (\<lambda>_. InsufficientLiquidity) (notional_checked_add e ln) | None \<Rightarrow> Inr ln) = Inr n"
    "scale (w_filled w) = scale t" "scale (w_remaining w) = scale t"
    "exact_vwap (Some n) (w_filled w') = Inr v" "exact_impact_bps v bid ask = Inr i"
    "usd_from_notional n = Inr u"
    and w': "w' = \<lparr>w_remaining = \<lparr>raw = raw (w_remaining w) - raw t, scale = scale t\<rparr>,
      w_filled = \<lparr>raw = raw (w_filled w) + raw t, scale = scale t\<rparr>, w_notional = Some n,
      w_capacity = bt_insert decimal_lt i u (w_capacity w)\<rparr>"
    using assms(1) unfolding walk_level_def Let_def t_def [symmetric]
    by (auto simp: rbind_Inr_iff map_err_Inr_iff checked_add_exact checked_sub_exact)
  have "notional_value n = spent w + notional_value ln"
    using h(2) by (auto simp: spent_def result_simps notional_checked_add_value split: option.splits)
  then show "spent w' = spent w + dec_value (l2_price l) * dec_value t"
    using checked_product_exact [OF h(1)] by (simp add: w' spent_def)
  show "scale t = scale (w_remaining w) \<and> scale (w_filled w) = scale t"
    "w_remaining w' = \<lparr>raw = raw (w_remaining w) - raw t, scale = scale t\<rparr>"
    "w_filled w' = \<lparr>raw = raw (w_filled w) + raw t, scale = scale t\<rparr>"
    using h(3,4) by (simp_all add: w')
  show "capacity_ok bid ask w'" if "bt_sorted decimal_lt (w_capacity w)"
    using that h(5,6) usd_from_notional_exact [OF h(7)]
    by (auto simp: capacity_ok_def w' dec.bt_sorted_insert)
qed

lemma walk_levels_exact:
  assumes "walk_levels bid ask ls w = Inr w'" and "raw (w_remaining w') = 0"
    and "\<forall>l \<in> set ls. scale (l2_quantity l) = scale (w_remaining w)"
    and "scale (w_filled w) = scale (w_remaining w)" and "capacity_ok bid ask w"
  shows "fill_cost (level_values ls) (dec_value (w_remaining w)) = Some (spent w' - spent w)
    \<and> dec_value (w_filled w') = dec_value (w_filled w) + dec_value (w_remaining w)
    \<and> scale (w_filled w') = scale (w_filled w) \<and> capacity_ok bid ask w'"
  using assms
proof (induction ls arbitrary: w)
  case Nil
  then show ?case by (auto simp: level_values_def dec_value_def)
next
  case (Cons l ls)
  show ?case
  proof (cases "raw (w_remaining w) = 0")
    case True
    with Cons.prems show ?thesis by (auto simp: level_values_def dec_value_def)
  next
    case False
    then obtain w1 where w1: "walk_level bid ask l w = Inr w1" "walk_levels bid ask ls w1 = Inr w'"
      using Cons.prems(1) by (auto simp: rbind_Inr_iff)
    define t where "t = (if raw (w_remaining w) \<le> raw (l2_quantity l) then w_remaining w else l2_quantity l)"
    note step = walk_level_exact [OF w1(1), folded t_def]
    have sl: "scale (l2_quantity l) = scale (w_remaining w)" using Cons.prems(3) by simp
    have cap: "capacity_ok bid ask w1" using step(5) Cons.prems(5) by (simp add: capacity_ok_def)
    have ih: "fill_cost (level_values ls) (dec_value (w_remaining w1)) = Some (spent w' - spent w1)
      \<and> dec_value (w_filled w') = dec_value (w_filled w1) + dec_value (w_remaining w1)
      \<and> scale (w_filled w') = scale (w_filled w1) \<and> capacity_ok bid ask w'"
    proof (rule Cons.IH [OF w1(2) Cons.prems(2) _ _ cap])
      show "scale (w_filled w1) = scale (w_remaining w1)" using step(3,4) by simp
      show "\<forall>l \<in> set ls. scale (l2_quantity l) = scale (w_remaining w1)"
        using step(2,3) Cons.prems(3) by simp
    qed
    have vals: "dec_value (w_remaining w1) = dec_value (w_remaining w) - dec_value t"
      "dec_value (w_filled w1) = dec_value (w_filled w) + dec_value t"
      using step(2,3,4) by (simp_all add: dec_value_def diff_divide_distrib add_divide_distrib)
    have cmp: "dec_value (w_remaining w) \<le> dec_value (l2_quantity l) \<longleftrightarrow> raw (w_remaining w) \<le> raw (l2_quantity l)"
      by (simp add: dec_value_def sl divide_le_cancel)
    have nz: "dec_value (w_remaining w) \<noteq> 0" using False by (simp add: dec_value_def)
    have "fill_cost (level_values (l # ls)) (dec_value (w_remaining w)) = Some (spent w' - spent w)"
    proof (cases "raw (w_remaining w) \<le> raw (l2_quantity l)")
      case True
      then have "dec_value (w_remaining w1) = 0" using vals by (simp add: t_def)
      then have "spent w' = spent w1" using ih by (cases ls) (auto simp: level_values_def)
      then show ?thesis using True cmp nz step(1) by (simp add: level_values_def t_def)
    next
      case False
      then show ?thesis using cmp nz step(1) ih vals by (simp add: level_values_def t_def)
    qed
    then show ?thesis using ih vals step(2,4) by simp
  qed
qed

lemma quote_execution_Inr:
  assumes "quote_execution b rq lat = Inr e"
  obtains bid ask fee q w where
    "best_bid b = Some bid" "best_ask b = Some ask" "health b = Healthy"
    "taker_fee_bps (fee_schedule_id rq) = Inr fee"
    "scale_quantity (rq_quantity rq) (max_participation rq) = Inr q"
    "walk_levels (price bid) (price ask) (opposite_levels (rq_side rq) b)
       \<lparr>w_remaining = q, w_filled = \<lparr>raw = 0, scale = scale q\<rparr>, w_notional = None, w_capacity = []\<rparr> = Inr w"
    "raw (w_remaining w) = 0" "exact_vwap (w_notional w) (w_filled w) = Inr (p50_vwap e)"
    "exact_spread_bps (price bid) (price ask) = Inr (spread_bps e)"
    "exact_impact_bps (p50_vwap e) (price bid) (price ask) = Inr (impact_bps e)"
    "checked_add (spread_bps e) fee = Inr (normal_exit_cost_bps e)"
    "scale_bps (normal_exit_cost_bps e) (exit_stress_multiplier rq) = Inr (stressed_exit_cost_bps e)"
    "expected_fill_quantity e = w_filled w" "capacity_by_cost e = w_capacity w"
  using assms unfolding quote_execution_def
  by (auto simp: rbind_Inr_iff map_err_Inr_iff from_raw_Inr_iff split: if_splits option.splits)


definition sample_request :: execution_request where
  "sample_request = \<lparr>rq_market_id = ''BTC'', rq_side = Buy, rq_quantity = \<lparr>raw = 5, scale = 0\<rparr>,
     max_participation = 1000000, fee_schedule_id = ''none'', exit_stress_multiplier = 1000000\<rparr>"

definition sample_latency :: latency_distribution where
  "sample_latency = \<lparr>p10_micros = 1, p50_micros = 1, p90_micros = 1, p99_micros = 1\<rparr>"

text \<open>A book with one bid at 60 and one ask at 100, with the size of the ask given.\<close>

definition one_ask_book :: "decimal \<Rightarrow> order_book" where
  "one_ask_book q = apply_snapshot 1 7
     [new_order ''b1'' Buy \<lparr>raw = 60, scale = 0\<rparr> \<lparr>raw = 5, scale = 0\<rparr> 1,
      new_order ''a1'' Sell \<lparr>raw = 100, scale = 0\<rparr> q 2] (awaiting_snapshot_bounded ''BTC'' 0 10)"



end
