(* ===== verification/L2_Reconcile.thy ===== *)
theory L2_Reconcile
  imports Order_Book
begin

text \<open>
  Comparison of the derived price levels with the official ones,
  \<^verbatim>\<open>crates/orderbook/src/reconcile.rs\<close>: clocks within the policy's skew, the same levels, and
  prices and sizes aligned to the tick and the lot of the market.
\<close>

definition L2_RECONCILE_POLICY_V1 :: string where
  "L2_RECONCILE_POLICY_V1 = ''hyperliquid-alpha-desk/l2-reconcile-policy/v1''"

definition L2_RECONCILE_MAX_TIME_SKEW_MILLIS_V1 :: u64 where
  "L2_RECONCILE_MAX_TIME_SKEW_MILLIS_V1 = 1000"

record l2_reconcile_policy =
  policy_version :: string
  max_time_skew_millis :: u64
  tick_size :: "decimal option"
  lot_size :: "decimal option"

definition policy_exact :: l2_reconcile_policy where
  "policy_exact = \<lparr>policy_version = L2_RECONCILE_POLICY_V1, max_time_skew_millis = 0,
     tick_size = None, lot_size = None\<rparr>"

definition policy_for_market :: "decimal \<Rightarrow> decimal \<Rightarrow> l2_reconcile_policy" where
  "policy_for_market tick lot = \<lparr>policy_version = L2_RECONCILE_POLICY_V1,
     max_time_skew_millis = L2_RECONCILE_MAX_TIME_SKEW_MILLIS_V1,
     tick_size = Some tick, lot_size = Some lot\<rparr>"

datatype l2_reconcile_decision = Match | Quarantine string

definition saturating_mul_i128 :: "int \<Rightarrow> int \<Rightarrow> int" where
  "saturating_mul_i128 a b = max i128_min (min i128_max (a * b))"

definition pow10_i128 :: "nat \<Rightarrow> int" where
  "pow10_i128 e = (case to_i128 (10 ^ e) of Some x \<Rightarrow> x | None \<Rightarrow> 0)"

definition aligned :: "int \<Rightarrow> int \<Rightarrow> nat \<Rightarrow> nat \<Rightarrow> bool" where
  "aligned v unit value_scale unit_scale =
     (if unit \<le> 0 then False
      else
        let (left, right, scale_ok) =
          (case cmp value_scale unit_scale of
             Equal \<Rightarrow> (v, unit, True)
           | Greater \<Rightarrow> let factor = pow10_i128 (value_scale - unit_scale) in
               (v, saturating_mul_i128 unit factor, factor \<noteq> 0)
           | Less \<Rightarrow> let factor = pow10_i128 (unit_scale - value_scale) in
               (saturating_mul_i128 v factor, unit, factor \<noteq> 0))
        in scale_ok \<and> right \<noteq> 0 \<and> left smod right = 0)"

definition abs_diff :: "u64 \<Rightarrow> u64 \<Rightarrow> u64" where
  "abs_diff a b = (if a < b then b - a else a - b)"

definition timing_ok :: "u64 option \<Rightarrow> u64 option \<Rightarrow> l2_reconcile_policy \<Rightarrow> string + unit" where
  "timing_ok derived official policy =
     (case (derived, official) of
        (None, None) \<Rightarrow> Inr ()
      | (Some left, Some right) \<Rightarrow>
          if abs_diff left right > max_time_skew_millis policy
          then Inl ''official l2 timing skew exceeds policy'' else Inr ()
      | _ \<Rightarrow> Inl ''official l2 clock is not comparable'')"

definition misaligned :: "decimal \<Rightarrow> decimal option \<Rightarrow> bool" where
  "misaligned v unit =
     (case unit of
        Some u \<Rightarrow> \<not> aligned (raw v) (raw u) (scale v) (scale u)
      | None \<Rightarrow> False)"

definition level_ok ::
  "string \<Rightarrow> l2_reconcile_policy \<Rightarrow> l2_level \<times> l2_level \<Rightarrow> unit \<Rightarrow> string + unit" where
  "level_ok s policy = (\<lambda>(want, got) _.
     if \<not> decimal_eq (l2_price want) (l2_price got) then Inl (s @ '' price diverges'')
     else if \<not> decimal_eq (l2_quantity want) (l2_quantity got) then Inl (s @ '' size diverges'')
     else if order_count want \<noteq> order_count got then Inl (s @ '' order count diverges'')
     else if misaligned (l2_price got) (tick_size policy) then Inl (s @ '' price is not tick aligned'')
     else if misaligned (l2_quantity got) (lot_size policy) then Inl (s @ '' size is not lot aligned'')
     else Inr ())"

definition reconcile_levels_ok ::
  "l2_level list \<Rightarrow> l2_level list \<Rightarrow> string \<Rightarrow> l2_reconcile_policy \<Rightarrow> string + unit" where
  "reconcile_levels_ok derived official s policy =
     (if length derived \<noteq> length official then Inl (s @ '' level count diverges'')
      else rfold (level_ok s policy) (zip derived official) ())"

definition reconcile_derived_l2 ::
  "l2_level list \<Rightarrow> l2_level list \<Rightarrow> l2_level list \<Rightarrow> l2_level list \<Rightarrow> u64 option \<Rightarrow> u64 option
     \<Rightarrow> l2_reconcile_policy \<Rightarrow> l2_reconcile_decision" where
  "reconcile_derived_l2 derived_bids derived_asks official_bids official_asks derived_time official_time policy =
     (case timing_ok derived_time official_time policy of
        Inl reason \<Rightarrow> Quarantine reason
      | Inr _ \<Rightarrow>
     (case reconcile_levels_ok derived_bids official_bids ''bid'' policy of
        Inl reason \<Rightarrow> Quarantine reason
      | Inr _ \<Rightarrow>
     (case reconcile_levels_ok derived_asks official_asks ''ask'' policy of
        Inl reason \<Rightarrow> Quarantine reason
      | Inr _ \<Rightarrow> Match)))"

section \<open>Alignment is divisibility of the numbers\<close>

definition multiple_of :: "decimal \<Rightarrow> decimal \<Rightarrow> bool" where
  "multiple_of v u \<longleftrightarrow> 0 < raw u \<and> (\<exists>k :: int. dec_value v = of_int k * dec_value u)"

text \<open>No product of the comparison leaves the 128-bit range.\<close>

definition no_saturation :: "decimal \<Rightarrow> decimal \<Rightarrow> bool" where
  "no_saturation v u \<longleftrightarrow> scale v \<le> MAX_DECIMAL_SCALE \<and> scale u \<le> MAX_DECIMAL_SCALE
     \<and> in_i128 (raw v * 10 ^ (scale u - scale v)) \<and> in_i128 (raw u * 10 ^ (scale v - scale u))"

lemma saturating_mul_id: "in_i128 (a * b) \<Longrightarrow> saturating_mul_i128 a b = a * b"
  by (simp add: saturating_mul_i128_def in_i128_def)

lemma pow10_i128_eq: "e \<le> MAX_DECIMAL_SCALE \<Longrightarrow> pow10_i128 e = 10 ^ e"
proof -
  assume e: "e \<le> MAX_DECIMAL_SCALE"
  then have "(10 :: int) ^ e \<le> 10 ^ 38" by (intro power_increasing) (simp_all add: MAX_DECIMAL_SCALE_def)
  also have "\<dots> \<le> i128_max" by (simp add: i128_max_def)
  finally show ?thesis
    by (simp add: pow10_i128_def to_i128_def in_i128_def i128_min_def order_trans [OF _ zero_le_power])
qed

lemma multiple_of_iff:
  "multiple_of v u \<longleftrightarrow> 0 < raw u
     \<and> raw u * 10 ^ (scale v - scale u) dvd raw v * 10 ^ (scale u - scale v)"
proof -
  have "(dec_value v = of_int k * dec_value u) \<longleftrightarrow>
      raw v * 10 ^ (scale u - scale v) = raw u * 10 ^ (scale v - scale u) * k" for k
  proof -
    define a b where "a = scale u - scale v" and "b = scale v - scale u"
    have ab: "scale v + a = scale u + b" by (simp add: a_def b_def)
    have "dec_value v = of_int k * dec_value u \<longleftrightarrow>
        dec_value v * 10 ^ (scale v + a) = of_int k * dec_value u * 10 ^ (scale u + b)"
      unfolding ab by simp
    also have "\<dots> \<longleftrightarrow> (of_int (raw v * 10 ^ a) :: rat) = of_int (raw u * 10 ^ b * k)"
      by (simp add: dec_value_def power_add mult_ac)
    finally show ?thesis unfolding a_def b_def of_int_eq_iff .
  qed
  then show ?thesis by (auto simp: multiple_of_def dvd_def)
qed

lemma aligned_multiple:
  assumes "no_saturation v u"
  shows "aligned (raw v) (raw u) (scale v) (scale u) \<longleftrightarrow> multiple_of v u"
proof -
  have p: "pow10_i128 (scale v - scale u) = 10 ^ (scale v - scale u)"
    "pow10_i128 (scale u - scale v) = 10 ^ (scale u - scale v)"
    using assms by (auto intro!: pow10_i128_eq simp: no_saturation_def)
  show ?thesis
    using assms
    by (cases "scale v" "scale u" rule: linorder_cases)
       (auto simp: aligned_def multiple_of_iff p saturating_mul_id no_saturation_def smod_eq_0_iff cmp_def Let_def)
qed

section \<open>Properties\<close>

text \<open>What a matching pair of levels is.\<close>

definition same_level :: "l2_reconcile_policy \<Rightarrow> l2_level \<Rightarrow> l2_level \<Rightarrow> bool" where
  "same_level policy want got \<longleftrightarrow>
     dec_value (l2_price want) = dec_value (l2_price got)
     \<and> dec_value (l2_quantity want) = dec_value (l2_quantity got) \<and> order_count want = order_count got
     \<and> (\<forall>t. tick_size policy = Some t \<longrightarrow> multiple_of (l2_price got) t)
     \<and> (\<forall>t. lot_size policy = Some t \<longrightarrow> multiple_of (l2_quantity got) t)"

definition in_range :: "l2_reconcile_policy \<Rightarrow> l2_level list \<Rightarrow> bool" where
  "in_range policy ls \<longleftrightarrow> (\<forall>l \<in> set ls.
     (\<forall>t. tick_size policy = Some t \<longrightarrow> no_saturation (l2_price l) t)
     \<and> (\<forall>t. lot_size policy = Some t \<longrightarrow> no_saturation (l2_quantity l) t))"

definition time_close :: "u64 option \<Rightarrow> u64 option \<Rightarrow> u64 \<Rightarrow> bool" where
  "time_close a b skew \<longleftrightarrow>
     (case (a, b) of
        (None, None) \<Rightarrow> True
      | (Some x, Some y) \<Rightarrow> \<bar>uint x - uint y\<bar> \<le> uint skew
      | _ \<Rightarrow> False)"

lemma timing_ok_iff: "timing_ok a b policy = Inr () \<longleftrightarrow> time_close a b (max_time_skew_millis policy)"
proof -
  have "uint (abs_diff x y) = \<bar>uint x - uint y\<bar>" for x y
    by (auto simp: abs_diff_def word_less_def uint_sub_if_size)
  then show ?thesis
    by (auto simp: timing_ok_def time_close_def word_less_def split: option.splits)
qed

lemma level_ok_iff:
  assumes "in_range policy [got]"
  shows "level_ok s policy (want, got) x = Inr () \<longleftrightarrow> same_level policy want got"
  using assms
  by (auto simp: level_ok_def same_level_def in_range_def decimal_eq_value misaligned_def aligned_multiple
      split: option.splits)

lemma reconcile_levels_iff:
  "in_range policy official \<Longrightarrow>
   reconcile_levels_ok derived official s policy = Inr () \<longleftrightarrow> list_all2 (same_level policy) derived official"
proof -
  assume r: "in_range policy official"
  have "rfold (level_ok s policy) (zip derived official) () = Inr () \<longleftrightarrow> list_all2 (same_level policy) derived official"
    if "length derived = length official"
    using that r
  proof (induction derived official rule: list_induct2)
    case (Cons x xs y ys)
    have "in_range policy [y]" "in_range policy ys" using Cons.prems by (auto simp: in_range_def)
    then show ?case using Cons.IH level_ok_iff [of policy y s x "()"] by (auto simp: rbind_Inr_iff)
  qed simp
  then show ?thesis by (auto simp: reconcile_levels_ok_def list_all2_lengthD)
qed



end
