(* ===== verification/Codec_Library.thy ===== *)
theory Codec_Library
  imports Domain_Ids
begin

text \<open>
  The serialisation libraries the persistent records are written with, as parameters: one
  JSON serialiser per wire type and the hex codec, with the laws of their documentation that
  the code relies on, and concrete instances to evaluate with. What the sources check of
  texts beyond \<^verbatim>\<open>trim\<close>, control characters, is here too.
\<close>

section \<open>JSON\<close>

text \<open>A serialiser for one wire type: \<^verbatim>\<open>serde_json::to_vec\<close> and \<^verbatim>\<open>from_slice\<close>.\<close>

record 'w json =
  to_vec :: "'w \<Rightarrow> bytes option"
  from_slice :: "bytes \<Rightarrow> 'w option"

text \<open>Reading back what was written gives the value that was written; nothing is written as no bytes.\<close>

definition json_law :: "'w json \<Rightarrow> bool" where
  "json_law j \<longleftrightarrow> (\<forall>w b. to_vec j w = Some b \<longrightarrow> b \<noteq> [] \<and> from_slice j b = Some w)"

section \<open>Texts\<close>

text \<open>What the constructors of the \<^verbatim>\<open>string_id!\<close> types accept.\<close>

definition id_ok :: "string \<Rightarrow> bool" where
  "id_ok s \<longleftrightarrow> s \<noteq> [] \<and> is_trimmed s"

lemma id_ok_new [simp]: "id_ok s \<Longrightarrow> string_id_new s = Inr s"
  by (simp add: id_ok_def string_id_new_Inr)


text \<open>
  \<^verbatim>\<open>char::is_control\<close> on the bytes of a string: the codes below 32, the code 127, and the
  codes 128 to 159, which UTF-8 writes as the byte 194 and the code itself.
\<close>

fun has_control :: "string \<Rightarrow> bool" where
  "has_control [] \<longleftrightarrow> False"
| "has_control (c # s) \<longleftrightarrow>
     code c < 32 \<or> code c = 127 \<or> (code c = 194 \<and> s \<noteq> [] \<and> code (hd s) < 160) \<or> has_control s"

section \<open>Instances\<close>

text \<open>Hex over the letters \<open>a\<close> to \<open>p\<close>, and serialisers given by a table.\<close>

definition sample_hex_encode :: "bytes \<Rightarrow> string" where
  "sample_hex_encode b =
     concat (map (\<lambda>x. [char_of (97 + unat x div 16), char_of (97 + unat x mod 16)]) b)"

fun sample_hex_pairs :: "string \<Rightarrow> bytes" where
  "sample_hex_pairs (a # b # s) =
     of_nat (16 * (code a - 97) + (code b - 97)) # sample_hex_pairs s"
| "sample_hex_pairs s = []"

definition sample_hex_decode :: "nat \<Rightarrow> string \<Rightarrow> bytes option" where
  "sample_hex_decode n s = (if length s = 2 * n then Some (sample_hex_pairs s) else None)"

definition sample_table :: "('w \<times> bytes) list \<Rightarrow> 'w json" where
  "sample_table t =
     \<lparr>to_vec = map_of t, from_slice = map_of (map (\<lambda>(w, b). (b, w)) t)\<rparr>"

lemma sample_hex_pairs_encode: "sample_hex_pairs (sample_hex_encode b) = b"
proof (induction b)
  case (Cons x b)
  have u: "unat x < 256" using unsigned_less [of x] by simp
  have "code (char_of (97 + unat x div 16)) = 97 + unat x div 16"
    "code (char_of (97 + unat x mod 16)) = 97 + unat x mod 16"
    using u by (simp_all add: code_def)
  then show ?case using Cons
    by (simp add: sample_hex_encode_def mult_div_mod_eq)
qed (simp add: sample_hex_encode_def)

lemma sample_hex_Nil [simp]: "sample_hex_encode b = [] \<longleftrightarrow> b = []" "[] = sample_hex_encode b \<longleftrightarrow> b = []"
  by (cases b; simp add: sample_hex_encode_def)+

lemma sample_hex_law: "hex_law sample_hex_encode sample_hex_decode"
proof -
  have len: "length (sample_hex_encode b) = 2 * length b" for b
    by (induction b) (simp_all add: sample_hex_encode_def)
  have "\<not> is_ascii_uppercase c" if c: "c \<in> set (sample_hex_encode b)" for b c
  proof -
    obtain x :: u8 where x: "c = char_of (97 + unat x div 16) \<or> c = char_of (97 + unat x mod 16)"
      using c by (auto simp: sample_hex_encode_def)
    have "unat x < 256" using unsigned_less [of x] by simp
    then show ?thesis using x by (auto simp: is_ascii_uppercase_def code_def)
  qed
  then show ?thesis
    by (auto simp: hex_law_def sample_hex_decode_def len sample_hex_pairs_encode list_ex_iff)
qed

lemma sample_table_law:
  assumes "distinct (map snd t)" and "[] \<notin> snd ` set t"
  shows "json_law (sample_table t)"
proof -
  have "from_slice (sample_table t) b = Some w" if "(w, b) \<in> set t" for w b
    using assms(1) that
    by (force simp: sample_table_def comp_def split_def intro!: map_of_is_SomeI)
  then show ?thesis using assms(2)
    by (force simp: json_law_def sample_table_def dest!: map_of_SomeD)
qed

end
