(* ===== verification/Book_Store.thy ===== *)
theory Book_Store
  imports Order_Book Codec_Library
begin

text \<open>
  Persistence of the order book: the record encodings and keys of
  \<^verbatim>\<open>crates/orderbook/src/store.rs\<close> and the checkpoints of \<^verbatim>\<open>checkpoint.rs\<close>. The JSON
  serialiser, the hex codec and the keyed hash are libraries and appear as one record of
  parameters; \<open>library_ok\<close> collects the documented behaviour that is relied on.
\<close>

section \<open>Libraries\<close>

datatype trigger_wire = WNone | WUntriggered bool string | WActivated string

record resting_wire =
  w_schema :: string
  w_order_id :: string
  w_side :: string
  w_price :: string
  w_remaining :: string
  w_original :: string
  w_sequence :: u64
  w_account_id :: "string option"
  w_client_order_id :: "string option"
  w_time_millis :: "u64 option"
  w_trigger :: trigger_wire

record level_wire =
  lw_price :: string
  lw_quantity :: string
  lw_order_count :: u32

record l2_wire =
  l2w_schema :: string
  l2w_bids :: "level_wire list"
  l2w_asks :: "level_wire list"

record checkpoint_wire =
  cw_schema :: string
  cw_market_id :: string
  cw_sequence :: u64
  cw_as_of_block :: u64
  cw_max_orders :: nat
  cw_orders :: "bytes list"
  cw_state_hash :: string

record library =
  order_json :: "resting_wire json"
  l2_json :: "l2_wire json"
  checkpoint_json :: "checkpoint_wire json"
  hex_encode :: "bytes \<Rightarrow> string"
  hex_decode :: "nat \<Rightarrow> string \<Rightarrow> bytes option"
  derive_key_hash :: "string \<Rightarrow> bytes \<Rightarrow> hash"

definition library_ok :: "library \<Rightarrow> bool" where
  "library_ok lib \<longleftrightarrow>
     json_law (order_json lib) \<and> json_law (l2_json lib) \<and> json_law (checkpoint_json lib)
     \<and> hex_law (hex_encode lib) (hex_decode lib)
     \<and> (\<forall>c b. length (derive_key_hash lib c b) = 32)"

section \<open>Records and keys\<close>

datatype l4_store_error =
  Codec | NonCanonical | InvalidRecord | LimitExceeded | StoreUnhealthy | HashMismatch

definition L4_STORE_SCHEMA :: string where
  "L4_STORE_SCHEMA = ''hyperliquid-alpha-desk/l4-rocksdb-encoding/v1''"

definition L4_CHECKPOINT_SCHEMA :: string where
  "L4_CHECKPOINT_SCHEMA = ''hyperliquid-alpha-desk/l4-checkpoint/v1''"

definition L4_HASH_CONTEXT :: string where
  "L4_HASH_CONTEXT = ''hyperliquid-alpha-desk/l4-checkpoint-hash/v1''"

definition L4_INPUT_HASH_CONTEXT :: string where
  "L4_INPUT_HASH_CONTEXT = ''hyperliquid-alpha-desk/l4-input-hash/v1''"

definition MAX_RECORD_BYTES :: nat where
  "MAX_RECORD_BYTES = 16 * 1024 * 1024"

definition framed :: "bytes list \<Rightarrow> bytes" where
  "framed parts = concat (map frame parts)"

definition l4_order_key :: "market_id \<Rightarrow> order_id \<Rightarrow> bytes" where
  "l4_order_key m i = framed [str_bytes m, str_bytes i]"

definition l2_book_key :: "market_id \<Rightarrow> bytes" where
  "l2_book_key m = framed [str_bytes m]"

definition checkpoint_key :: "market_id \<Rightarrow> block_height \<Rightarrow> bytes" where
  "checkpoint_key m h = framed [str_bytes m, be64 h]"

definition content_hash :: "library \<Rightarrow> bytes \<Rightarrow> hash" where
  "content_hash lib b = derive_key_hash lib L4_INPUT_HASH_CONTEXT b"

definition state_hash_of :: "library \<Rightarrow> bytes \<Rightarrow> hash" where
  "state_hash_of lib b = derive_key_hash lib L4_HASH_CONTEXT b"

definition encode_canonical :: "'w json \<Rightarrow> 'w \<Rightarrow> l4_store_error + bytes" where
  "encode_canonical j w =
     rbind (ok_or Codec (to_vec j w)) (\<lambda>b.
     if length b > MAX_RECORD_BYTES then Inl LimitExceeded else Inr b)"

definition decode_canonical :: "'w json \<Rightarrow> bytes \<Rightarrow> l4_store_error + 'w" where
  "decode_canonical j b =
     (if b = [] \<or> length b > MAX_RECORD_BYTES then Inl LimitExceeded
      else
        rbind (ok_or Codec (from_slice j b)) (\<lambda>w.
        rbind (encode_canonical j w) (\<lambda>b'.
        if b' \<noteq> b then Inl NonCanonical else Inr w)))"

fun from_kind :: "trigger_kind \<Rightarrow> trigger_wire" where
  "from_kind TriggerNone = WNone"
| "from_kind (Untriggered tpsl p) = WUntriggered tpsl (decimal_display p)"
| "from_kind (Activated p) = WActivated (decimal_display p)"

definition parse_decimal :: "string \<Rightarrow> l4_store_error + decimal" where
  "parse_decimal s = map_err (\<lambda>_. InvalidRecord) (decimal_from_str s)"

fun into_kind :: "trigger_wire \<Rightarrow> l4_store_error + trigger_kind" where
  "into_kind WNone = Inr TriggerNone"
| "into_kind (WUntriggered tpsl p) = rbind (parse_decimal p) (\<lambda>d. Inr (Untriggered tpsl d))"
| "into_kind (WActivated p) = rbind (parse_decimal p) (\<lambda>d. Inr (Activated d))"

definition from_order :: "library \<Rightarrow> resting_order \<Rightarrow> resting_wire" where
  "from_order lib r =
     \<lparr>w_schema = L4_STORE_SCHEMA, w_order_id = order_id r, w_side = as_wire_name (side r),
      w_price = decimal_display (price r), w_remaining = decimal_display (remaining r),
      w_original = decimal_display (original r), w_sequence = ord_sequence r,
      w_account_id = map_option (to_api_string (hex_encode lib)) (account_id r),
      w_client_order_id = client_order_id r, w_time_millis = time_millis r,
      w_trigger = from_kind (trigger r)\<rparr>"

definition into_order :: "library \<Rightarrow> resting_wire \<Rightarrow> l4_store_error + resting_order" where
  "into_order lib w =
     (if w_schema w \<noteq> L4_STORE_SCHEMA then Inl InvalidRecord
      else
        rbind (map_err (\<lambda>_. InvalidRecord) (string_id_new (w_order_id w))) (\<lambda>i.
        rbind (map_err (\<lambda>_. InvalidRecord) (parse_wire (w_side w))) (\<lambda>s.
        rbind (parse_decimal (w_price w)) (\<lambda>p.
        rbind (parse_decimal (w_remaining w)) (\<lambda>q.
        rbind (parse_decimal (w_original w)) (\<lambda>o0.
        rbind (into_kind (w_trigger w)) (\<lambda>t.
        let r = (new_order i s p q (w_sequence w))\<lparr>original := o0, trigger := t\<rparr> in
        rbind (case w_account_id w of
                 None \<Rightarrow> Inr r
               | Some account \<Rightarrow>
                   rbind (map_err (\<lambda>_. InvalidRecord) (parse_api (hex_decode lib) account))
                     (\<lambda>a. Inr (r\<lparr>account_id := Some a\<rparr>))) (\<lambda>r.
        rbind (case w_client_order_id w of
                 None \<Rightarrow> Inr r
               | Some cloid \<Rightarrow>
                   rbind (map_err (\<lambda>_. InvalidRecord) (string_id_new cloid))
                     (\<lambda>c. Inr (r\<lparr>client_order_id := Some c\<rparr>))) (\<lambda>r.
        Inr (case w_time_millis w of None \<Rightarrow> r | Some t \<Rightarrow> r\<lparr>time_millis := Some t\<rparr>))))))))))"

definition encode_resting_order :: "library \<Rightarrow> resting_order \<Rightarrow> l4_store_error + bytes" where
  "encode_resting_order lib r = encode_canonical (order_json lib) (from_order lib r)"

definition decode_resting_order :: "library \<Rightarrow> bytes \<Rightarrow> l4_store_error + resting_order" where
  "decode_resting_order lib b = rbind (decode_canonical (order_json lib) b) (into_order lib)"

definition encode_levels :: "l2_level list \<Rightarrow> level_wire list" where
  "encode_levels levels =
     map (\<lambda>l. \<lparr>lw_price = decimal_display (l2_price l), lw_quantity = decimal_display (l2_quantity l),
               lw_order_count = order_count l\<rparr>) levels"

definition decode_levels :: "level_wire list \<Rightarrow> l4_store_error + l2_level list" where
  "decode_levels levels =
     rcollect (\<lambda>l.
       rbind (parse_decimal (lw_price l)) (\<lambda>p.
       rbind (parse_decimal (lw_quantity l)) (\<lambda>q.
       Inr \<lparr>l2_price = p, l2_quantity = q, order_count = lw_order_count l\<rparr>))) levels"

definition encode_l2_book :: "library \<Rightarrow> l2_level list \<Rightarrow> l2_level list \<Rightarrow> l4_store_error + bytes" where
  "encode_l2_book lib bs as =
     encode_canonical (l2_json lib)
       \<lparr>l2w_schema = L4_STORE_SCHEMA, l2w_bids = encode_levels bs, l2w_asks = encode_levels as\<rparr>"

definition decode_l2_book :: "library \<Rightarrow> bytes \<Rightarrow> l4_store_error + (l2_level list \<times> l2_level list)" where
  "decode_l2_book lib b =
     rbind (decode_canonical (l2_json lib) b) (\<lambda>w.
     if l2w_schema w \<noteq> L4_STORE_SCHEMA then Inl InvalidRecord
     else
       rbind (decode_levels (l2w_bids w)) (\<lambda>bs.
       rbind (decode_levels (l2w_asks w)) (\<lambda>as.
       Inr (bs, as))))"

section \<open>Checkpoints\<close>

record l4_checkpoint =
  cp_market_id :: market_id
  cp_sequence :: u64
  cp_as_of_block :: block_height
  cp_max_orders :: nat
  cp_orders :: "resting_order list"
  cp_state_hash :: hash

definition checkpoint_to_wire :: "library \<Rightarrow> l4_checkpoint \<Rightarrow> l4_store_error + checkpoint_wire" where
  "checkpoint_to_wire lib c =
     rbind (rcollect (encode_resting_order lib) (cp_orders c)) (\<lambda>orders.
     Inr \<lparr>cw_schema = L4_CHECKPOINT_SCHEMA, cw_market_id = cp_market_id c,
          cw_sequence = cp_sequence c, cw_as_of_block = cp_as_of_block c,
          cw_max_orders = cp_max_orders c, cw_orders = orders,
          cw_state_hash = hex_encode lib (cp_state_hash c)\<rparr>)"

definition checkpoint_bytes :: "library \<Rightarrow> l4_checkpoint \<Rightarrow> l4_store_error + bytes" where
  "checkpoint_bytes lib c =
     rbind (checkpoint_to_wire lib c) (\<lambda>w.
     encode_canonical (checkpoint_json lib) (w\<lparr>cw_state_hash := []\<rparr>))"

text \<open>The orders are sorted by id with a stable sort.\<close>

definition capture :: "library \<Rightarrow> order_book \<Rightarrow> l4_store_error + l4_checkpoint" where
  "capture lib b =
     (if health b \<noteq> Healthy then Inl StoreUnhealthy
      else
        let c = \<lparr>cp_market_id = market_id b, cp_sequence = sequence b,
                 cp_as_of_block = as_of_block b, cp_max_orders = max_orders b,
                 cp_orders = sort_key order_id (active_orders b), cp_state_hash = replicate 32 0\<rparr> in
        rbind (checkpoint_bytes lib c) (\<lambda>bytes.
        Inr (c\<lparr>cp_state_hash := state_hash_of lib bytes\<rparr>)))"

definition restore :: "library \<Rightarrow> l4_checkpoint \<Rightarrow> l4_store_error + order_book" where
  "restore lib c =
     (if cp_market_id c = [] then Inl InvalidRecord
      else
        let b = apply_snapshot (cp_sequence c) (cp_as_of_block c) (cp_orders c)
                  (awaiting_snapshot_bounded (cp_market_id c) (cp_as_of_block c) (cp_max_orders c)) in
        if health b \<noteq> Healthy then Inl StoreUnhealthy
        else
          rbind (capture lib b) (\<lambda>restored.
          if cp_state_hash restored \<noteq> cp_state_hash c then Inl HashMismatch else Inr b))"

definition checkpoint_encode :: "library \<Rightarrow> l4_checkpoint \<Rightarrow> l4_store_error + bytes" where
  "checkpoint_encode lib c =
     rbind (checkpoint_to_wire lib c) (\<lambda>w.
     rbind (encode_canonical (checkpoint_json lib) w) (\<lambda>bytes.
     if length bytes > MAX_RECORD_BYTES then Inl LimitExceeded else Inr bytes))"

definition checkpoint_decode :: "library \<Rightarrow> bytes \<Rightarrow> l4_store_error + l4_checkpoint" where
  "checkpoint_decode lib bytes =
     rbind (decode_canonical (checkpoint_json lib) bytes) (\<lambda>w.
     if cw_schema w \<noteq> L4_CHECKPOINT_SCHEMA then Inl InvalidRecord
     else
       rbind (map_err (\<lambda>_. InvalidRecord) (string_id_new (cw_market_id w))) (\<lambda>m.
       rbind (rcollect (decode_resting_order lib) (cw_orders w)) (\<lambda>orders.
       rbind (ok_or InvalidRecord (hex_decode lib 32 (cw_state_hash w))) (\<lambda>hash.
       let c = \<lparr>cp_market_id = m, cp_sequence = cw_sequence w, cp_as_of_block = cw_as_of_block w,
                cp_max_orders = cw_max_orders w, cp_orders = orders, cp_state_hash = hash\<rparr> in
       rbind (checkpoint_bytes lib c) (\<lambda>b.
       if state_hash_of lib b \<noteq> hash then Inl HashMismatch else Inr c)))))"

section \<open>A book is determined by its orders\<close>

lemma side_sets:
  assumes "index_inv b"
  shows "set (bids b) = (\<lambda>r. (key_of r, r)) ` {r \<in> set (active_orders b). side r = Buy}"
    and "set (asks b) = (\<lambda>r. (key_of r, r)) ` {r \<in> set (active_orders b). side r = Sell}"
proof -
  have ok: "side_ok bid_lt Buy (bids b)" "side_ok ask_lt Sell (asks b)"
    using assms by (simp_all add: index_inv_def)
  have bid: "{r \<in> set (active_orders b). side r = Buy} = set (bt_values (bids b))"
    using bt_values_side [OF ok(1)] bt_values_side [OF ok(2)] by (auto simp: active_orders_set)
  have ask: "{r \<in> set (active_orders b). side r = Sell} = set (bt_values (asks b))"
    using bt_values_side [OF ok(1)] bt_values_side [OF ok(2)] by (auto simp: active_orders_set)
  have keyed: "set m = (\<lambda>r. (key_of r, r)) ` set (bt_values m)" if "side_ok lt s m" for lt s m
    using that by (force simp: side_ok_def bt_values_def image_image)
  show "set (bids b) = (\<lambda>r. (key_of r, r)) ` {r \<in> set (active_orders b). side r = Buy}"
    and "set (asks b) = (\<lambda>r. (key_of r, r)) ` {r \<in> set (active_orders b). side r = Sell}"
    unfolding bid ask using keyed [OF ok(1)] keyed [OF ok(2)] by auto
qed

text \<open>The three maps of a book are determined by its set of orders.\<close>

lemma maps_determined:
  assumes "index_inv b" and "index_inv c" and "set (active_orders b) = set (active_orders c)"
  shows "bids b = bids c" and "asks b = asks c" and "by_id b = by_id c"
proof -
  have s: "bt_sorted bid_lt (bids b)" "bt_sorted bid_lt (bids c)" "bt_sorted ask_lt (asks b)"
    "bt_sorted ask_lt (asks c)" "bt_sorted (<) (by_id b)" "bt_sorted (<) (by_id c)"
    using assms(1,2) by (auto simp: index_inv_def side_ok_def)
  show "bids b = bids c"
    by (rule bid.bt_sorted_eqI [OF s(1,2)]) (simp add: side_sets assms)
  show "asks b = asks c"
    by (rule ask.bt_sorted_eqI [OF s(3,4)]) (simp add: side_sets assms)
  show "by_id b = by_id c"
    by (rule lin.bt_sorted_eqI [OF s(5,6)]) (use assms in \<open>simp add: index_inv_def\<close>)
qed

lemma insert_active_total:
  assumes "core_ok b" and "order_pos r" and "order_id r \<notin> order_id ` set (active_orders b)"
    and "length (by_id b) < max_orders b"
  shows "\<exists>c. insert_active r True b = Inr c"
proof -
  have "bt_get (<) (order_id r) (by_id b) = None"
    using assms(1,3) index_get_None by (simp add: core_ok_def)
  then show ?thesis using assms(2,4) by (simp add: insert_active_def order_pos_def not_le Let_def)
qed

lemma insert_all_total:
  assumes "core_ok b" and "distinct (map order_id rs)" and "\<forall>r \<in> set rs. order_pos r"
    and "order_id ` set rs \<inter> order_id ` set (active_orders b) = {}"
    and "length rs + length (by_id b) \<le> max_orders b"
  shows "\<exists>c. rfold (\<lambda>r. insert_active r True) rs b = Inr c"
  using assms
proof (induction rs arbitrary: b)
  case (Cons r rs)
  obtain c where c: "insert_active r True b = Inr c"
    using insert_active_total [of b r] Cons.prems by auto
  have one: "rfold (\<lambda>r. insert_active r True) [r] b = Inr c" using c by simp
  note ins = insert_all [OF one Cons.prems(1)]
  have "\<exists>d. rfold (\<lambda>r. insert_active r True) rs c = Inr d"
    using Cons.prems ins by (intro Cons.IH) (auto simp: same_frame_def)
  with c show ?case by auto
qed simp

lemma restore_book:
  assumes ok: "book_ok b" and healthy: "health b = Healthy"
  shows "apply_snapshot (sequence b) (as_of_block b) (sort_key order_id (active_orders b))
    (awaiting_snapshot_bounded (market_id b) (as_of_block b) (max_orders b)) = b\<lparr>lifecycle := []\<rparr>"
proof -
  let ?rs = "sort_key order_id (active_orders b)"
  let ?a = "awaiting_snapshot_bounded (market_id b) (as_of_block b) (max_orders b)"
  let ?c = "cleared (sequence b) (as_of_block b) ?a"
  have inv: "index_inv b" using ok by (simp add: book_ok_def)
  have len: "length (active_orders b) = length (by_id b)"
    using inv by (simp add: active_orders_def bt_values_def index_inv_def)
  have "card (order_id ` set (active_orders b)) = length (map order_id (active_orders b))"
    using order_map_card [OF inv] order_map_dom [OF inv] len by simp
  then have "distinct (map order_id (active_orders b))" by (metis card_distinct list.set_map)
  then have "distinct (map order_id ?rs)"
    by (metis (no_types) card_distinct distinct_card length_map length_sort list.set_map set_sort)
  moreover have "active_orders ?c = []" "by_id ?c = []" "max_orders ?c = max_orders b"
    by (simp_all add: cleared_def awaiting_snapshot_bounded_def active_orders_def bt_values_def)
  ultimately have "\<exists>d. rfold (\<lambda>r. insert_active r True) ?rs ?c = Inr d"
    using ok len by (intro insert_all_total core_ok_cleared) (simp_all add: book_ok_def)
  then obtain d where d: "rfold (\<lambda>r. insert_active r True) ?rs ?c = Inr d" by blast
  note ins = insert_all [OF d core_ok_cleared]
  have inv_d: "index_inv d" using ins(1) by (simp add: core_ok_def)
  have set: "set (active_orders d) = set (active_orders b)"
    using ins(4) by (simp add: cleared_def active_orders_def [of "?c"] bt_values_def)
      (simp add: active_orders_def bt_values_def cleared_def)
  note maps = maps_determined [OF inv_d inv set]
  have frame: "market_id d = market_id b" "sequence d = sequence b" "as_of_block d = as_of_block b"
    "health d = Healthy" "max_orders d = max_orders b" "lifecycle d = []"
    using ins(2,3) by (simp_all add: same_frame_def cleared_def awaiting_snapshot_bounded_def)
  have eq: "d = b\<lparr>lifecycle := []\<rparr>"
    by (rule order_book.equality) (simp_all add: maps frame healthy)
  have "assert_invariants d = assert_invariants b"
    by (simp add: assert_invariants_def best_bid_def best_ask_def maps)
  then have "assert_invariants d = Inr ()" using ok healthy by (simp add: book_ok_def)
  moreover have "length ?rs \<le> max_orders ?a"
    using ok len by (simp add: book_ok_def awaiting_snapshot_bounded_def)
  ultimately show ?thesis using d eq by (simp add: apply_snapshot_def cleared_def Let_def)
qed

section \<open>Round trips of the encodings\<close>

text \<open>The values the constructors of the source can produce.\<close>

definition trigger_ok :: "trigger_kind \<Rightarrow> bool" where
  "trigger_ok t = (case t of TriggerNone \<Rightarrow> True | Untriggered _ p \<Rightarrow> decimal_ok p | Activated p \<Rightarrow> decimal_ok p)"

definition order_ok :: "resting_order \<Rightarrow> bool" where
  "order_ok r \<longleftrightarrow>
     id_ok (order_id r) \<and> decimal_ok (price r) \<and> decimal_ok (remaining r) \<and> decimal_ok (original r)
     \<and> (\<forall>a. account_id r = Some a \<longrightarrow> length a = 20) \<and> (\<forall>c. client_order_id r = Some c \<longrightarrow> id_ok c)
     \<and> trigger_ok (trigger r)"

lemma decode_encode_canonical:
  "json_law j \<Longrightarrow> encode_canonical j w = Inr b \<Longrightarrow> decode_canonical j b = Inr w"
  by (auto simp: encode_canonical_def decode_canonical_def json_law_def result_simps split: if_splits)

lemma encode_decode_canonical: "decode_canonical j b = Inr w \<Longrightarrow> encode_canonical j w = Inr b"
  by (auto simp: decode_canonical_def result_simps split: if_splits)

lemma parse_decimal_display [simp]: "decimal_ok d \<Longrightarrow> parse_decimal (decimal_display d) = Inr d"
  by (simp add: parse_decimal_def decimal_from_str_display)

lemma into_kind_from_kind: "trigger_ok t \<Longrightarrow> into_kind (from_kind t) = Inr t"
  by (cases t) (auto simp: trigger_ok_def)

lemma into_order_from_order:
  assumes "hex_law (hex_encode lib) (hex_decode lib)" and "order_ok r"
  shows "into_order lib (from_order lib r) = Inr r"
proof -
  have i: "string_id_new (order_id r) = Inr (order_id r)"
    using assms(2) by (simp add: order_ok_def id_ok_def string_id_new_Inr)
  have c: "string_id_new x = Inr x" if "client_order_id r = Some x" for x
    using assms(2) that by (simp add: order_ok_def id_ok_def string_id_new_Inr)
  have s: "parse_wire (as_wire_name (side r)) = Inr (side r)" by (simp add: parse_wire_Inr)
  have a: "parse_api (hex_decode lib) (to_api_string (hex_encode lib) x) = Inr x"
    if "account_id r = Some x" for x
    using assms that by (simp add: parse_api_to_api_string order_ok_def)
  have d: "decimal_ok (price r)" "decimal_ok (remaining r)" "decimal_ok (original r)" "trigger_ok (trigger r)"
    using assms(2) by (simp_all add: order_ok_def)
  show ?thesis
    using i c s a d into_kind_from_kind [OF d(4)]
    by (cases "account_id r"; cases "client_order_id r"; cases "time_millis r")
       (auto simp: into_order_def from_order_def new_order_def Let_def intro!: resting_order.equality)
qed

lemma decode_encode_order:
  assumes "library_ok lib" and "order_ok r" and "encode_resting_order lib r = Inr b"
  shows "decode_resting_order lib b = Inr r"
  using assms decode_encode_canonical [of "order_json lib"] into_order_from_order [of lib r]
  by (simp add: decode_resting_order_def encode_resting_order_def library_ok_def)

lemma decode_encode_levels:
  assumes "\<forall>l \<in> set ls. decimal_ok (l2_price l) \<and> decimal_ok (l2_quantity l)"
  shows "decode_levels (encode_levels ls) = Inr ls"
  using assms by (induction ls) (simp_all add: decode_levels_def encode_levels_def)

lemma decode_encode_l2:
  assumes "library_ok lib" and "encode_l2_book lib bs as = Inr b"
    and "\<forall>l \<in> set bs \<union> set as. decimal_ok (l2_price l) \<and> decimal_ok (l2_quantity l)"
  shows "decode_l2_book lib b = Inr (bs, as)"
proof -
  have "decode_canonical (l2_json lib) b = Inr
      \<lparr>l2w_schema = L4_STORE_SCHEMA, l2w_bids = encode_levels bs, l2w_asks = encode_levels as\<rparr>"
    using assms(1,2) by (intro decode_encode_canonical) (simp_all add: library_ok_def encode_l2_book_def)
  then show ?thesis using assms(3) by (simp add: decode_l2_book_def decode_encode_levels)
qed

lemma rcollect_decode_encode:
  assumes "library_ok lib" and "\<forall>r \<in> set rs. order_ok r"
    and "rcollect (encode_resting_order lib) rs = Inr bs"
  shows "rcollect (decode_resting_order lib) bs = Inr rs"
  using assms(2,3)
proof (induction rs arbitrary: bs)
  case (Cons r rs)
  then show ?case using decode_encode_order [OF assms(1)] by (auto simp: result_simps)
qed simp

lemma capture_Inr:
  assumes "capture lib b = Inr c"
  shows "health b = Healthy" and "\<exists>bytes. checkpoint_bytes lib c = Inr bytes \<and> cp_state_hash c = state_hash_of lib bytes"
    and "cp_orders c = sort_key order_id (active_orders b)" and "cp_market_id c = market_id b"
    and "cp_sequence c = sequence b" and "cp_as_of_block c = as_of_block b" and "cp_max_orders c = max_orders b"
proof -
  have hash_free: "checkpoint_bytes lib (x\<lparr>cp_state_hash := h\<rparr>) = checkpoint_bytes lib x" for x h
    by (cases "rcollect (encode_resting_order lib) (cp_orders x)")
       (simp_all add: checkpoint_bytes_def checkpoint_to_wire_def)
  let ?c = "\<lparr>cp_market_id = market_id b, cp_sequence = sequence b, cp_as_of_block = as_of_block b,
    cp_max_orders = max_orders b, cp_orders = sort_key order_id (active_orders b),
    cp_state_hash = replicate 32 0\<rparr>"
  obtain x where "checkpoint_bytes lib ?c = Inr x" "c = ?c\<lparr>cp_state_hash := state_hash_of lib x\<rparr>"
    using assms by (auto simp: capture_def Let_def result_simps split: if_splits)
  then have "checkpoint_bytes lib c = Inr x" "cp_state_hash c = state_hash_of lib x"
    using hash_free [where x = ?c and h = "state_hash_of lib x"] by simp_all
  then show "\<exists>bytes. checkpoint_bytes lib c = Inr bytes \<and> cp_state_hash c = state_hash_of lib bytes"
    by blast
  show "health b = Healthy" "cp_orders c = sort_key order_id (active_orders b)" "cp_market_id c = market_id b"
    "cp_sequence c = sequence b" "cp_as_of_block c = as_of_block b" "cp_max_orders c = max_orders b"
    using assms by (auto simp: capture_def Let_def result_simps split: if_splits)
qed

lemma restore_capture:
  assumes "book_ok b" and "market_id b \<noteq> []" and "capture lib b = Inr c"
  shows "restore lib c = Inr (b\<lparr>lifecycle := []\<rparr>)"
proof -
  note c = capture_Inr [OF assms(3)]
  have snap: "apply_snapshot (cp_sequence c) (cp_as_of_block c) (cp_orders c)
      (awaiting_snapshot_bounded (cp_market_id c) (cp_as_of_block c) (cp_max_orders c)) = b\<lparr>lifecycle := []\<rparr>"
    using restore_book [OF assms(1) c(1)] c by simp
  have "capture lib (b\<lparr>lifecycle := []\<rparr>) = capture lib b" by (simp add: capture_def)
  with assms(3) have "capture lib (b\<lparr>lifecycle := []\<rparr>) = Inr c" by simp
  then show ?thesis using snap assms(2) c(1,4) by (simp add: restore_def)
qed

lemma decode_encode_checkpoint:
  assumes lib: "library_ok lib" and cap: "capture lib b = Inr c" and m: "id_ok (market_id b)"
    and ok: "\<forall>r \<in> set (active_orders b). order_ok r" and enc: "checkpoint_encode lib c = Inr bytes"
  shows "checkpoint_decode lib bytes = Inr c"
proof -
  note c = capture_Inr [OF cap]
  obtain orders where o: "rcollect (encode_resting_order lib) (cp_orders c) = Inr orders"
    using enc by (auto simp: checkpoint_encode_def checkpoint_to_wire_def result_simps)
  let ?w = "\<lparr>cw_schema = L4_CHECKPOINT_SCHEMA, cw_market_id = cp_market_id c,
          cw_sequence = cp_sequence c, cw_as_of_block = cp_as_of_block c,
          cw_max_orders = cp_max_orders c, cw_orders = orders,
          cw_state_hash = hex_encode lib (cp_state_hash c)\<rparr>"
  have "encode_canonical (checkpoint_json lib) ?w = Inr bytes"
    using enc o by (auto simp: checkpoint_encode_def checkpoint_to_wire_def result_simps split: if_splits)
  then have w: "decode_canonical (checkpoint_json lib) bytes = Inr ?w"
    using lib decode_encode_canonical by (auto simp: library_ok_def)
  have orders: "rcollect (decode_resting_order lib) orders = Inr (cp_orders c)"
    using rcollect_decode_encode [OF lib _ o] ok c(3) by simp
  obtain b0 where b0: "checkpoint_bytes lib c = Inr b0" "cp_state_hash c = state_hash_of lib b0"
    using c(2) by blast
  have "length (cp_state_hash c) = 32" using lib b0 by (simp add: library_ok_def state_hash_of_def)
  then have hex: "hex_decode lib 32 (hex_encode lib (cp_state_hash c)) = Some (cp_state_hash c)"
    using lib by (metis hex_law_def library_ok_def)
  have id: "string_id_new (cp_market_id c) = Inr (cp_market_id c)"
    using m c(4) by (simp add: id_ok_def string_id_new_Inr)
  have self: "\<lparr>cp_market_id = cp_market_id c, cp_sequence = cp_sequence c,
      cp_as_of_block = cp_as_of_block c, cp_max_orders = cp_max_orders c, cp_orders = cp_orders c,
      cp_state_hash = cp_state_hash c\<rparr> = c"
    by (rule l4_checkpoint.equality) simp_all
  show ?thesis using w orders hex id b0(1) b0(2) [symmetric]
    by (simp add: checkpoint_decode_def Let_def self)
qed

lemma framed_inject:
  assumes "length xs = length ys" and "\<forall>x \<in> set xs. short x" and "\<forall>y \<in> set ys. short y"
  shows "framed xs = framed ys \<longleftrightarrow> xs = ys"
  using concat_frames_cancel [OF assms, of "[]" "[]"] by (simp add: framed_def)

section \<open>Properties\<close>

text \<open>A concrete library for evaluation with a constant hash.\<close>

definition sample_checkpoint_wire :: "string \<Rightarrow> checkpoint_wire" where
  "sample_checkpoint_wire h =
     \<lparr>cw_schema = L4_CHECKPOINT_SCHEMA, cw_market_id = ''BTC'', cw_sequence = 1, cw_as_of_block = 7,
      cw_max_orders = 10, cw_orders = [[2], [1]], cw_state_hash = h\<rparr>"

definition sample_library :: library where
  "sample_library =
     (let lib = \<lparr>order_json = sample_table [], l2_json = sample_table [],
                 checkpoint_json = sample_table [], hex_encode = sample_hex_encode,
                 hex_decode = sample_hex_decode, derive_key_hash = (\<lambda>_ _. replicate 32 7)\<rparr>
      in lib\<lparr>order_json := sample_table [(from_order lib sample_bid, [1]), (from_order lib sample_ask, [2])],
             checkpoint_json := sample_table
               [(sample_checkpoint_wire [], [3]),
                (sample_checkpoint_wire (sample_hex_encode (replicate 32 7)), [4])]\<rparr>)"

lemma sample_library_ok: "library_ok sample_library"
  unfolding library_ok_def sample_library_def Let_def
  by (simp add: sample_hex_law) (intro conjI sample_table_law; simp)

lemma sample_orders: "active_orders sample_book = [sample_bid, sample_ask]"
  by code_simp

lemma sample_sorted: "sort_key order_id (active_orders sample_book) = [sample_ask, sample_bid]"
  unfolding sample_orders by code_simp

lemma sample_fields:
  "health sample_book = Healthy" "market_id sample_book = ''BTC''" "sequence sample_book = 1"
  "as_of_block sample_book = 7" "max_orders sample_book = 10"
  by code_simp+

lemma sample_encode:
  "encode_resting_order sample_library sample_bid = Inr [1]"
  "encode_resting_order sample_library sample_ask = Inr [2]"
  by (simp_all add: encode_resting_order_def encode_canonical_def sample_library_def sample_table_def
      MAX_RECORD_BYTES_def from_order_def sample_bid_def sample_ask_def new_order_def)

definition sample_checkpoint :: l4_checkpoint where
  "sample_checkpoint =
     \<lparr>cp_market_id = ''BTC'', cp_sequence = 1, cp_as_of_block = 7, cp_max_orders = 10,
      cp_orders = [sample_ask, sample_bid], cp_state_hash = replicate 32 7\<rparr>"

lemma sample_capture: "capture sample_library sample_book = Inr sample_checkpoint"
proof -
  have "encode_canonical (checkpoint_json sample_library) (sample_checkpoint_wire []) = Inr [3]"
    by (simp add: encode_canonical_def sample_library_def sample_table_def MAX_RECORD_BYTES_def
        sample_checkpoint_wire_def Let_def)
  then show ?thesis
    by (simp add: capture_def sample_fields sample_sorted checkpoint_bytes_def checkpoint_to_wire_def
        sample_encode Let_def sample_checkpoint_wire_def sample_checkpoint_def state_hash_of_def)
       (simp add: sample_library_def Let_def)
qed

lemma sample_checkpoint_encode: "checkpoint_encode sample_library sample_checkpoint = Inr [4]"
proof -
  have hex: "hex_encode sample_library = sample_hex_encode" by (simp add: sample_library_def Let_def)
  have "encode_canonical (checkpoint_json sample_library)
      (sample_checkpoint_wire (sample_hex_encode (replicate 32 7))) = Inr [4]"
    by (simp add: encode_canonical_def sample_library_def sample_table_def
        MAX_RECORD_BYTES_def sample_checkpoint_wire_def Let_def)
  then show ?thesis
    by (simp add: checkpoint_encode_def checkpoint_to_wire_def sample_checkpoint_def sample_encode hex
        sample_checkpoint_wire_def MAX_RECORD_BYTES_def)
qed

text \<open>
  C26. A checkpoint of a healthy book is lossless: restoring it rebuilds the very same book,
  market, sequence, block, bound, both sides in order and the index, with only the in-memory
  lifecycle log empty; the hash comparison in \<^verbatim>\<open>restore\<close> succeeds, whatever the hash.
\<close>

theorem checkpoint_lossless:
  assumes "book_reach b" and "market_id b \<noteq> []" and "capture lib b = Inr c"
  shows "restore lib c = Inr (b\<lparr>lifecycle := []\<rparr>)"
  using restore_capture [OF book_reach_ok [OF assms(1)] assms(2,3)] .

theorem checkpoint_lossless_witness:
  "capture sample_library sample_book = Inr sample_checkpoint
   \<and> restore sample_library sample_checkpoint = Inr (sample_book\<lparr>lifecycle := []\<rparr>)"
  using checkpoint_lossless [OF sample_reach _ sample_capture] sample_capture
  by (simp add: sample_fields)

text \<open>
  C27. Checkpoints survive the wire: with a serialiser that reads back what it wrote and a hex
  codec that does too, decoding an encoded checkpoint of a book of valid orders gives the
  checkpoint, all validations passed, and restoring that gives the book. The same holds for
  single order records and for price levels.
\<close>

theorem checkpoint_wire_roundtrip:
  assumes "library_ok lib" and "book_reach b" and "capture lib b = Inr c" and "id_ok (market_id b)"
    and "\<forall>r \<in> set (active_orders b). order_ok r" and "checkpoint_encode lib c = Inr bytes"
  shows "rbind (checkpoint_decode lib bytes) (restore lib) = Inr (b\<lparr>lifecycle := []\<rparr>)
    \<and> (\<forall>r bs. order_ok r \<longrightarrow> encode_resting_order lib r = Inr bs \<longrightarrow> decode_resting_order lib bs = Inr r)"
proof -
  have "market_id b \<noteq> []" using assms(4) by (simp add: id_ok_def)
  then show ?thesis
    using decode_encode_checkpoint [OF assms(1,3,4,5,6)] decode_encode_order [OF assms(1)]
      restore_capture [OF book_reach_ok [OF assms(2)] _ assms(3)] by auto
qed

theorem checkpoint_wire_roundtrip_witness:
  "checkpoint_encode sample_library sample_checkpoint = Inr [4]
   \<and> rbind (checkpoint_decode sample_library [4]) (restore sample_library)
       = Inr (sample_book\<lparr>lifecycle := []\<rparr>)"
proof -
  have ids: "id_ok ''BTC''" "id_ok ''b1''" "id_ok ''a1''" by code_simp+
  then have "\<forall>r \<in> set (active_orders sample_book). order_ok r"
    unfolding sample_orders
    by (simp add: order_ok_def sample_bid_def sample_ask_def new_order_def trigger_ok_def decimal_ok_def
        in_i128_def i128_min_def i128_max_def MAX_DECIMAL_SCALE_def)
  then show ?thesis
    using checkpoint_wire_roundtrip [OF sample_library_ok sample_reach sample_capture _ _
        sample_checkpoint_encode] ids sample_checkpoint_encode by (simp add: sample_fields)
qed

text \<open>
  Storage keys are unambiguous: an order key determines its market and order, and a
  checkpoint key its market and block, because every part is written with its length (for
  strings shorter than two to the sixty-four bytes).
\<close>

theorem store_keys_injective:
  assumes "short m" and "short m'" and "short i" and "short i'"
  shows "(l4_order_key m i = l4_order_key m' i' \<longleftrightarrow> m = m' \<and> i = i')
    \<and> (checkpoint_key m h = checkpoint_key m' h' \<longleftrightarrow> m = m' \<and> h = h')
    \<and> (l2_book_key m = l2_book_key m' \<longleftrightarrow> m = m')"
proof -
  have h: "short (be64 x)" for x by (simp add: short_def be64_def)
  show ?thesis using assms h
    by (simp add: l4_order_key_def checkpoint_key_def l2_book_key_def framed_inject)
qed

theorem store_keys_injective_witness:
  "l4_order_key ''BTC'' ''b1'' \<noteq> l4_order_key ''BTCb'' ''1''"
  using store_keys_injective [of "''BTC''" "''BTCb''" "''b1''" "''1''"] by (simp add: short_def)

end
