(* ===== verification/L4_Reconstruct.thy ===== *)
theory L4_Reconstruct
  imports Book_Store
begin

text \<open>
  Reconstruction of a book from committed inputs, \<^verbatim>\<open>crates/orderbook/src/reconstruct.rs\<close>.
  Every committed input has an id and a content hash: the same id with the same content is
  applied once, the same id with other content is a conflict. An operation returns its
  result together with the new state, because a rejected input can leave the book red.
\<close>

definition DEFAULT_MAX_PROVISIONAL :: nat where
  "DEFAULT_MAX_PROVISIONAL = 4096"

datatype l4_error = Conflict string | ProvisionalRefused string | L4Unhealthy string

record l4_reconstruction =
  l4_book :: order_book
  committed :: "(string, hash) btree"
  provisional :: "(string, hash) btree"
  max_provisional :: nat

definition l4_awaiting_snapshot_bounded ::
  "market_id \<Rightarrow> block_height \<Rightarrow> nat \<Rightarrow> nat \<Rightarrow> l4_reconstruction" where
  "l4_awaiting_snapshot_bounded m h n p =
     \<lparr>l4_book = awaiting_snapshot_bounded m h n, committed = [], provisional = [],
      max_provisional = p\<rparr>"

definition l4_awaiting_snapshot :: "market_id \<Rightarrow> block_height \<Rightarrow> l4_reconstruction" where
  "l4_awaiting_snapshot m h =
     l4_awaiting_snapshot_bounded m h DEFAULT_MAX_ORDERS DEFAULT_MAX_PROVISIONAL"

definition canonical_order_bytes :: "library \<Rightarrow> resting_order \<Rightarrow> l4_error + bytes" where
  "canonical_order_bytes lib r =
     map_err (\<lambda>_. L4Unhealthy ''committed input is not canonical'') (encode_resting_order lib r)"

text \<open>The hasher is fed piece by piece; its result is the hash of the concatenation.\<close>

definition snapshot_hash ::
  "library \<Rightarrow> u64 \<Rightarrow> block_height \<Rightarrow> resting_order list \<Rightarrow> l4_error + hash" where
  "snapshot_hash lib seq h orders =
     rbind (rcollect (canonical_order_bytes lib) orders) (\<lambda>bs.
     Inr (derive_key_hash lib L4_INPUT_HASH_CONTEXT
            (be64 seq @ be64 h @ count64 (length orders) @ concat bs)))"

fun diff_material :: "library \<Rightarrow> book_diff \<Rightarrow> l4_error + bytes" where
  "diff_material lib (Add r) =
     rbind (canonical_order_bytes lib r) (\<lambda>b. Inr (str_bytes ''add'' @ b))"
| "diff_material lib (Update i q p) =
     Inr (str_bytes ''update'' @ str_bytes i @ str_bytes (decimal_display q)
          @ str_bytes (decimal_display p))"
| "diff_material lib (Cancel i) = Inr (str_bytes ''cancel'' @ str_bytes i)"
| "diff_material lib (Fill i q) =
     Inr (str_bytes ''fill'' @ str_bytes i @ str_bytes (decimal_display q))"

definition diff_hash :: "library \<Rightarrow> u64 \<Rightarrow> block_height \<Rightarrow> book_diff \<Rightarrow> l4_error + hash" where
  "diff_hash lib seq h d =
     rbind (diff_material lib d) (\<lambda>m. Inr (content_hash lib (be64 seq @ be64 h @ m)))"

definition already_committed :: "string \<Rightarrow> hash \<Rightarrow> l4_reconstruction \<Rightarrow> l4_error + bool" where
  "already_committed i h s =
     (case bt_get (<) i (committed s) of
        Some existing \<Rightarrow> if existing = h then Inr True else Inl (Conflict i)
      | None \<Rightarrow> Inr False)"

definition require_healthy :: "l4_reconstruction \<Rightarrow> l4_error + unit" where
  "require_healthy s =
     (case health (l4_book s) of
        Healthy \<Rightarrow> Inr ()
      | AwaitingSnapshot reason \<Rightarrow> Inl (L4Unhealthy reason)
      | Red reason \<Rightarrow> Inl (L4Unhealthy reason))"

text \<open>
  The common body of the two committed operations: hash, look up the id, apply \<open>f\<close> to the
  book, and record the id when the book stayed healthy.
\<close>

definition commit_input ::
  "string \<Rightarrow> l4_error + hash \<Rightarrow> (order_book \<Rightarrow> order_book) \<Rightarrow> l4_reconstruction
     \<Rightarrow> (l4_error + unit) \<times> l4_reconstruction" where
  "commit_input i hash f s =
     (case rbind hash (\<lambda>h. rbind (already_committed i h s) (\<lambda>seen. Inr (h, seen))) of
        Inl e \<Rightarrow> (Inl e, s)
      | Inr (h, seen) \<Rightarrow>
          if seen then (require_healthy s, s)
          else
            let s1 = s\<lparr>l4_book := f (l4_book s)\<rparr> in
            case require_healthy s1 of
              Inl e \<Rightarrow> (Inl e, s1)
            | Inr _ \<Rightarrow> (Inr (), s1\<lparr>committed := bt_insert (<) i h (committed s1)\<rparr>))"

definition apply_committed_snapshot ::
  "library \<Rightarrow> string \<Rightarrow> u64 \<Rightarrow> block_height \<Rightarrow> resting_order list \<Rightarrow> l4_reconstruction
     \<Rightarrow> (l4_error + unit) \<times> l4_reconstruction" where
  "apply_committed_snapshot lib i seq h orders s =
     commit_input i (snapshot_hash lib seq h orders) (apply_snapshot seq h orders) s"

definition apply_committed_diff ::
  "library \<Rightarrow> string \<Rightarrow> u64 \<Rightarrow> block_height \<Rightarrow> book_diff \<Rightarrow> l4_reconstruction
     \<Rightarrow> (l4_error + unit) \<times> l4_reconstruction" where
  "apply_committed_diff lib i seq h d s =
     commit_input i (diff_hash lib seq h d) (apply_diff seq h d) s"

definition observe_provisional ::
  "string \<Rightarrow> hash \<Rightarrow> l4_reconstruction \<Rightarrow> (l4_error + unit) \<times> l4_reconstruction" where
  "observe_provisional i payload s =
     (case bt_get (<) i (provisional s) of
        Some existing \<Rightarrow> (if existing = payload then Inr () else Inl (Conflict i), s)
      | None \<Rightarrow>
          if length (provisional s) \<ge> max_provisional s
          then (Inl (ProvisionalRefused ''unmatched provisional bound''), s)
          else (Inr (), s\<lparr>provisional := bt_insert (<) i payload (provisional s)\<rparr>))"

section \<open>Reachable reconstructions\<close>

inductive l4_reach :: "library \<Rightarrow> l4_reconstruction \<Rightarrow> bool" for lib where
  init: "l4_reach lib (l4_awaiting_snapshot_bounded m h n p)"
| snapshot: "l4_reach lib s \<Longrightarrow> l4_reach lib (snd (apply_committed_snapshot lib i seq h orders s))"
| diff: "l4_reach lib s \<Longrightarrow> l4_reach lib (snd (apply_committed_diff lib i seq h d s))"
| observe: "l4_reach lib s \<Longrightarrow> l4_reach lib (snd (observe_provisional i payload s))"

definition l4_ok :: "l4_reconstruction \<Rightarrow> bool" where
  "l4_ok s \<longleftrightarrow> book_reach (l4_book s) \<and> bt_sorted (<) (committed s) \<and> bt_sorted (<) (provisional s)
     \<and> length (provisional s) \<le> max_provisional s"

lemma commit_input_cases:
  "commit_input i hash f s = r \<Longrightarrow>
     (\<exists>e. r = (Inl e, s) \<and> (hash = Inl e \<or> e = Conflict i))
   \<or> (\<exists>h. hash = Inr h \<and> bt_get (<) i (committed s) = Some h \<and> r = (require_healthy s, s))
   \<or> (\<exists>h e. hash = Inr h \<and> bt_get (<) i (committed s) = None
        \<and> require_healthy (s\<lparr>l4_book := f (l4_book s)\<rparr>) = Inl e \<and> r = (Inl e, s\<lparr>l4_book := f (l4_book s)\<rparr>))
   \<or> (\<exists>h. hash = Inr h \<and> bt_get (<) i (committed s) = None \<and> health (f (l4_book s)) = Healthy
        \<and> r = (Inr (), s\<lparr>l4_book := f (l4_book s), committed := bt_insert (<) i h (committed s)\<rparr>))"
  by (cases hash)
     (auto simp: commit_input_def already_committed_def require_healthy_def Let_def
       split: option.splits if_splits sum.splits book_health.splits)

lemma commit_input_ok:
  assumes "l4_ok s" and "book_reach (f (l4_book s))"
  shows "l4_ok (snd (commit_input i hash f s))"
  using commit_input_cases [of i hash f s, OF refl] assms
  by (auto simp: l4_ok_def lin.bt_sorted_insert)

lemma observe_ok: "l4_ok s \<Longrightarrow> l4_ok (snd (observe_provisional i payload s))"
  by (auto simp: l4_ok_def observe_provisional_def lin.bt_sorted_insert lin.length_bt_insert
      split: option.splits)

lemma l4_reach_ok: "l4_reach lib s \<Longrightarrow> l4_ok s"
proof (induction rule: l4_reach.induct)
  case (init m h n p)
  show ?case by (simp add: l4_ok_def l4_awaiting_snapshot_bounded_def book_reach.init)
next
  case (snapshot s i seq h orders)
  then show ?case unfolding apply_committed_snapshot_def
    by (intro commit_input_ok) (auto simp: l4_ok_def intro: book_reach.snapshot)
next
  case (diff s i seq h d)
  then show ?case unfolding apply_committed_diff_def
    by (intro commit_input_ok) (auto simp: l4_ok_def intro: book_reach.diff)
qed (simp add: observe_ok)

lemma commit_input_replay:
  assumes "bt_sorted (<) (committed s)" and "commit_input i hash f s = (Inr (), s')"
  shows "commit_input i hash g s' = (Inr (), s')"
    and "hash2 = Inr h2 \<Longrightarrow> hash2 \<noteq> hash \<Longrightarrow> commit_input i hash2 g s' = (Inl (Conflict i), s')"
proof -
  have "\<exists>h. hash = Inr h \<and> bt_get (<) i (committed s') = Some h \<and> health (l4_book s') = Healthy"
    using commit_input_cases [OF assms(2)] assms(1)
    by (auto simp: require_healthy_def split: book_health.splits)
  then obtain h where h: "hash = Inr h" "bt_get (<) i (committed s') = Some h"
    "health (l4_book s') = Healthy" by blast
  show "commit_input i hash g s' = (Inr (), s')"
    using h by (simp add: commit_input_def already_committed_def require_healthy_def)
  show "hash2 = Inr h2 \<Longrightarrow> hash2 \<noteq> hash \<Longrightarrow> commit_input i hash2 g s' = (Inl (Conflict i), s')"
    using h by (simp add: commit_input_def already_committed_def)
qed


definition sample_l4 :: l4_reconstruction where
  "sample_l4 = snd (apply_committed_snapshot sample_library ''s'' 1 7 [sample_bid, sample_ask]
     (l4_awaiting_snapshot_bounded ''BTC'' 0 10 4))"

lemma sample_l4_reach: "l4_reach sample_library sample_l4"
  unfolding sample_l4_def by (intro l4_reach.intros)

lemma sample_l4_eq:
  "l4_book sample_l4 = sample_book" "committed sample_l4 = [(''s'', replicate 32 7)]"
proof -
  have hash: "snapshot_hash sample_library 1 7 [sample_bid, sample_ask] = Inr (replicate 32 7)"
    by (simp add: snapshot_hash_def canonical_order_bytes_def sample_encode)
       (simp add: sample_library_def Let_def)
  have book: "apply_snapshot 1 7 [sample_bid, sample_ask] (awaiting_snapshot_bounded ''BTC'' 0 10) = sample_book"
    by (simp add: sample_book_def)
  show "l4_book sample_l4 = sample_book" "committed sample_l4 = [(''s'', replicate 32 7)]"
    by (simp_all add: sample_l4_def apply_committed_snapshot_def commit_input_def hash already_committed_def
        l4_awaiting_snapshot_bounded_def book require_healthy_def sample_health)
qed


text \<open>
  C29. A reconstruction keeps its bounds and its book: whatever is presented, the book is one
  that snapshots and diffs can produce (so the order book invariant holds of it), the number
  of unmatched provisional observations never exceeds the bound, and a refused or
  conflicting provisional observation changes nothing.
\<close>

theorem l4_reconstruction_invariant:
  assumes "l4_reach lib s"
  shows "book_reach (l4_book s) \<and> book_ok (l4_book s) \<and> length (provisional s) \<le> max_provisional s
    \<and> (fst (observe_provisional i payload s) \<noteq> Inr () \<longrightarrow> snd (observe_provisional i payload s) = s)"
proof -
  have ok: "l4_ok s" using l4_reach_ok [OF assms] .
  then show ?thesis using book_reach_ok
    by (auto simp: l4_ok_def observe_provisional_def split: option.splits)
qed

theorem l4_reconstruction_invariant_witness:
  "l4_reach sample_library sample_l4 \<and> book_ok (l4_book sample_l4)"
  using l4_reconstruction_invariant [OF sample_l4_reach] sample_l4_reach by blast

text \<open>
  C30. The content hash of a diff does not determine the diff: the order id, the size and the
  price are concatenated without lengths, so for every library the fill of size 23 of order
  \<open>o1\<close> and the fill of size 3 of order \<open>o12\<close> have the same hash. Presented under an id that
  was used for the first, the second is therefore taken for a replay and dropped without a
  conflict.
\<close>

theorem l4_diff_hash_collision:
  "diff_hash lib seq h (Fill ''o1'' \<lparr>raw = 23, scale = 0\<rparr>) = diff_hash lib seq h (Fill ''o12'' \<lparr>raw = 3, scale = 0\<rparr>)
   \<and> (bt_get (<) i (committed s) = Some (content_hash lib (be64 seq @ be64 h @ str_bytes ''fillo123'')) \<longrightarrow>
       health (l4_book s) = Healthy \<longrightarrow>
       apply_committed_diff lib i seq h (Fill ''o12'' \<lparr>raw = 3, scale = 0\<rparr>) s = (Inr (), s)
       \<and> apply_committed_diff lib i seq h (Fill ''o1'' \<lparr>raw = 23, scale = 0\<rparr>) s = (Inr (), s))"
proof -
  have d: "decimal_display \<lparr>raw = 23, scale = 0\<rparr> = ''23''" "decimal_display \<lparr>raw = 3, scale = 0\<rparr> = ''3''"
    by code_simp+
  have "diff_hash lib seq h (Fill ''o1'' \<lparr>raw = 23, scale = 0\<rparr>) = Inr (content_hash lib (be64 seq @ be64 h @ str_bytes ''fillo123''))"
    "diff_hash lib seq h (Fill ''o12'' \<lparr>raw = 3, scale = 0\<rparr>) = Inr (content_hash lib (be64 seq @ be64 h @ str_bytes ''fillo123''))"
    by (simp_all add: diff_hash_def d str_bytes_def)
  then show ?thesis
    by (simp add: apply_committed_diff_def commit_input_def already_committed_def require_healthy_def)
qed

theorem l4_diff_hash_collision_witness:
  "\<exists>s. health (l4_book s) = Healthy
     \<and> apply_committed_diff sample_library ''f'' 2 8 (Fill ''o12'' \<lparr>raw = 3, scale = 0\<rparr>) s = (Inr (), s)"
proof -
  define s where "s = sample_l4\<lparr>committed := [(''f'',
    content_hash sample_library (be64 2 @ be64 8 @ str_bytes ''fillo123''))]\<rparr>"
  have "health (l4_book s) = Healthy" by (simp add: s_def sample_l4_eq sample_health)
  moreover have "bt_get (<) ''f'' (committed s) =
      Some (content_hash sample_library (be64 2 @ be64 8 @ str_bytes ''fillo123''))"
    by (simp add: s_def)
  ultimately show ?thesis
    using l4_diff_hash_collision [of sample_library 2 8 "''f''" s] by blast
qed

end
