(* ===== verification/Canonical_Event.thy ===== *)
theory Canonical_Event
  imports Domain_Ids "HOL-Library.Product_Lexorder" "HOL-Library.Option_ord"
begin

text \<open>
  Canonical events, \<^verbatim>\<open>crates/canonical-events/src/lib.rs\<close>, \<^verbatim>\<open>input.rs\<close> and \<^verbatim>\<open>event_id.rs\<close>:
  the event kinds, the payloads of orders and trades, the envelope with its identity, and
  the merge of the evidence two sources give for the same event. A payload that no modelled
  component reads is kept as its kind and its encoded bytes, which is what the source does
  for the kinds its \<^verbatim>\<open>opaque_payloads!\<close> macro lists.
\<close>

section \<open>Kinds and payloads\<close>

datatype confirmation_class =
    ProvisionalSource
  | CommittedPrimary
  | CommittedIndependent
  | ReconciledSnapshot
  | Corrected
  | Expired

datatype contract_error =
    UnsupportedSchema string
  | Missing string
  | ContractInvalid string string
  | WireDecode string

fun wire_value :: "confirmation_class \<Rightarrow> int" where
  "wire_value ProvisionalSource = 1"
| "wire_value CommittedPrimary = 2"
| "wire_value CommittedIndependent = 3"
| "wire_value ReconciledSnapshot = 4"
| "wire_value Corrected = 5"
| "wire_value Expired = 6"

definition int_display :: "int \<Rightarrow> string" where
  "int_display v = (if v < 0 then ''-'' else []) @ nat_dec (nat \<bar>v\<bar>)"

definition confirmation_from_wire :: "int \<Rightarrow> contract_error + confirmation_class" where
  "confirmation_from_wire v =
     (if v = 1 then Inr ProvisionalSource
      else if v = 2 then Inr CommittedPrimary
      else if v = 3 then Inr CommittedIndependent
      else if v = 4 then Inr ReconciledSnapshot
      else if v = 5 then Inr Corrected
      else if v = 6 then Inr Expired
      else Inl (ContractInvalid ''confirmation_class'' (''unknown numeric value '' @ int_display v)))"

datatype event_kind =
    OrderAccepted | OrderRested | OrderModified | OrderPartiallyFilled | OrderFilled
  | OrderCancelled | OrderRejected | TriggerOrderActivated | TwapStarted | TwapSliceFilled
  | TwapCompleted | TradeMatched | DepositCredited | WithdrawalDebited | SpotTransfer
  | PerpTransfer | SubaccountTransfer | VaultDeposit | VaultWithdrawal | FeeCharged
  | BuilderFeeCharged | FundingPaid | FundingReceived | ReferralReward | AccountModeChanged
  | MarginModeChanged | LeverageChanged | LiquidationStarted | LiquidationFill
  | BackstopLiquidation | PositionSettled | MarketHalted | MarketResumed
  | OpenInterestCapChanged | MarginTableChanged | MarketCreated | MarketMetadataChanged
  | OracleUpdated | FundingRateUpdated | AssetContextUpdated | DexCreated | OutcomeCreated
  | OutcomeResolved | NonUserOrderCancelled | InternalTransfer | AccountClassTransfer
  | VaultCreated | VaultDistribution | VaultLeaderCommissionPaid | RewardClaimed
  | SpotGenesisApplied | StakingDeposit | StakingDelegated | StakingUndelegated
  | StakingWithdrawalQueued | StakingWithdrawalCompleted | ValidatorRewardPaid

text \<open>The kinds with their wire names, in the order of \<^verbatim>\<open>EventKind::ALL\<close>.\<close>

definition kind_names :: "(event_kind \<times> string) list" where
  "kind_names =
    [(OrderAccepted, ''OrderAccepted''), (OrderRested, ''OrderRested''),
     (OrderModified, ''OrderModified''), (OrderPartiallyFilled, ''OrderPartiallyFilled''),
     (OrderFilled, ''OrderFilled''), (OrderCancelled, ''OrderCancelled''),
     (OrderRejected, ''OrderRejected''), (TriggerOrderActivated, ''TriggerOrderActivated''),
     (TwapStarted, ''TwapStarted''), (TwapSliceFilled, ''TwapSliceFilled''),
     (TwapCompleted, ''TwapCompleted''), (TradeMatched, ''TradeMatched''),
     (DepositCredited, ''DepositCredited''), (WithdrawalDebited, ''WithdrawalDebited''),
     (SpotTransfer, ''SpotTransfer''), (PerpTransfer, ''PerpTransfer''),
     (SubaccountTransfer, ''SubaccountTransfer''), (VaultDeposit, ''VaultDeposit''),
     (VaultWithdrawal, ''VaultWithdrawal''), (FeeCharged, ''FeeCharged''),
     (BuilderFeeCharged, ''BuilderFeeCharged''), (FundingPaid, ''FundingPaid''),
     (FundingReceived, ''FundingReceived''), (ReferralReward, ''ReferralReward''),
     (AccountModeChanged, ''AccountModeChanged''), (MarginModeChanged, ''MarginModeChanged''),
     (LeverageChanged, ''LeverageChanged''), (LiquidationStarted, ''LiquidationStarted''),
     (LiquidationFill, ''LiquidationFill''), (BackstopLiquidation, ''BackstopLiquidation''),
     (PositionSettled, ''PositionSettled''), (MarketHalted, ''MarketHalted''),
     (MarketResumed, ''MarketResumed''), (OpenInterestCapChanged, ''OpenInterestCapChanged''),
     (MarginTableChanged, ''MarginTableChanged''), (MarketCreated, ''MarketCreated''),
     (MarketMetadataChanged, ''MarketMetadataChanged''), (OracleUpdated, ''OracleUpdated''),
     (FundingRateUpdated, ''FundingRateUpdated''), (AssetContextUpdated, ''AssetContextUpdated''),
     (DexCreated, ''DexCreated''), (OutcomeCreated, ''OutcomeCreated''),
     (OutcomeResolved, ''OutcomeResolved''), (NonUserOrderCancelled, ''NonUserOrderCancelled''),
     (InternalTransfer, ''InternalTransfer''), (AccountClassTransfer, ''AccountClassTransfer''),
     (VaultCreated, ''VaultCreated''), (VaultDistribution, ''VaultDistribution''),
     (VaultLeaderCommissionPaid, ''VaultLeaderCommissionPaid''), (RewardClaimed, ''RewardClaimed''),
     (SpotGenesisApplied, ''SpotGenesisApplied''), (StakingDeposit, ''StakingDeposit''),
     (StakingDelegated, ''StakingDelegated''), (StakingUndelegated, ''StakingUndelegated''),
     (StakingWithdrawalQueued, ''StakingWithdrawalQueued''),
     (StakingWithdrawalCompleted, ''StakingWithdrawalCompleted''),
     (ValidatorRewardPaid, ''ValidatorRewardPaid'')]"

definition kind_wire_name :: "event_kind \<Rightarrow> string" where
  "kind_wire_name k = (case map_of kind_names k of Some n \<Rightarrow> n | None \<Rightarrow> [])"

definition kind_from_wire :: "string \<Rightarrow> contract_error + event_kind" where
  "kind_from_wire s =
     (case map_of (map (\<lambda>(k, n). (n, k)) kind_names) s of
        Some k \<Rightarrow> Inr k
      | None \<Rightarrow> Inl (ContractInvalid ''event_kind'' (''unknown event kind '' @ s)))"

text \<open>One evaluation for all kinds: the names are distinct, none is empty, every kind is listed.\<close>

lemma kind_names_distinct: "distinct (map snd kind_names) \<and> [] \<notin> set (map snd kind_names)"
  by code_simp

lemma kind_listed: "map_of kind_names k \<noteq> None"
  by (cases k) (simp_all only: kind_names_def map_of.simps fst_conv snd_conv fun_upd_same fun_upd_apply event_kind.distinct if_False if_True option.distinct simp_thms)

lemma kind_wire_name_in: "(k, kind_wire_name k) \<in> set kind_names"
  using kind_listed [of k] by (auto simp: kind_wire_name_def dest: map_of_SomeD)

lemma kind_wire_name_neq_Nil: "kind_wire_name k \<noteq> []"
  using kind_names_distinct kind_wire_name_in [of k] by (metis image_eqI list.set_map snd_conv)

lemma kind_roundtrip: "kind_from_wire (kind_wire_name k) = Inr k"
proof -
  have "distinct (map fst (map (\<lambda>(k, n). (n, k)) kind_names))"
    using kind_names_distinct by (simp add: comp_def split_def)
  moreover have "(kind_wire_name k, k) \<in> set (map (\<lambda>(k, n). (n, k)) kind_names)"
    using kind_wire_name_in [of k] by force
  ultimately show ?thesis unfolding kind_from_wire_def by (simp add: map_of_is_SomeI)
qed

lemma short_kind_wire_name: "short (kind_wire_name k)"
proof -
  have "\<forall>n \<in> set (map snd kind_names). length n \<le> 30" by code_simp
  then have "length (kind_wire_name k) \<le> 30" using kind_wire_name_in [of k] by fastforce
  then show ?thesis by (simp add: short_def)
qed

lemma kind_wire_name_inject: "kind_wire_name k = kind_wire_name l \<longleftrightarrow> k = l"
  using kind_roundtrip by (metis Inr_inject)

record order_accepted =
  oa_order_id :: order_id
  oa_account_id :: address
  oa_market_id :: market_id
  oa_side :: order_side
  oa_limit_price :: decimal
  oa_quantity :: decimal

record order_rested =
  or_order_id :: order_id
  or_market_id :: market_id
  or_remaining_quantity :: decimal
  or_limit_price :: decimal

record order_modified =
  om_order_id :: order_id
  om_previous_price :: decimal
  om_new_price :: decimal
  om_previous_quantity :: decimal
  om_new_quantity :: decimal

record order_partially_filled =
  op_order_id :: order_id
  op_trade_id :: string
  op_fill_price :: decimal
  op_fill_quantity :: decimal
  op_remaining_quantity :: decimal

record order_filled =
  of_order_id :: order_id
  of_trade_id :: string
  of_fill_price :: decimal
  of_fill_quantity :: decimal

record order_cancelled =
  oc_order_id :: order_id
  oc_reason :: string
  oc_remaining_quantity :: decimal

record order_rejected =
  oj_client_order_id :: client_order_id
  oj_account_id :: address
  oj_reason_code :: string
  oj_reason :: string

datatype trade_role = Buyer | Seller

record trade_participant =
  tp_role :: trade_role
  tp_account_id :: address
  tp_start_position :: decimal
  tp_order_id :: order_id
  tp_twap_id :: "u64 option"
  tp_client_order_id :: "client_order_id option"

record trade_matched =
  tm_trade_id :: "string option"
  tm_market_id :: "market_id option"
  tm_maker_order_id :: "order_id option"
  tm_taker_order_id :: "order_id option"
  tm_price :: decimal
  tm_quantity :: decimal
  tm_deterministic_seed :: u64
  tm_participants :: "(trade_participant \<times> trade_participant) option"

datatype event_payload =
    OrderAcceptedPayload order_accepted
  | OrderRestedPayload order_rested
  | OrderModifiedPayload order_modified
  | OrderPartiallyFilledPayload order_partially_filled
  | OrderFilledPayload order_filled
  | OrderCancelledPayload order_cancelled
  | OrderRejectedPayload order_rejected
  | TradeMatchedPayload trade_matched
  | EncodedPayload event_kind bytes

fun payload_kind :: "event_payload \<Rightarrow> event_kind" where
  "payload_kind (OrderAcceptedPayload _) = OrderAccepted"
| "payload_kind (OrderRestedPayload _) = OrderRested"
| "payload_kind (OrderModifiedPayload _) = OrderModified"
| "payload_kind (OrderPartiallyFilledPayload _) = OrderPartiallyFilled"
| "payload_kind (OrderFilledPayload _) = OrderFilled"
| "payload_kind (OrderCancelledPayload _) = OrderCancelled"
| "payload_kind (OrderRejectedPayload _) = OrderRejected"
| "payload_kind (TradeMatchedPayload _) = TradeMatched"
| "payload_kind (EncodedPayload k _) = k"

definition validate_trade_account_binding ::
  "event_payload \<Rightarrow> address list \<Rightarrow> contract_error + unit" where
  "validate_trade_account_binding payload account_ids =
     (case payload of
        TradeMatchedPayload t \<Rightarrow>
          (case tm_participants t of
             Some (buyer, seller) \<Rightarrow>
               if account_ids \<noteq> [tp_account_id buyer, tp_account_id seller]
               then Inl (ContractInvalid ''account_ids''
                 ''TradeMatched envelope accounts must exactly match participant buyer/seller order'')
               else Inr ()
           | None \<Rightarrow> Inr ())
      | _ \<Rightarrow> Inr ())"

section \<open>Envelopes\<close>

record source_evidence =
  se_source_id :: source_id
  se_source_version :: string
  se_source_offset :: string
  se_content_hash :: hash
  se_event_index :: "u32 option"

record canonical_event =
  e_schema_version :: string
  e_chain_id :: chain_id
  e_block_height :: block_height
  e_block_time :: int
  e_transaction_id :: string
  e_transaction_index :: u32
  e_event_index :: u32
  e_event_id :: string
  e_market_ids :: "market_id list"
  e_account_ids :: "address list"
  e_source_evidence :: "source_evidence list"
  e_confirmation_class :: confirmation_class
  e_observed_at :: int
  e_ingested_at :: int
  e_canonicalized_at :: int
  e_payload_hash :: hash
  e_parser_version :: string
  e_payload :: event_payload
  e_encoded_payload :: bytes
  e_superseded_event_id :: "string option"

record canonical_event_input =
  i_schema_version :: string
  i_chain_id :: chain_id
  i_block_height :: block_height
  i_block_time :: int
  i_transaction_id :: string
  i_transaction_index :: u32
  i_event_index :: u32
  i_market_ids :: "market_id list"
  i_account_ids :: "address list"
  i_source_evidence :: "source_evidence list"
  i_confirmation_class :: confirmation_class
  i_observed_at :: int
  i_ingested_at :: int
  i_canonicalized_at :: int
  i_parser_version :: string
  i_payload :: event_payload

text \<open>
  What the event code takes from elsewhere: the semantic version parser (major number,
  pre-release and build text), the two uses of blake3, the lower-case hex writer, and the
  protobuf codec of payloads (generated messages and their field checks).
\<close>

record event_library =
  semver_parse :: "string \<Rightarrow> string + (u64 \<times> string \<times> string)"
  blake3 :: "bytes \<Rightarrow> hash"
  derive_key :: "string \<Rightarrow> bytes \<Rightarrow> hash"
  to_hex :: "bytes \<Rightarrow> string"
  encode_payload :: "event_payload \<Rightarrow> contract_error + bytes"

definition SCHEMA_MAJOR :: u64 where
  "SCHEMA_MAJOR = 1"

definition EVENT_ID_CONTEXT :: string where
  "EVENT_ID_CONTEXT = ''hyperliquid-alpha-desk/event-id/v1''"

record event_identity =
  id_chain_id :: chain_id
  id_block_height :: block_height
  id_transaction_identity :: string
  id_event_index :: u32
  id_event_kind :: event_kind
  id_schema_major :: u64

text \<open>The bytes the hasher is fed with.\<close>

definition event_id_preimage :: "event_identity \<Rightarrow> bytes" where
  "event_id_preimage i =
     frame (str_bytes (id_chain_id i)) @ be64 (id_block_height i)
     @ frame (str_bytes (id_transaction_identity i)) @ be32 (id_event_index i)
     @ frame (str_bytes (kind_wire_name (id_event_kind i))) @ be64 (id_schema_major i)"

definition compute_event_id :: "event_library \<Rightarrow> event_identity \<Rightarrow> string" where
  "compute_event_id lib i = ''evt_'' @ to_hex lib (derive_key lib EVENT_ID_CONTEXT (event_id_preimage i))"

definition event_identity_of :: "canonical_event \<Rightarrow> event_identity" where
  "event_identity_of e =
     \<lparr>id_chain_id = e_chain_id e, id_block_height = e_block_height e,
      id_transaction_identity = e_transaction_id e, id_event_index = e_event_index e,
      id_event_kind = payload_kind (e_payload e), id_schema_major = SCHEMA_MAJOR\<rparr>"

definition expected_event_id :: "event_library \<Rightarrow> canonical_event \<Rightarrow> string" where
  "expected_event_id lib e = compute_event_id lib (event_identity_of e)"

definition validate_schema_version :: "event_library \<Rightarrow> string \<Rightarrow> contract_error + unit" where
  "validate_schema_version lib v =
     (if v = [] then Inl (Missing ''schema_version'')
      else
        rbind (map_err (\<lambda>e. ContractInvalid ''schema_version''
                 (''expected canonical numeric MAJOR.MINOR.PATCH: '' @ e)) (semver_parse lib v))
          (\<lambda>(major, pre, build).
        if pre \<noteq> [] \<or> build \<noteq> []
        then Inl (ContractInvalid ''schema_version'' ''pre-release and build metadata are forbidden'')
        else if major \<noteq> SCHEMA_MAJOR then Inl (UnsupportedSchema v)
        else Inr ()))"

definition required :: "string \<Rightarrow> string \<Rightarrow> contract_error + string" where
  "required v field =
     (if v = [] then Inl (Missing field)
      else if \<not> is_trimmed v
      then Inl (ContractInvalid field ''leading or trailing whitespace is forbidden'')
      else Inr v)"

definition source_evidence_new ::
  "source_id \<Rightarrow> string \<Rightarrow> string \<Rightarrow> hash \<Rightarrow> contract_error + source_evidence" where
  "source_evidence_new sid version offset h =
     rbind (required version ''source_evidence.source_version'') (\<lambda>v.
     rbind (required offset ''source_evidence.source_offset'') (\<lambda>off.
     Inr \<lparr>se_source_id = sid, se_source_version = v, se_source_offset = off, se_content_hash = h,
          se_event_index = None\<rparr>))"

definition source_evidence_new_indexed ::
  "source_id \<Rightarrow> string \<Rightarrow> string \<Rightarrow> hash \<Rightarrow> u32 \<Rightarrow> contract_error + source_evidence" where
  "source_evidence_new_indexed sid version offset h index =
     rmap (\<lambda>e. e\<lparr>se_event_index := Some index\<rparr>) (source_evidence_new sid version offset h)"

definition from_input :: "event_library \<Rightarrow> canonical_event_input \<Rightarrow> contract_error + canonical_event" where
  "from_input lib i =
     rbind (validate_schema_version lib (i_schema_version i)) (\<lambda>_.
     if i_source_evidence i = [] then Inl (Missing ''source_evidence'')
     else if i_observed_at i > i_ingested_at i \<or> i_ingested_at i > i_canonicalized_at i
     then Inl (ContractInvalid ''lifecycle_times''
       ''expected observed_at <= ingested_at <= canonicalized_at'')
     else
       rbind (required (i_parser_version i) ''parser_version'') (\<lambda>parser_version.
       rbind (encode_payload lib (i_payload i)) (\<lambda>payload_bytes.
       rbind (validate_trade_account_binding (i_payload i) (i_account_ids i)) (\<lambda>_.
       Inr \<lparr>e_schema_version = i_schema_version i, e_chain_id = i_chain_id i,
            e_block_height = i_block_height i, e_block_time = i_block_time i,
            e_transaction_id = i_transaction_id i, e_transaction_index = i_transaction_index i,
            e_event_index = i_event_index i,
            e_event_id = compute_event_id lib
              \<lparr>id_chain_id = i_chain_id i, id_block_height = i_block_height i,
               id_transaction_identity = i_transaction_id i, id_event_index = i_event_index i,
               id_event_kind = payload_kind (i_payload i), id_schema_major = SCHEMA_MAJOR\<rparr>,
            e_market_ids = i_market_ids i, e_account_ids = i_account_ids i,
            e_source_evidence = i_source_evidence i,
            e_confirmation_class = i_confirmation_class i, e_observed_at = i_observed_at i,
            e_ingested_at = i_ingested_at i, e_canonicalized_at = i_canonicalized_at i,
            e_payload_hash = blake3 lib payload_bytes, e_parser_version = parser_version,
            e_payload = i_payload i, e_encoded_payload = payload_bytes,
            e_superseded_event_id = None\<rparr>))))"

section \<open>Merging evidence\<close>

datatype evidence_merge_error =
    CanonicalContentMismatch
  | SourceEvidenceConflict source_id hash hash

text \<open>\<^verbatim>\<open>PartialEq\<close> of payloads compares decimals by value, so it is weaker than equality.\<close>

definition rel_opt :: "('a \<Rightarrow> 'a \<Rightarrow> bool) \<Rightarrow> 'a option \<Rightarrow> 'a option \<Rightarrow> bool" where
  "rel_opt eq x y = (case (x, y) of (None, None) \<Rightarrow> True | (Some a, Some b) \<Rightarrow> eq a b | _ \<Rightarrow> False)"

definition participant_eq :: "trade_participant \<Rightarrow> trade_participant \<Rightarrow> bool" where
  "participant_eq a b \<longleftrightarrow>
     tp_role a = tp_role b \<and> tp_account_id a = tp_account_id b
     \<and> decimal_eq (tp_start_position a) (tp_start_position b) \<and> tp_order_id a = tp_order_id b
     \<and> tp_twap_id a = tp_twap_id b \<and> tp_client_order_id a = tp_client_order_id b"

fun payload_eq :: "event_payload \<Rightarrow> event_payload \<Rightarrow> bool" where
  "payload_eq (OrderAcceptedPayload a) (OrderAcceptedPayload b) \<longleftrightarrow>
     oa_order_id a = oa_order_id b \<and> oa_account_id a = oa_account_id b
     \<and> oa_market_id a = oa_market_id b \<and> oa_side a = oa_side b
     \<and> decimal_eq (oa_limit_price a) (oa_limit_price b) \<and> decimal_eq (oa_quantity a) (oa_quantity b)"
| "payload_eq (OrderRestedPayload a) (OrderRestedPayload b) \<longleftrightarrow>
     or_order_id a = or_order_id b \<and> or_market_id a = or_market_id b
     \<and> decimal_eq (or_remaining_quantity a) (or_remaining_quantity b)
     \<and> decimal_eq (or_limit_price a) (or_limit_price b)"
| "payload_eq (OrderModifiedPayload a) (OrderModifiedPayload b) \<longleftrightarrow>
     om_order_id a = om_order_id b \<and> decimal_eq (om_previous_price a) (om_previous_price b)
     \<and> decimal_eq (om_new_price a) (om_new_price b)
     \<and> decimal_eq (om_previous_quantity a) (om_previous_quantity b)
     \<and> decimal_eq (om_new_quantity a) (om_new_quantity b)"
| "payload_eq (OrderPartiallyFilledPayload a) (OrderPartiallyFilledPayload b) \<longleftrightarrow>
     op_order_id a = op_order_id b \<and> op_trade_id a = op_trade_id b
     \<and> decimal_eq (op_fill_price a) (op_fill_price b)
     \<and> decimal_eq (op_fill_quantity a) (op_fill_quantity b)
     \<and> decimal_eq (op_remaining_quantity a) (op_remaining_quantity b)"
| "payload_eq (OrderFilledPayload a) (OrderFilledPayload b) \<longleftrightarrow>
     of_order_id a = of_order_id b \<and> of_trade_id a = of_trade_id b
     \<and> decimal_eq (of_fill_price a) (of_fill_price b)
     \<and> decimal_eq (of_fill_quantity a) (of_fill_quantity b)"
| "payload_eq (OrderCancelledPayload a) (OrderCancelledPayload b) \<longleftrightarrow>
     oc_order_id a = oc_order_id b \<and> oc_reason a = oc_reason b
     \<and> decimal_eq (oc_remaining_quantity a) (oc_remaining_quantity b)"
| "payload_eq (OrderRejectedPayload a) (OrderRejectedPayload b) \<longleftrightarrow> a = b"
| "payload_eq (TradeMatchedPayload a) (TradeMatchedPayload b) \<longleftrightarrow>
     tm_trade_id a = tm_trade_id b \<and> tm_market_id a = tm_market_id b
     \<and> tm_maker_order_id a = tm_maker_order_id b \<and> tm_taker_order_id a = tm_taker_order_id b
     \<and> decimal_eq (tm_price a) (tm_price b) \<and> decimal_eq (tm_quantity a) (tm_quantity b)
     \<and> tm_deterministic_seed a = tm_deterministic_seed b
     \<and> rel_opt (\<lambda>(x, y) (x', y'). participant_eq x x' \<and> participant_eq y y')
         (tm_participants a) (tm_participants b)"
| "payload_eq (EncodedPayload k a) (EncodedPayload l b) \<longleftrightarrow> k = l \<and> a = b"
| "payload_eq _ _ \<longleftrightarrow> False"

definition has_same_canonical_content :: "canonical_event \<Rightarrow> canonical_event \<Rightarrow> bool" where
  "has_same_canonical_content a b \<longleftrightarrow>
     e_schema_version a = e_schema_version b \<and> e_chain_id a = e_chain_id b
     \<and> e_block_height a = e_block_height b \<and> e_block_time a = e_block_time b
     \<and> e_transaction_id a = e_transaction_id b \<and> e_transaction_index a = e_transaction_index b
     \<and> e_event_index a = e_event_index b \<and> e_event_id a = e_event_id b
     \<and> e_market_ids a = e_market_ids b \<and> e_account_ids a = e_account_ids b
     \<and> e_payload_hash a = e_payload_hash b \<and> payload_eq (e_payload a) (e_payload b)
     \<and> e_encoded_payload a = e_encoded_payload b
     \<and> e_superseded_event_id a = e_superseded_event_id b"

definition same_evidence_locator :: "source_evidence \<Rightarrow> source_evidence \<Rightarrow> bool" where
  "same_evidence_locator l r \<longleftrightarrow>
     se_source_id l = se_source_id r \<and> se_source_version l = se_source_version r
     \<and> se_source_offset l = se_source_offset r \<and> se_event_index l = se_event_index r"

text \<open>The key whose lexicographic order is \<^verbatim>\<open>compare_source_evidence\<close>.\<close>

definition evidence_key :: "source_evidence \<Rightarrow> string \<times> string \<times> string \<times> u32 option \<times> hash" where
  "evidence_key e =
     (se_source_id e, se_source_version e, se_source_offset e, se_event_index e, se_content_hash e)"

definition evidence_conflict ::
  "source_evidence \<Rightarrow> source_evidence list \<Rightarrow> evidence_merge_error option" where
  "evidence_conflict existing others =
     (case find (\<lambda>c. same_evidence_locator existing c \<and> se_content_hash existing \<noteq> se_content_hash c) others of
        Some c \<Rightarrow> Some (SourceEvidenceConflict (se_source_id existing) (se_content_hash existing) (se_content_hash c))
      | None \<Rightarrow> None)"

fun first_conflict ::
  "source_evidence list \<Rightarrow> source_evidence list \<Rightarrow> evidence_merge_error option" where
  "first_conflict [] others = None"
| "first_conflict (e # es) others =
     (case evidence_conflict e others of Some c \<Rightarrow> Some c | None \<Rightarrow> first_conflict es others)"

definition merge_matching_source_evidence ::
  "canonical_event \<Rightarrow> canonical_event \<Rightarrow> evidence_merge_error + canonical_event" where
  "merge_matching_source_evidence a b =
     (if \<not> has_same_canonical_content a b then Inl CanonicalContentMismatch
      else
        case first_conflict (e_source_evidence a) (e_source_evidence b) of
          Some c \<Rightarrow> Inl c
        | None \<Rightarrow>
            Inr (a\<lparr>e_source_evidence :=
              remdups_adj (sort_key evidence_key (e_source_evidence a @ e_source_evidence b))\<rparr>))"

section \<open>Properties\<close>

lemma evidence_key_inject: "evidence_key a = evidence_key b \<longleftrightarrow> a = b"
  by (auto simp: evidence_key_def)

lemma distinct_remdups_adj_sorted: "sorted xs \<Longrightarrow> distinct (remdups_adj (xs :: 'a :: linorder list))"
proof (induction xs rule: remdups_adj.induct)
  case (3 x y xs)
  show ?case
  proof (cases "x = y")
    case False
    then have "x \<notin> set (y # xs)" using 3(3) by auto
    then show ?thesis using 3 False by simp
  qed (use 3 in simp)
qed simp_all

lemma map_key_dedup:
  "map evidence_key (remdups_adj (sort_key evidence_key xs)) = sorted_list_of_set (evidence_key ` set xs)"
proof -
  have inj: "inj evidence_key" by (simp add: inj_def evidence_key_inject)
  let ?l = "remdups_adj (map evidence_key (sort_key evidence_key xs))"
  have eq: "map evidence_key (remdups_adj (sort_key evidence_key xs)) = ?l"
    using remdups_adj_map_injective [OF inj] by metis
  have "sorted ?l" "distinct ?l" "set ?l = evidence_key ` set xs"
    using distinct_remdups_adj_sorted [OF sorted_sort_key] by simp_all
  then have "?l = sorted_list_of_set (evidence_key ` set xs)"
    by (metis List.finite_set sorted_distinct_set_unique sorted_list_of_set(1) distinct_sorted_list_of_set
        sorted_sorted_list_of_set)
  then show ?thesis using eq by simp
qed

lemma dedup_eq_iff:
  "remdups_adj (sort_key evidence_key xs) = remdups_adj (sort_key evidence_key ys) \<longleftrightarrow> set xs = set ys"
proof
  assume "set xs = set ys"
  then have "map evidence_key (remdups_adj (sort_key evidence_key xs)) =
      map evidence_key (remdups_adj (sort_key evidence_key ys))"
    by (simp add: map_key_dedup)
  then show "remdups_adj (sort_key evidence_key xs) = remdups_adj (sort_key evidence_key ys)"
    by (simp add: inj_map_eq_map inj_def evidence_key_inject)
qed (metis remdups_adj_set set_sort)

lemma evidence_conflict_None:
  "evidence_conflict e os = None \<longleftrightarrow>
     (\<forall>c \<in> set os. same_evidence_locator e c \<longrightarrow> se_content_hash e = se_content_hash c)"
  by (auto simp: evidence_conflict_def find_None_iff find_Some_iff split: option.splits)

lemma first_conflict_None:
  "first_conflict es os = None \<longleftrightarrow>
     (\<forall>e \<in> set es. \<forall>c \<in> set os. same_evidence_locator e c \<longrightarrow> se_content_hash e = se_content_hash c)"
proof (induction es)
  case (Cons e es)
  then show ?case using evidence_conflict_None [of e os] by (auto split: option.splits)
qed simp

lemma payload_eq_refl [simp]: "payload_eq p p"
  by (cases p) (auto simp: decimal_eq_def rel_opt_def participant_eq_def split: option.splits)

lemma payload_eq_kind: "payload_eq p q \<Longrightarrow> payload_kind p = payload_kind q"
  by (cases p; cases q) auto

lemma payload_eq_sym: "payload_eq p q \<Longrightarrow> payload_eq q p"
  by (cases p; cases q) (auto simp: decimal_eq_def rel_opt_def participant_eq_def split: option.splits)

lemma same_content_refl [simp]: "has_same_canonical_content a a"
  by (simp add: has_same_canonical_content_def)

lemma same_content_sym: "has_same_canonical_content a b \<Longrightarrow> has_same_canonical_content b a"
  by (auto simp: has_same_canonical_content_def payload_eq_sym)

lemma merge_evidence_Inr:
  "merge_matching_source_evidence a b = Inr m \<longleftrightarrow>
     has_same_canonical_content a b \<and> first_conflict (e_source_evidence a) (e_source_evidence b) = None
     \<and> m = a\<lparr>e_source_evidence :=
         remdups_adj (sort_key evidence_key (e_source_evidence a @ e_source_evidence b))\<rparr>"
  by (auto simp: merge_matching_source_evidence_def split: option.splits)

text \<open>
  C35. Event identifiers are unambiguous: the bytes hashed for an event id determine the chain,
  the height, the transaction, the position, the kind and the schema major, because every
  text is written with its length (for texts shorter than two to the sixty-four bytes).
\<close>

theorem event_identity_injective:
  assumes "short (id_chain_id i)" and "short (id_chain_id j)"
    and "short (id_transaction_identity i)" and "short (id_transaction_identity j)"
  shows "event_id_preimage i = event_id_preimage j \<longleftrightarrow> i = j"
proof
  assume "event_id_preimage i = event_id_preimage j"
  then have "id_chain_id i = id_chain_id j \<and> id_block_height i = id_block_height j
    \<and> id_transaction_identity i = id_transaction_identity j \<and> id_event_index i = id_event_index j
    \<and> kind_wire_name (id_event_kind i) = kind_wire_name (id_event_kind j)
    \<and> id_schema_major i = id_schema_major j"
    using assms short_kind_wire_name by (simp add: event_id_preimage_def frame_simps frame_inject)
  then show "i = j" by (simp add: kind_wire_name_inject)
qed simp

theorem event_identity_injective_witness:
  "event_id_preimage \<lparr>id_chain_id = ''ab'', id_block_height = 1, id_transaction_identity = ''c'',
     id_event_index = 0, id_event_kind = OrderFilled, id_schema_major = 1\<rparr>
   \<noteq> event_id_preimage \<lparr>id_chain_id = ''a'', id_block_height = 1, id_transaction_identity = ''bc'',
     id_event_index = 0, id_event_kind = OrderFilled, id_schema_major = 1\<rparr>"
  by (subst event_identity_injective) (simp_all add: short_def)

text \<open>
  C36. Merging evidence is a union: two events merge exactly when their canonical content is
  the same and no two pieces of evidence with the same locator have different hashes; the
  result has the content of the first and all the evidence of both, sorted and without
  duplicates. So the order in which sources report does not matter to the evidence, and
  merging again changes nothing.
\<close>

theorem evidence_merge_union:
  "((\<exists>m. merge_matching_source_evidence a b = Inr m) \<longleftrightarrow>
      has_same_canonical_content a b
      \<and> (\<forall>x y. x \<in> set (e_source_evidence a) \<and> y \<in> set (e_source_evidence b) \<and> same_evidence_locator x y
           \<longrightarrow> se_content_hash x = se_content_hash y))
   \<and> (\<forall>m. merge_matching_source_evidence a b = Inr m \<longrightarrow>
        has_same_canonical_content m a \<and> m = a\<lparr>e_source_evidence := e_source_evidence m\<rparr>
        \<and> set (e_source_evidence m) = set (e_source_evidence a) \<union> set (e_source_evidence b)
        \<and> sorted_wrt (\<lambda>x y. evidence_key x < evidence_key y) (e_source_evidence m)
        \<and> (\<exists>n. merge_matching_source_evidence b a = Inr n \<and> e_source_evidence n = e_source_evidence m)
        \<and> (first_conflict (e_source_evidence b) (e_source_evidence b) = None \<longrightarrow>
             merge_matching_source_evidence m b = Inr m))"
proof (intro conjI allI impI)
  show "(\<exists>m. merge_matching_source_evidence a b = Inr m) \<longleftrightarrow>
      has_same_canonical_content a b
      \<and> (\<forall>x y. x \<in> set (e_source_evidence a) \<and> y \<in> set (e_source_evidence b) \<and> same_evidence_locator x y
           \<longrightarrow> se_content_hash x = se_content_hash y)"
    by (auto simp: merge_evidence_Inr first_conflict_None)
next
  fix m assume m: "merge_matching_source_evidence a b = Inr m"
  then have m': "has_same_canonical_content a b" "first_conflict (e_source_evidence a) (e_source_evidence b) = None"
    "m = a\<lparr>e_source_evidence := remdups_adj (sort_key evidence_key (e_source_evidence a @ e_source_evidence b))\<rparr>"
    by (simp_all add: merge_evidence_Inr)
  show same: "has_same_canonical_content m a" using m'(3) by (simp add: has_same_canonical_content_def)
  show "m = a\<lparr>e_source_evidence := e_source_evidence m\<rparr>" using m'(3) by simp
  show ev: "set (e_source_evidence m) = set (e_source_evidence a) \<union> set (e_source_evidence b)"
    using m'(3) by simp
  have "sorted_wrt (<) (map evidence_key (e_source_evidence m))"
    using m'(3) by (simp add: map_key_dedup strict_sorted_iff)
  then show "sorted_wrt (\<lambda>x y. evidence_key x < evidence_key y) (e_source_evidence m)"
    by (simp add: sorted_wrt_map)
  have "first_conflict (e_source_evidence b) (e_source_evidence a) = None"
    using m'(2) by (fastforce simp: first_conflict_None same_evidence_locator_def)
  then show "\<exists>n. merge_matching_source_evidence b a = Inr n \<and> e_source_evidence n = e_source_evidence m"
    using same_content_sym [OF m'(1)] m'(3) by (simp add: merge_evidence_Inr dedup_eq_iff Un_commute)
  have "has_same_canonical_content m b" using m'(1,3) by (simp add: has_same_canonical_content_def)
  moreover have "remdups_adj (sort_key evidence_key (e_source_evidence m @ e_source_evidence b)) = e_source_evidence m"
    using m'(3) by (simp add: dedup_eq_iff)
  moreover assume "first_conflict (e_source_evidence b) (e_source_evidence b) = None"
  then have "first_conflict (e_source_evidence m) (e_source_evidence b) = None"
    using m'(2) ev by (auto simp: first_conflict_None)
  ultimately show "merge_matching_source_evidence m b = Inr m"
    by (simp add: merge_evidence_Inr)
qed

theorem evidence_merge_union_witness:
  "\<exists>a b m. a \<noteq> b \<and> merge_matching_source_evidence a b = Inr m
     \<and> set (e_source_evidence m) = set (e_source_evidence a) \<union> set (e_source_evidence b)"
proof -
  define ev where "ev = (\<lambda>s :: string. \<lparr>se_source_id = s, se_source_version = ''1'',
    se_source_offset = ''0'', se_content_hash = [], se_event_index = None\<rparr>)"
  define a where "a = (\<lambda>s. \<lparr>e_schema_version = ''1.0.0'', e_chain_id = ''c'', e_block_height = 1,
    e_block_time = 0, e_transaction_id = ''t'', e_transaction_index = 0, e_event_index = 0,
    e_event_id = ''e'', e_market_ids = [], e_account_ids = [], e_source_evidence = [ev s],
    e_confirmation_class = CommittedPrimary, e_observed_at = 0, e_ingested_at = 0,
    e_canonicalized_at = 0, e_payload_hash = [], e_parser_version = ''p'',
    e_payload = EncodedPayload DexCreated [], e_encoded_payload = [], e_superseded_event_id = None\<rparr>)"
  have "has_same_canonical_content (a ''x'') (a ''y'')" "a ''x'' \<noteq> a ''y''"
    "first_conflict (e_source_evidence (a ''x'')) (e_source_evidence (a ''y'')) = None"
    by (simp_all add: a_def ev_def has_same_canonical_content_def evidence_conflict_def
        same_evidence_locator_def)
  then show ?thesis
    using evidence_merge_union [of "a ''x''" "a ''y''"] by (metis first_conflict_None)
qed

end
