(* ===== verification/Canonical_Block.thy ===== *)
theory Canonical_Block
  imports Canonical_Event
begin

text \<open>
  Canonical blocks, \<^verbatim>\<open>crates/canonical-events/src/block.rs\<close>: the events of one height in
  transaction order, the block hash each source reported, and the hash over the canonical
  content that makes blocks of different sources comparable.
\<close>

definition BLOCK_HASH_CONTEXT :: string where
  "BLOCK_HASH_CONTEXT = ''hyperliquid-alpha-desk/canonical-block/v1''"

record block_envelope =
  b_chain_id :: chain_id
  b_block_height :: block_height
  b_block_time :: int
  b_confirmation_class :: confirmation_class
  b_events :: "canonical_event list"
  b_source_block_hashes :: "(source_id, hash) btree"
  b_canonical_block_hash :: hash

datatype block_error =
    MissingSourceBlockHashes
  | MixedChain
  | MixedHeight
  | MixedTime
  | MixedConfirmation
  | DuplicateEventId string
  | InvalidEventId string string
  | InvalidEventOrder string

definition validate_order ::
  "(u32 \<times> u32 \<times> string) option \<Rightarrow> canonical_event \<Rightarrow> block_error + unit" where
  "validate_order previous e =
     (case previous of
        None \<Rightarrow>
          if e_event_index e = 0 then Inr ()
          else Inl (InvalidEventOrder ''the first canonical event in a transaction must have index zero'')
      | Some (previous_transaction, previous_event, previous_identity) \<Rightarrow>
          (case cmp (e_transaction_index e) previous_transaction of
             Less \<Rightarrow> Inl (InvalidEventOrder ''transaction index regressed'')
           | Equal \<Rightarrow>
               if e_transaction_id e \<noteq> previous_identity
               then Inl (InvalidEventOrder ''one transaction index contains multiple transaction identities'')
               else if checked_succ previous_event = Some (e_event_index e) then Inr ()
               else Inl (InvalidEventOrder
                 ''canonical event indices are not contiguous within a transaction'')
           | Greater \<Rightarrow>
               if e_event_index e = 0 then Inr ()
               else Inl (InvalidEventOrder
                 ''a new transaction must begin with canonical event index zero'')))"

text \<open>The set of ids seen so far and the position of the previous event.\<close>

type_synonym event_scan = "string set \<times> (u32 \<times> u32 \<times> string) option"

definition order_position :: "canonical_event \<Rightarrow> u32 \<times> u32 \<times> string" where
  "order_position e = (e_transaction_index e, e_event_index e, e_transaction_id e)"

definition validate_event ::
  "event_library \<Rightarrow> chain_id \<Rightarrow> block_height \<Rightarrow> int \<Rightarrow> confirmation_class
     \<Rightarrow> canonical_event \<Rightarrow> event_scan \<Rightarrow> block_error + event_scan" where
  "validate_event lib chain height time confirmation e = (\<lambda>(event_ids, previous_order).
     if e_chain_id e \<noteq> chain then Inl MixedChain
     else if e_block_height e \<noteq> height then Inl MixedHeight
     else if e_block_time e \<noteq> time then Inl MixedTime
     else if e_confirmation_class e \<noteq> confirmation then Inl MixedConfirmation
     else if e_event_id e \<in> event_ids then Inl (DuplicateEventId (e_event_id e))
     else if e_event_id e \<noteq> expected_event_id lib e
     then Inl (InvalidEventId (e_event_id e) (expected_event_id lib e))
     else
       rbind (validate_order previous_order e) (\<lambda>_.
       Inr (insert (e_event_id e) event_ids, Some (order_position e))))"

definition validate_events ::
  "event_library \<Rightarrow> canonical_event list \<Rightarrow> chain_id \<Rightarrow> block_height \<Rightarrow> int \<Rightarrow> confirmation_class
     \<Rightarrow> block_error + unit" where
  "validate_events lib events chain height time confirmation =
     rbind (rfold (validate_event lib chain height time confirmation) events ({}, None)) (\<lambda>_. Inr ())"

definition event_material :: "canonical_event \<Rightarrow> bytes" where
  "event_material e =
     be32 (e_transaction_index e) @ be32 (e_event_index e)
     @ frame (str_bytes (e_event_id e))
     @ frame (str_bytes (kind_wire_name (payload_kind (e_payload e))))
     @ frame (str_bytes (e_schema_version e))
     @ count64 (length (e_market_ids e))
     @ concat (map (\<lambda>m. frame (str_bytes m)) (e_market_ids e))
     @ count64 (length (e_account_ids e)) @ concat (map frame (e_account_ids e))
     @ e_payload_hash e"

definition block_material ::
  "chain_id \<Rightarrow> block_height \<Rightarrow> int \<Rightarrow> canonical_event list \<Rightarrow> bytes" where
  "block_material chain height time events =
     frame (str_bytes chain) @ be64 height @ be_i64 time @ count64 (length events)
     @ concat (map event_material events)"

definition compute_block_hash ::
  "event_library \<Rightarrow> chain_id \<Rightarrow> block_height \<Rightarrow> int \<Rightarrow> canonical_event list \<Rightarrow> hash" where
  "compute_block_hash lib chain height time events =
     derive_key lib BLOCK_HASH_CONTEXT (block_material chain height time events)"

definition block_envelope_new ::
  "event_library \<Rightarrow> chain_id \<Rightarrow> block_height \<Rightarrow> int \<Rightarrow> confirmation_class
     \<Rightarrow> canonical_event list \<Rightarrow> (source_id, hash) btree \<Rightarrow> block_error + block_envelope" where
  "block_envelope_new lib chain height time confirmation events hashes =
     (if hashes = [] then Inl MissingSourceBlockHashes
      else
        rbind (validate_events lib events chain height time confirmation) (\<lambda>_.
        Inr \<lparr>b_chain_id = chain, b_block_height = height, b_block_time = time,
             b_confirmation_class = confirmation, b_events = events, b_source_block_hashes = hashes,
             b_canonical_block_hash = compute_block_hash lib chain height time events\<rparr>))"

section \<open>Valid blocks\<close>

text \<open>What the constructor guarantees of the events, without the scan.\<close>

definition event_fits ::
  "event_library \<Rightarrow> chain_id \<Rightarrow> block_height \<Rightarrow> int \<Rightarrow> confirmation_class \<Rightarrow> canonical_event \<Rightarrow> bool" where
  "event_fits lib chain height time confirmation e \<longleftrightarrow>
     e_chain_id e = chain \<and> e_block_height e = height \<and> e_block_time e = time
     \<and> e_confirmation_class e = confirmation \<and> e_event_id e = expected_event_id lib e"

definition events_ok ::
  "event_library \<Rightarrow> canonical_event list \<Rightarrow> chain_id \<Rightarrow> block_height \<Rightarrow> int \<Rightarrow> confirmation_class \<Rightarrow> bool" where
  "events_ok lib events chain height time confirmation \<longleftrightarrow>
     (\<forall>e \<in> set events. event_fits lib chain height time confirmation e)
     \<and> distinct (map e_event_id events)
     \<and> (events \<noteq> [] \<longrightarrow> e_event_index (hd events) = 0)
     \<and> successively (\<lambda>a b. validate_order (Some (order_position a)) b = Inr ()) events"

definition block_ok :: "event_library \<Rightarrow> block_envelope \<Rightarrow> bool" where
  "block_ok lib b \<longleftrightarrow>
     b_source_block_hashes b \<noteq> []
     \<and> events_ok lib (b_events b) (b_chain_id b) (b_block_height b) (b_block_time b) (b_confirmation_class b)
     \<and> b_canonical_block_hash b =
         compute_block_hash lib (b_chain_id b) (b_block_height b) (b_block_time b) (b_events b)"

lemma validate_event_Inr:
  "validate_event lib chain height time confirmation e (ids, prev) = Inr u \<longleftrightarrow>
     event_fits lib chain height time confirmation e \<and> e_event_id e \<notin> ids
     \<and> validate_order prev e = Inr () \<and> u = (insert (e_event_id e) ids, Some (order_position e))"
  by (cases "validate_order prev e") (auto simp: validate_event_def event_fits_def)

lemma scan_ok:
  "rfold (validate_event lib chain height time confirmation) events (ids, prev) = Inr s \<longleftrightarrow>
     (\<forall>e \<in> set events. event_fits lib chain height time confirmation e \<and> e_event_id e \<notin> ids)
     \<and> distinct (map e_event_id events)
     \<and> (events \<noteq> [] \<longrightarrow> validate_order prev (hd events) = Inr ())
     \<and> successively (\<lambda>a b. validate_order (Some (order_position a)) b = Inr ()) events
     \<and> s = (ids \<union> e_event_id ` set events,
            if events = [] then prev else Some (order_position (last events)))"
proof (induction events arbitrary: ids prev)
  case (Cons e events)
  let ?fits = "event_fits lib chain height time confirmation"
  let ?next = "\<lambda>a b. validate_order (Some (order_position a)) b = Inr ()"
  have step: "rfold (validate_event lib chain height time confirmation) (e # events) (ids, prev) = Inr s \<longleftrightarrow>
      ?fits e \<and> e_event_id e \<notin> ids \<and> validate_order prev e = Inr ()
      \<and> rfold (validate_event lib chain height time confirmation) events
          (insert (e_event_id e) ids, Some (order_position e)) = Inr s"
    by (simp add: rbind_Inr_iff validate_event_Inr)
  have fits: "?fits e \<and> e_event_id e \<notin> ids
      \<and> (\<forall>x \<in> set events. ?fits x \<and> e_event_id x \<notin> insert (e_event_id e) ids)
      \<and> distinct (map e_event_id events) \<longleftrightarrow>
      (\<forall>x \<in> set (e # events). ?fits x \<and> e_event_id x \<notin> ids) \<and> distinct (map e_event_id (e # events))"
    by auto (metis image_eqI)
  have succ: "successively ?next (e # events) \<longleftrightarrow> (events \<noteq> [] \<longrightarrow> ?next e (hd events)) \<and> successively ?next events"
    by (cases events) auto
  have result: "(insert (e_event_id e) ids \<union> e_event_id ` set events,
        if events = [] then Some (order_position e) else Some (order_position (last events))) =
      (ids \<union> e_event_id ` set (e # events),
        if e # events = [] then prev else Some (order_position (last (e # events))))"
    by simp
  show ?case unfolding step Cons.IH result succ list.sel using fits by blast
qed auto

lemma validate_events_iff:
  "validate_events lib events chain height time confirmation = Inr () \<longleftrightarrow>
     events_ok lib events chain height time confirmation"
  by (auto simp: validate_events_def rbind_Inr_iff scan_ok events_ok_def validate_order_def
      split: if_splits)

lemma block_envelope_new_Inr:
  "block_envelope_new lib chain height time confirmation events hashes = Inr b \<longleftrightarrow>
     block_ok lib b \<and> b_chain_id b = chain \<and> b_block_height b = height \<and> b_block_time b = time
     \<and> b_confirmation_class b = confirmation \<and> b_events b = events \<and> b_source_block_hashes b = hashes"
  using validate_events_iff [of lib events chain height time confirmation]
  by (auto simp: block_envelope_new_def block_ok_def rbind_Inr_iff)

section \<open>Order within a block\<close>

abbreviation follows :: "canonical_event \<Rightarrow> canonical_event \<Rightarrow> bool" where
  "follows a b \<equiv> validate_order (Some (order_position a)) b = Inr ()"

lemma follows_iff:
  "follows a b \<longleftrightarrow>
     e_transaction_index a < e_transaction_index b \<and> e_event_index b = 0
     \<or> e_transaction_index a = e_transaction_index b \<and> e_transaction_id a = e_transaction_id b
       \<and> unat (e_event_index b) = Suc (unat (e_event_index a))"
proof -
  have top: "unat (- 1 :: u32) = 4294967295"
    by (simp add: unsigned_minus_1_eq_mask mask_eq_exp_minus_1)
  have "checked_succ v = Some w \<longleftrightarrow> unat w = Suc (unat v)" for v w :: u32
    using unat_checked_succ [of v w] unat_less_32 [of w] top
    by (cases "v = - 1") (auto simp: checked_succ_def unat_plus_1 word_unat_eq_iff)
  then show ?thesis
    by (cases "e_transaction_index b" "e_transaction_index a" rule: linorder_cases)
       (auto simp: validate_order_def order_position_def cmp_def)
qed

text \<open>How many earlier events belong to the transaction of an event.\<close>

definition earlier_in_transaction :: "canonical_event list \<Rightarrow> nat \<Rightarrow> nat" where
  "earlier_in_transaction events i =
     length (filter (\<lambda>e. e_transaction_index e = e_transaction_index (events ! i)) (take i events))"

lemma follows_chain:
  assumes "successively follows events" and "i < j" and "j < length events"
  shows "e_transaction_index (events ! i) \<le> e_transaction_index (events ! j)"
  using assms(2,3)
proof (induction j)
  case (Suc j)
  have "follows (events ! j) (events ! Suc j)"
    using assms(1) Suc.prems by (simp add: successively_conv_nth)
  then have "e_transaction_index (events ! j) \<le> e_transaction_index (events ! Suc j)"
    by (auto simp: follows_iff)
  then show ?case using Suc by (cases "i = j") auto
qed simp

lemma event_index_counts:
  assumes "successively follows events" and "events \<noteq> [] \<Longrightarrow> e_event_index (hd events) = 0"
    and "i < length events"
  shows "unat (e_event_index (events ! i)) = earlier_in_transaction events i
    \<and> (\<forall>k < i. e_transaction_index (events ! k) = e_transaction_index (events ! i) \<longrightarrow>
         e_transaction_id (events ! k) = e_transaction_id (events ! i))"
  using assms(3)
proof (induction i)
  case 0
  then show ?case using assms(2) by (cases events) (auto simp: earlier_in_transaction_def)
next
  case (Suc i)
  let ?t = "\<lambda>k. e_transaction_index (events ! k)"
  have f: "follows (events ! i) (events ! Suc i)"
    using assms(1) Suc.prems by (simp add: successively_conv_nth)
  have IH: "unat (e_event_index (events ! i)) = earlier_in_transaction events i"
    "\<forall>k < i. ?t k = ?t i \<longrightarrow> e_transaction_id (events ! k) = e_transaction_id (events ! i)"
    using Suc by simp_all
  have take: "take (Suc i) events = take i events @ [events ! i]"
    using Suc.prems by (simp add: take_Suc_conv_app_nth)
  show ?case
  proof (cases "?t i = ?t (Suc i)")
    case True
    then have "e_transaction_id (events ! i) = e_transaction_id (events ! Suc i)"
      "unat (e_event_index (events ! Suc i)) = Suc (unat (e_event_index (events ! i)))"
      using f by (auto simp: follows_iff)
    then show ?thesis using IH True by (auto simp: earlier_in_transaction_def take less_Suc_eq)
  next
    case False
    then have new: "?t i < ?t (Suc i)" "e_event_index (events ! Suc i) = 0"
      using f by (auto simp: follows_iff)
    have less: "?t k < ?t (Suc i)" if "k < Suc i" for k
      using follows_chain [OF assms(1), of k i] new(1) that Suc.prems by (cases "k = i") auto
    have "e_transaction_index e \<noteq> ?t (Suc i)" if "e \<in> set (take (Suc i) events)" for e
      using that less unfolding in_set_conv_nth by (force simp: less_le)
    then have "earlier_in_transaction events (Suc i) = 0"
      by (auto simp: earlier_in_transaction_def filter_empty_conv)
    then show ?thesis using new less by (auto simp: less_le)
  qed
qed

text \<open>Constant hashes and one event, the first of the fourth transaction of its block.\<close>

definition sample_events :: event_library where
  "sample_events = \<lparr>semver_parse = (\<lambda>_. Inr (1, [], [])), blake3 = (\<lambda>_. replicate 32 1),
     derive_key = (\<lambda>_ _. replicate 32 2), to_hex = (\<lambda>_. ''00''), encode_payload = (\<lambda>_. Inr [1])\<rparr>"

definition sample_event :: canonical_event where
  "sample_event = \<lparr>e_schema_version = ''1.0.0'', e_chain_id = ''c'', e_block_height = 1,
    e_block_time = 0, e_transaction_id = ''t'', e_transaction_index = 3, e_event_index = 0,
    e_event_id = ''evt_00'', e_market_ids = [], e_account_ids = [], e_source_evidence = [],
    e_confirmation_class = CommittedPrimary, e_observed_at = 0, e_ingested_at = 0,
    e_canonicalized_at = 0, e_payload_hash = replicate 32 1, e_parser_version = ''p'',
    e_payload = EncodedPayload DexCreated [], e_encoded_payload = [], e_superseded_event_id = None\<rparr>"

lemma counted_follows:
  assumes i: "Suc i < length events" and sorted: "sorted (map e_transaction_index events)"
    and one: "\<forall>i j. i < j \<and> j < length events \<and> e_transaction_index (events ! i) = e_transaction_index (events ! j)
      \<longrightarrow> e_transaction_id (events ! i) = e_transaction_id (events ! j)"
    and counted: "\<forall>i. i < length events \<longrightarrow> unat (e_event_index (events ! i)) = earlier_in_transaction events i"
  shows "follows (events ! i) (events ! Suc i)"
proof -
  let ?a = "events ! i" and ?b = "events ! Suc i"
  have le: "e_transaction_index ?a \<le> e_transaction_index ?b"
    using sorted i by (simp add: sorted_iff_nth_Suc)
  have take: "take (Suc i) events = take i events @ [?a]"
    using i by (simp add: take_Suc_conv_app_nth)
  have n: "unat (e_event_index ?a) = earlier_in_transaction events i"
    "unat (e_event_index ?b) = earlier_in_transaction events (Suc i)" using counted i by auto
  show ?thesis
  proof (cases "e_transaction_index ?a = e_transaction_index ?b")
    case True
    then have "e_transaction_id ?a = e_transaction_id ?b" using one i by blast
    moreover have "unat (e_event_index ?b) = Suc (unat (e_event_index ?a))"
      using n True by (simp add: earlier_in_transaction_def take)
    ultimately show ?thesis using True by (simp add: follows_iff)
  next
    case False
    have "e_transaction_index (events ! k) \<noteq> e_transaction_index ?b" if "k < Suc i" for k
    proof -
      have "e_transaction_index (events ! k) \<le> e_transaction_index ?a"
        using sorted i that sorted_nth_mono [of "map e_transaction_index events" k i] by simp
      then show ?thesis using le False by auto
    qed
    then have "earlier_in_transaction events (Suc i) = 0"
      using i by (auto simp: earlier_in_transaction_def filter_empty_conv in_set_conv_nth)
    then show ?thesis using n(2) le False by (simp add: follows_iff word_unat_eq_iff less_le)
  qed
qed

text \<open>
  C37. A block is constructed exactly when its events are well formed, and then they are in
  canonical order: every event belongs to the chain, height, time and confirmation of the
  block and carries the id computed from its content, no id occurs twice, transaction
  indices never decrease, all events of a transaction index have one transaction id, and
  each event is numbered by how many events of its transaction come before it.
\<close>

theorem block_events_canonical:
  "(\<exists>b. block_envelope_new lib chain height time confirmation events hashes = Inr b) \<longleftrightarrow>
     hashes \<noteq> [] \<and> (\<forall>e. e \<in> set events \<longrightarrow> event_fits lib chain height time confirmation e)
     \<and> distinct (map e_event_id events)
     \<and> sorted (map e_transaction_index events)
     \<and> (\<forall>i j. i < j \<and> j < length events \<and> e_transaction_index (events ! i) = e_transaction_index (events ! j)
          \<longrightarrow> e_transaction_id (events ! i) = e_transaction_id (events ! j))
     \<and> (\<forall>i. i < length events \<longrightarrow> unat (e_event_index (events ! i)) = earlier_in_transaction events i)"
  (is "?new \<longleftrightarrow> ?spec")
proof
  assume ?new
  then obtain b where "block_envelope_new lib chain height time confirmation events hashes = Inr b" ..
  then have ok: "events_ok lib events chain height time confirmation" "hashes \<noteq> []"
    by (auto simp: block_envelope_new_Inr block_ok_def)
  then have s: "successively follows events" "events \<noteq> [] \<Longrightarrow> e_event_index (hd events) = 0"
    by (auto simp: events_ok_def)
  have "sorted (map e_transaction_index events)"
    using follows_chain [OF s(1)] by (auto simp: sorted_iff_nth_mono_less)
  then show ?spec using ok event_index_counts [OF s] by (auto simp: events_ok_def)
next
  assume spec: ?spec
  then have "follows (events ! i) (events ! Suc i)" if "Suc i < length events" for i
    using that counted_follows by blast
  then have "successively follows events" by (simp add: successively_conv_nth)
  moreover have "e_event_index (hd events) = 0" if "events \<noteq> []"
    using spec that by (cases events) (force simp: earlier_in_transaction_def word_unat_eq_iff)+
  ultimately have "events_ok lib events chain height time confirmation"
    using spec by (auto simp: events_ok_def)
  then have "validate_events lib events chain height time confirmation = Inr ()"
    by (simp add: validate_events_iff)
  then show ?new using spec by (simp add: block_envelope_new_def)
qed

theorem block_events_canonical_witness:
  "\<exists>b. block_envelope_new sample_events ''c'' 1 0 CommittedPrimary [sample_event] [(''s'', [])] = Inr b"
proof -
  have "expected_event_id sample_events sample_event = ''evt_00''"
    by (simp add: expected_event_id_def compute_event_id_def sample_events_def)
  then have "event_fits sample_events ''c'' 1 0 CommittedPrimary sample_event"
    by (simp add: event_fits_def) (simp add: sample_event_def)
  then show ?thesis
    using block_events_canonical [of sample_events "''c''" 1 0 CommittedPrimary "[sample_event]" "[(''s'', [])]"]
    by (simp add: earlier_in_transaction_def sample_event_def)
qed

section \<open>The block hash\<close>

text \<open>What of an event enters the block hash.\<close>

definition event_digest ::
  "canonical_event \<Rightarrow> u32 \<times> u32 \<times> string \<times> event_kind \<times> string \<times> market_id list \<times> address list \<times> hash" where
  "event_digest e = (e_transaction_index e, e_event_index e, e_event_id e, payload_kind (e_payload e),
     e_schema_version e, e_market_ids e, e_account_ids e, e_payload_hash e)"

text \<open>The sizes Rust guarantees: no collection of two to the sixty-four elements, 32-byte hashes.\<close>

definition event_sized :: "canonical_event \<Rightarrow> bool" where
  "event_sized e \<longleftrightarrow> short (e_event_id e) \<and> short (e_schema_version e) \<and> short (e_market_ids e)
     \<and> short (e_account_ids e) \<and> (\<forall>m \<in> set (e_market_ids e). short m)
     \<and> (\<forall>a \<in> set (e_account_ids e). short a) \<and> length (e_payload_hash e) = 32"

lemma counted_frames_cancel:
  assumes "short as" and "short bs" and "\<forall>a \<in> set as. short a" and "\<forall>b \<in> set bs. short b"
  shows "count64 (length as) @ concat (map frame as) @ xs = count64 (length bs) @ concat (map frame bs) @ ys
    \<longleftrightarrow> as = bs \<and> xs = ys"
  using concat_frames_cancel [OF _ assms(3,4), of xs ys] count64_length_inject [OF assms(1,2)] by auto

lemma map_frame_str: "map (\<lambda>m. frame (str_bytes m)) ms = map frame (map str_bytes ms)"
  by simp

lemma event_material_cancel:
  assumes "event_sized e" and "event_sized f"
  shows "event_material e @ xs = event_material f @ ys \<longleftrightarrow> event_digest e = event_digest f \<and> xs = ys"
proof -
  have m: "count64 (length (e_market_ids e)) @ concat (map frame (map str_bytes (e_market_ids e))) @ us =
      count64 (length (e_market_ids f)) @ concat (map frame (map str_bytes (e_market_ids f))) @ vs
      \<longleftrightarrow> e_market_ids e = e_market_ids f \<and> us = vs" for us vs
    using counted_frames_cancel [of "map str_bytes (e_market_ids e)" "map str_bytes (e_market_ids f)" us vs] assms
    by (auto simp: event_sized_def short_def inj_map_eq_map inj_def)
  have a: "count64 (length (e_account_ids e)) @ concat (map frame (e_account_ids e)) @ us =
      count64 (length (e_account_ids f)) @ concat (map frame (e_account_ids f)) @ vs
      \<longleftrightarrow> e_account_ids e = e_account_ids f \<and> us = vs" for us vs
    using counted_frames_cancel [of "e_account_ids e" "e_account_ids f" us vs] assms
    by (simp add: event_sized_def)
  have h: "e_payload_hash e @ xs = e_payload_hash f @ ys \<longleftrightarrow> e_payload_hash e = e_payload_hash f \<and> xs = ys"
    using assms by (simp add: event_sized_def)
  have fr: "frame (str_bytes (e_event_id e)) @ us = frame (str_bytes (e_event_id f)) @ vs
      \<longleftrightarrow> e_event_id e = e_event_id f \<and> us = vs"
    "frame (str_bytes (e_schema_version e)) @ us = frame (str_bytes (e_schema_version f)) @ vs
      \<longleftrightarrow> e_schema_version e = e_schema_version f \<and> us = vs"
    "frame (str_bytes (kind_wire_name k)) @ us = frame (str_bytes (kind_wire_name l)) @ vs
      \<longleftrightarrow> k = l \<and> us = vs" for us vs k l
    using assms by (simp_all add: frame_cancel event_sized_def short_kind_wire_name kind_wire_name_inject)
  show ?thesis
    unfolding event_material_def map_frame_str append_assoc be32_cancel fr m a h event_digest_def by simp
qed

lemma events_material_cancel:
  assumes "length es = length fs" and "\<forall>e \<in> set es. event_sized e" and "\<forall>f \<in> set fs. event_sized f"
  shows "concat (map event_material es) = concat (map event_material fs) \<longleftrightarrow>
    map event_digest es = map event_digest fs"
  using assms by (induction es fs rule: list_induct2) (simp_all add: event_material_cancel)

text \<open>
  C38. The canonical block hash covers the canonical content: the bytes that are hashed
  determine the chain, the height, the block time, the number of events, and of every event
  its position, id, kind, schema version, markets, accounts and payload hash. Two blocks with
  different content therefore have the same hash only if blake3 collides.
\<close>

theorem block_hash_covers_content:
  assumes "short chain" and "short chain'" and "short es" and "short es'"
    and "- (2 ^ 63) \<le> time \<and> time < 2 ^ 63" and "- (2 ^ 63) \<le> time' \<and> time' < 2 ^ 63"
    and "\<forall>e \<in> set es. event_sized e" and "\<forall>e \<in> set es'. event_sized e"
  shows "block_material chain height time es = block_material chain' height' time' es' \<longleftrightarrow>
    chain = chain' \<and> height = height' \<and> time = time' \<and> map event_digest es = map event_digest es'"
proof -
  have t: "be_i64 time @ xs = be_i64 time' @ ys \<longleftrightarrow> time = time' \<and> xs = ys" for xs ys
    using be_i64_inject [of time time'] assms(5,6) by auto
  have n: "count64 (length es) @ xs = count64 (length es') @ ys \<longleftrightarrow> length es = length es' \<and> xs = ys" for xs ys
    using count64_length_inject [OF assms(3,4)] by simp
  have c: "frame (str_bytes chain) @ xs = frame (str_bytes chain') @ ys \<longleftrightarrow> chain = chain' \<and> xs = ys" for xs ys
    using assms(1,2) by (simp add: frame_cancel)
  show ?thesis
    unfolding block_material_def c be64_cancel t n
    using events_material_cancel [OF _ assms(7,8)] map_eq_imp_length_eq by blast
qed

theorem block_hash_covers_content_witness:
  "block_material ''c'' 1 5 [] \<noteq> block_material ''c'' 1 6 []"
  using block_hash_covers_content [of "''c''" "''c''" "[]" "[]" 5 6 1 1] by (simp add: short_def)

end
