(* ===== verification/Source_Trust.thy ===== *)
theory Source_Trust
  imports Main
begin

text \<open>
  Source admission, \<^verbatim>\<open>crates/hl-protocol/src/trust.rs\<close>: which publication lane an observation
  of a class may take when it comes from a source of a given trust.
\<close>

datatype source_trust =
    LocallyVerifiedCommitted
  | IndependentCommitted
  | ReconciledSnapshotTrust
  | RecoveryOnly
  | ThirdPartyProvisional
  | MempoolProvisional

datatype observation_class =
    CommittedBlock
  | AuxiliaryOrderStatus
  | AuxiliaryBookDiff
  | AuxiliaryLedger
  | Snapshot
  | HistoricalBlock
  | PublicMarketData
  | ProvisionalFeed
  | ProvisionalMempool

datatype publication_lane =
    CommittedCandidate
  | Reconciliation
  | Recovery
  | Provisional
  | Mempool

datatype source_trust_error = IncompatibleObservationClass

record source_admission =
  trust :: source_trust
  observation_class :: observation_class
  publication_lane :: publication_lane

definition lane_of :: "source_trust \<Rightarrow> observation_class \<Rightarrow> source_trust_error + publication_lane" where
  "lane_of t c =
     (case t of
        LocallyVerifiedCommitted \<Rightarrow>
          (case c of
             CommittedBlock \<Rightarrow> Inr CommittedCandidate
           | AuxiliaryOrderStatus \<Rightarrow> Inr Reconciliation
           | AuxiliaryBookDiff \<Rightarrow> Inr Reconciliation
           | AuxiliaryLedger \<Rightarrow> Inr Reconciliation
           | _ \<Rightarrow> Inl IncompatibleObservationClass)
      | IndependentCommitted \<Rightarrow>
          (case c of
             CommittedBlock \<Rightarrow> Inr CommittedCandidate
           | AuxiliaryOrderStatus \<Rightarrow> Inr Reconciliation
           | AuxiliaryBookDiff \<Rightarrow> Inr Reconciliation
           | AuxiliaryLedger \<Rightarrow> Inr Reconciliation
           | _ \<Rightarrow> Inl IncompatibleObservationClass)
      | ReconciledSnapshotTrust \<Rightarrow>
          (case c of Snapshot \<Rightarrow> Inr Reconciliation | _ \<Rightarrow> Inl IncompatibleObservationClass)
      | RecoveryOnly \<Rightarrow>
          (case c of HistoricalBlock \<Rightarrow> Inr Recovery | _ \<Rightarrow> Inl IncompatibleObservationClass)
      | ThirdPartyProvisional \<Rightarrow>
          (case c of
             PublicMarketData \<Rightarrow> Inr Provisional
           | ProvisionalFeed \<Rightarrow> Inr Provisional
           | _ \<Rightarrow> Inl IncompatibleObservationClass)
      | MempoolProvisional \<Rightarrow>
          (case c of ProvisionalMempool \<Rightarrow> Inr Mempool | _ \<Rightarrow> Inl IncompatibleObservationClass))"

definition source_admission_new ::
  "source_trust \<Rightarrow> observation_class \<Rightarrow> source_trust_error + source_admission" where
  "source_admission_new t c =
     (case lane_of t c of
        Inl e \<Rightarrow> Inl e
      | Inr lane \<Rightarrow> Inr \<lparr>trust = t, observation_class = c, publication_lane = lane\<rparr>)"

definition can_advance_committed_watermark :: "source_admission \<Rightarrow> bool" where
  "can_advance_committed_watermark a \<longleftrightarrow> publication_lane a = CommittedCandidate"

text \<open>
  Only committed trust can move the committed watermark: an admission that can be
  constructed takes the committed lane exactly when the source is a locally verified or an
  independent committed source and the observation is a committed block, and each source
  trust has at least one observation class it admits.
\<close>

theorem admission_committed_lane:
  "(source_admission_new t c = Inr a \<longrightarrow>
      trust a = t \<and> observation_class a = c
      \<and> (can_advance_committed_watermark a \<longleftrightarrow>
           t \<in> {LocallyVerifiedCommitted, IndependentCommitted} \<and> c = CommittedBlock))
   \<and> (\<exists>c' a'. source_admission_new t c' = Inr a')"
proof -
  have "source_admission_new t c = Inr a \<longrightarrow>
      trust a = t \<and> observation_class a = c
      \<and> (can_advance_committed_watermark a \<longleftrightarrow>
           t \<in> {LocallyVerifiedCommitted, IndependentCommitted} \<and> c = CommittedBlock)"
    by (cases t; cases c)
       (auto simp: source_admission_new_def lane_of_def can_advance_committed_watermark_def)
  moreover have "\<exists>c' a'. source_admission_new t c' = Inr a'"
  proof -
    define c' where "c' = (case t of ReconciledSnapshotTrust \<Rightarrow> Snapshot | RecoveryOnly \<Rightarrow> HistoricalBlock
      | ThirdPartyProvisional \<Rightarrow> PublicMarketData | MempoolProvisional \<Rightarrow> ProvisionalMempool
      | _ \<Rightarrow> CommittedBlock)"
    have "\<exists>a'. source_admission_new t c' = Inr a'"
      by (cases t) (auto simp: source_admission_new_def lane_of_def c'_def)
    then show ?thesis by blast
  qed
  ultimately show ?thesis by blast
qed

theorem admission_committed_lane_witness:
  "\<exists>a. source_admission_new IndependentCommitted CommittedBlock = Inr a
     \<and> can_advance_committed_watermark a"
proof -
  obtain a where a: "source_admission_new IndependentCommitted CommittedBlock = Inr a"
    by (simp add: source_admission_new_def lane_of_def)
  then show ?thesis using admission_committed_lane [of IndependentCommitted CommittedBlock a] by simp
qed

end
