(* ===== verification/Sequencer.thy ===== *)
theory Sequencer
  imports Canonical_Block Source_Trust
begin

text \<open>
  The canonical sequencer of \<^verbatim>\<open>services/hl-capture/src/sequencer\<close>: it takes block candidates of
  several sources in any order and decides which blocks are committed, in strictly
  consecutive heights. Candidates ahead of the watermark wait, candidates for a known height
  are compared and their evidence merged, and any disagreement latches the sequencer red. An
  operation returns its result and the new state; a rejected candidate leaves the state as
  it was.
\<close>

section \<open>Data\<close>

record sequencer_config =
  sc_chain_id :: chain_id
  first_height :: block_height
  max_pending_blocks :: nat
  retained_committed_blocks :: nat

datatype candidate_error =
    MissingSourceBlockHash
  | ConfirmationMismatch
  | UnexpectedEventSourceEvidence
  | UnsupportedPublicationLane

datatype sequencer_error =
    InvalidCapacity string
  | ChainMismatch chain_id chain_id
  | PendingCapacityExceeded nat
  | InvalidMergedBlock block_error
  | InvalidMergedEvidence "string option" string
  | Candidate candidate_error

definition sequencer_config_new ::
  "chain_id \<Rightarrow> block_height \<Rightarrow> nat \<Rightarrow> nat \<Rightarrow> sequencer_error + sequencer_config" where
  "sequencer_config_new chain first max_pending retained =
     (if max_pending = 0 then Inl (InvalidCapacity ''max_pending_blocks'')
      else if retained = 0 then Inl (InvalidCapacity ''retained_committed_blocks'')
      else Inr \<lparr>sc_chain_id = chain, first_height = first, max_pending_blocks = max_pending,
                retained_committed_blocks = retained\<rparr>)"

record block_candidate =
  c_source_id :: source_id
  c_admission :: source_admission
  c_block :: block_envelope

definition validate_confirmation ::
  "source_admission \<Rightarrow> confirmation_class \<Rightarrow> candidate_error + unit" where
  "validate_confirmation admission confirmation =
     rbind
       (case publication_lane admission of
          CommittedCandidate \<Rightarrow>
            (case trust admission of
               LocallyVerifiedCommitted \<Rightarrow> Inr CommittedPrimary
             | IndependentCommitted \<Rightarrow> Inr CommittedIndependent
             | _ \<Rightarrow> Inl UnsupportedPublicationLane)
        | Provisional \<Rightarrow>
            (case trust admission of
               ThirdPartyProvisional \<Rightarrow> Inr ProvisionalSource
             | _ \<Rightarrow> Inl UnsupportedPublicationLane)
        | _ \<Rightarrow> Inl UnsupportedPublicationLane) (\<lambda>expected.
     if confirmation = expected then Inr () else Inl ConfirmationMismatch)"

definition block_candidate_new ::
  "source_id \<Rightarrow> source_admission \<Rightarrow> block_envelope \<Rightarrow> candidate_error + block_candidate" where
  "block_candidate_new source admission block =
     (if length (b_source_block_hashes block) \<noteq> 1
         \<or> bt_get (<) source (b_source_block_hashes block) = None
      then Inl MissingSourceBlockHash
      else if list_ex (\<lambda>e. list_ex (\<lambda>ev. se_source_id ev \<noteq> source) (e_source_evidence e)) (b_events block)
      then Inl UnexpectedEventSourceEvidence
      else
        rbind (validate_confirmation admission (b_confirmation_class block)) (\<lambda>_.
        Inr \<lparr>c_source_id = source, c_admission = admission, c_block = block\<rparr>))"

datatype quarantine_reason =
    ConflictingCanonicalBlock hash hash
  | ConflictingSourceBlockHash source_id hash hash
  | ConflictingEventSourceEvidence string source_id hash hash

fun quarantine_reason_code :: "quarantine_reason \<Rightarrow> string" where
  "quarantine_reason_code (ConflictingCanonicalBlock _ _) = ''sequencer.conflicting_canonical_block''"
| "quarantine_reason_code (ConflictingSourceBlockHash _ _ _) = ''sequencer.conflicting_source_block_hash''"
| "quarantine_reason_code (ConflictingEventSourceEvidence _ _ _ _) =
     ''sequencer.conflicting_event_source_evidence''"

record quarantine_record =
  q_incident_id :: string
  q_chain_id :: chain_id
  q_block_height :: block_height
  q_existing_source_ids :: "source_id list"
  q_conflicting_source_id :: source_id
  q_reason :: quarantine_reason

datatype sequencer_decision =
    Commit block_envelope
  | RecordDuplicate block_height source_id
  | RequestGap string block_height block_height
  | Quarantine quarantine_record
  | PublishProvisional block_envelope
  | VerifyHistoricalBlock block_height source_id hash
  | AwaitOperatorResolution string
  | AwaitMoreEvidence

section \<open>Incidents\<close>

definition INCIDENT_CONTEXT :: string where
  "INCIDENT_CONTEXT = ''hyperliquid-alpha-desk/source-divergence/v1''"

record incident_key =
  k_chain_id :: chain_id
  k_block_height :: block_height
  k_existing_sources :: "source_id list"
  k_conflicting_source :: source_id
  k_reason_code :: string
  k_detail_identity :: "string option"
  k_first_hash :: hash
  k_second_hash :: hash

definition incident_material :: "incident_key \<Rightarrow> bytes" where
  "incident_material k =
     (let all_sources = remdups_adj (sort (k_existing_sources k @ [k_conflicting_source k])) in
      frame (str_bytes (k_chain_id k)) @ be64 (k_block_height k)
      @ frame (str_bytes (k_reason_code k))
      @ frame (case k_detail_identity k of Some d \<Rightarrow> str_bytes d | None \<Rightarrow> [])
      @ concat (map (\<lambda>s. frame (str_bytes s)) all_sources) @ k_first_hash k @ k_second_hash k)"

definition incident_id :: "event_library \<Rightarrow> incident_key \<Rightarrow> string" where
  "incident_id lib k = ''inc_'' @ to_hex lib (derive_key lib INCIDENT_CONTEXT (incident_material k))"

definition order_hashes :: "hash \<Rightarrow> hash \<Rightarrow> hash \<times> hash" where
  "order_hashes existing conflicting =
     (if existing \<le> conflicting then (existing, conflicting) else (conflicting, existing))"

definition canonical_block_divergence ::
  "event_library \<Rightarrow> chain_id \<Rightarrow> block_height \<Rightarrow> source_id list \<Rightarrow> source_id \<Rightarrow> hash \<Rightarrow> hash
     \<Rightarrow> quarantine_record" where
  "canonical_block_divergence lib chain height existing_sources conflicting_source existing conflicting =
     (let sources = remdups_adj (sort existing_sources);
          (first_hash, second_hash) = order_hashes existing conflicting in
      \<lparr>q_incident_id = incident_id lib
         \<lparr>k_chain_id = chain, k_block_height = height, k_existing_sources = sources,
          k_conflicting_source = conflicting_source,
          k_reason_code = ''sequencer.conflicting_canonical_block'', k_detail_identity = None,
          k_first_hash = first_hash, k_second_hash = second_hash\<rparr>,
       q_chain_id = chain, q_block_height = height, q_existing_source_ids = sources,
       q_conflicting_source_id = conflicting_source,
       q_reason = ConflictingCanonicalBlock existing conflicting\<rparr>)"

definition source_block_hash_divergence ::
  "event_library \<Rightarrow> chain_id \<Rightarrow> block_height \<Rightarrow> source_id \<Rightarrow> hash \<Rightarrow> hash \<Rightarrow> quarantine_record" where
  "source_block_hash_divergence lib chain height source existing conflicting =
     (let (first_hash, second_hash) = order_hashes existing conflicting in
      \<lparr>q_incident_id = incident_id lib
         \<lparr>k_chain_id = chain, k_block_height = height, k_existing_sources = [source],
          k_conflicting_source = source,
          k_reason_code = ''sequencer.conflicting_source_block_hash'', k_detail_identity = None,
          k_first_hash = first_hash, k_second_hash = second_hash\<rparr>,
       q_chain_id = chain, q_block_height = height, q_existing_source_ids = [source],
       q_conflicting_source_id = source,
       q_reason = ConflictingSourceBlockHash source existing conflicting\<rparr>)"

definition event_source_evidence_divergence ::
  "event_library \<Rightarrow> chain_id \<Rightarrow> block_height \<Rightarrow> string \<Rightarrow> source_id \<Rightarrow> hash \<Rightarrow> hash \<Rightarrow> quarantine_record" where
  "event_source_evidence_divergence lib chain height event source existing conflicting =
     (let (first_hash, second_hash) = order_hashes existing conflicting in
      \<lparr>q_incident_id = incident_id lib
         \<lparr>k_chain_id = chain, k_block_height = height, k_existing_sources = [source],
          k_conflicting_source = source,
          k_reason_code = ''sequencer.conflicting_event_source_evidence'',
          k_detail_identity = Some event, k_first_hash = first_hash, k_second_hash = second_hash\<rparr>,
       q_chain_id = chain, q_block_height = height, q_existing_source_ids = [source],
       q_conflicting_source_id = source,
       q_reason = ConflictingEventSourceEvidence event source existing conflicting\<rparr>)"

record gap_range =
  gap_start :: block_height
  gap_end_inclusive :: block_height

definition GAP_INCIDENT_CONTEXT :: string where
  "GAP_INCIDENT_CONTEXT = ''hyperliquid-alpha-desk/committed-gap/v1''"

definition gap_incident_id :: "event_library \<Rightarrow> chain_id \<Rightarrow> gap_range \<Rightarrow> string" where
  "gap_incident_id lib chain gap =
     ''inc_'' @ to_hex lib (derive_key lib GAP_INCIDENT_CONTEXT
       (frame (str_bytes chain) @ be64 (gap_start gap) @ be64 (gap_end_inclusive gap)))"

section \<open>Comparing and merging\<close>

datatype merge_error =
    Divergence quarantine_record
  | InvalidBlock block_error
  | InvalidEvidence "string option" string

text \<open>
  The candidate's own hash is indexed without a check; the constructor of candidates has
  established that it is there.
\<close>

definition source_hash_conflict ::
  "event_library \<Rightarrow> chain_id \<Rightarrow> block_height \<Rightarrow> (source_id, hash) btree \<Rightarrow> block_candidate
     \<Rightarrow> quarantine_record option" where
  "source_hash_conflict lib chain height existing candidate =
     (case (bt_get (<) (c_source_id candidate) (b_source_block_hashes (c_block candidate)),
            bt_get (<) (c_source_id candidate) existing) of
        (Some candidate_hash, Some existing_hash) \<Rightarrow>
          if existing_hash \<noteq> candidate_hash
          then Some (source_block_hash_divergence lib chain height (c_source_id candidate)
                 existing_hash candidate_hash)
          else None
      | _ \<Rightarrow> None)"

definition merge_event ::
  "event_library \<Rightarrow> block_envelope \<Rightarrow> canonical_event \<times> canonical_event \<Rightarrow> merge_error + canonical_event" where
  "merge_event lib existing = (\<lambda>(existing_event, candidate_event).
     (case merge_matching_source_evidence existing_event candidate_event of
        Inr merged \<Rightarrow> Inr merged
      | Inl (SourceEvidenceConflict source existing_hash conflicting_hash) \<Rightarrow>
          Inl (Divergence (event_source_evidence_divergence lib (b_chain_id existing)
            (b_block_height existing) (e_event_id existing_event) source existing_hash conflicting_hash))
      | Inl CanonicalContentMismatch \<Rightarrow>
          Inl (InvalidEvidence (Some (e_event_id existing_event))
            ''matching canonical block hash contains different event content'')))"

definition compare_and_merge ::
  "event_library \<Rightarrow> block_envelope \<Rightarrow> block_candidate \<Rightarrow> merge_error + block_envelope" where
  "compare_and_merge lib existing candidate =
     (if b_canonical_block_hash existing \<noteq> b_canonical_block_hash (c_block candidate)
      then Inl (Divergence (canonical_block_divergence lib (b_chain_id existing)
             (b_block_height existing) (bt_keys (b_source_block_hashes existing))
             (c_source_id candidate) (b_canonical_block_hash existing)
             (b_canonical_block_hash (c_block candidate))))
      else
        case source_hash_conflict lib (b_chain_id existing) (b_block_height existing)
               (b_source_block_hashes existing) candidate of
          Some r \<Rightarrow> Inl (Divergence r)
        | None \<Rightarrow>
            let source_hashes = bt_extend (<) (b_source_block_hashes (c_block candidate))
                  (b_source_block_hashes existing) in
            if length (b_events existing) \<noteq> length (b_events (c_block candidate))
            then Inl (InvalidEvidence None
                   ''matching canonical block hashes contain different event counts'')
            else
              rbind (rcollect (merge_event lib existing) (zip (b_events existing) (b_events (c_block candidate))))
                (\<lambda>merged_events.
              map_err InvalidBlock
                (block_envelope_new lib (b_chain_id existing) (b_block_height existing)
                   (b_block_time existing) (b_confirmation_class existing) merged_events source_hashes)))"

section \<open>The sequencer\<close>

record watermark =
  current :: "block_height option"
  retained :: "(block_height, block_envelope) btree"
  retained_limit :: nat

definition watermark_new :: "nat \<Rightarrow> watermark" where
  "watermark_new limit = \<lparr>current = None, retained = [], retained_limit = limit\<rparr>"

text \<open>The oldest key is the first one.\<close>

fun evict_oldest :: "nat \<Rightarrow> (block_height, 'b) btree \<Rightarrow> (block_height, 'b) btree" where
  "evict_oldest limit [] = []"
| "evict_oldest limit (oldest # m) =
     (if length (oldest # m) > limit then evict_oldest limit m else oldest # m)"

definition advance :: "block_envelope \<Rightarrow> watermark \<Rightarrow> watermark" where
  "advance block w =
     w\<lparr>current := Some (b_block_height block),
       retained := evict_oldest (retained_limit w) (bt_insert (<) (b_block_height block) block (retained w))\<rparr>"

record canonical_sequencer =
  config :: sequencer_config
  committed_mark :: watermark
  provisional_mark :: watermark
  pending :: "(block_height, block_envelope) btree"
  outstanding_gap :: "gap_range option"
  red_incident_id :: "string option"
  quarantines :: "quarantine_record list"

definition sequencer_new :: "sequencer_config \<Rightarrow> canonical_sequencer" where
  "sequencer_new c =
     \<lparr>config = c, committed_mark = watermark_new (retained_committed_blocks c),
      provisional_mark = watermark_new (retained_committed_blocks c), pending = [],
      outstanding_gap = None, red_incident_id = None, quarantines = []\<rparr>"

datatype sequencer_health = Green | RedGap string block_height block_height | RedIncident string

definition seq_health :: "event_library \<Rightarrow> canonical_sequencer \<Rightarrow> sequencer_health" where
  "seq_health lib s =
     (case red_incident_id s of
        Some i \<Rightarrow> RedIncident i
      | None \<Rightarrow>
          (case outstanding_gap s of
             Some gap \<Rightarrow> RedGap (gap_incident_id lib (sc_chain_id (config s)) gap)
               (gap_start gap) (gap_end_inclusive gap)
           | None \<Rightarrow> Green))"

definition next_committed_height :: "canonical_sequencer \<Rightarrow> block_height option" where
  "next_committed_height s =
     (case current (committed_mark s) of
        Some h \<Rightarrow> checked_succ h
      | None \<Rightarrow> Some (first_height (config s)))"

definition latch_divergence ::
  "quarantine_record \<Rightarrow> canonical_sequencer \<Rightarrow> sequencer_decision \<times> canonical_sequencer" where
  "latch_divergence r s =
     (Quarantine r,
      if red_incident_id s = None
      then s\<lparr>red_incident_id := Some (q_incident_id r), quarantines := quarantines s @ [r]\<rparr>
      else s)"

text \<open>One turn of the loop of \<^verbatim>\<open>drain_contiguous\<close>, or \<open>None\<close> when it stops.\<close>

definition drain_step ::
  "canonical_sequencer \<Rightarrow> (block_envelope \<times> canonical_sequencer) option" where
  "drain_step s =
     (case next_committed_height s of
        None \<Rightarrow> None
      | Some h \<Rightarrow>
          (case bt_get (<) h (pending s) of
             None \<Rightarrow> None
           | Some block \<Rightarrow>
               Some (block, s\<lparr>pending := bt_remove (<) h (pending s),
                              committed_mark := advance block (committed_mark s)\<rparr>)))"

lemma length_bt_remove_get: "bt_get lt k m = Some v \<Longrightarrow> length (bt_remove lt k m) < length m"
  by (induction m) (auto split: if_splits)

function drain_contiguous ::
  "canonical_sequencer \<Rightarrow> sequencer_decision list \<times> canonical_sequencer" where
  "drain_contiguous s =
     (case drain_step s of
        None \<Rightarrow> ([], s)
      | Some (block, s') \<Rightarrow>
          let (decisions, t) = drain_contiguous s' in (Commit block # decisions, t))"
  by pat_completeness auto
termination
  by (relation "measure (\<lambda>s. length (pending s))")
     (auto simp: drain_step_def length_bt_remove_get split: option.splits)

declare drain_contiguous.simps [simp del]

definition refresh_gap ::
  "event_library \<Rightarrow> canonical_sequencer \<Rightarrow> sequencer_decision list \<times> canonical_sequencer" where
  "refresh_gap lib s =
     (case next_committed_height s of
        None \<Rightarrow> ([], s\<lparr>outstanding_gap := None\<rparr>)
      | Some h \<Rightarrow>
          let gap = (case pending s of
                       [] \<Rightarrow> None
                     | (first, _) # _ \<Rightarrow>
                         if first > h
                         then Some \<lparr>gap_start = h, gap_end_inclusive = (if first = 0 then 0 else first - 1)\<rparr>
                         else None)
          in if gap \<noteq> outstanding_gap s
             then (case gap of
                     Some g \<Rightarrow> [RequestGap (gap_incident_id lib (sc_chain_id (config s)) g)
                                 (gap_start g) (gap_end_inclusive g)]
                   | None \<Rightarrow> [],
                   s\<lparr>outstanding_gap := gap\<rparr>)
             else ([], s))"

text \<open>How the result of a comparison becomes a decision; the merged block is stored by \<open>store\<close>.\<close>

definition decide_merge ::
  "merge_error + block_envelope \<Rightarrow> block_candidate \<Rightarrow> (block_envelope \<Rightarrow> canonical_sequencer)
     \<Rightarrow> canonical_sequencer \<Rightarrow> (sequencer_error + sequencer_decision list) \<times> canonical_sequencer" where
  "decide_merge comparison candidate store s =
     (case comparison of
        Inr merged \<Rightarrow>
          (Inr [RecordDuplicate (b_block_height (c_block candidate)) (c_source_id candidate)], store merged)
      | Inl (Divergence r) \<Rightarrow> (let (d, t) = latch_divergence r s in (Inr [d], t))
      | Inl (InvalidBlock e) \<Rightarrow> (Inl (InvalidMergedBlock e), s)
      | Inl (InvalidEvidence event_id reason) \<Rightarrow> (Inl (InvalidMergedEvidence event_id reason), s))"

definition observe_retained ::
  "event_library \<Rightarrow> block_candidate \<Rightarrow> bool \<Rightarrow> canonical_sequencer
     \<Rightarrow> (sequencer_error + sequencer_decision list) \<times> canonical_sequencer" where
  "observe_retained lib candidate committed s =
     (let mark = (if committed then committed_mark s else provisional_mark s);
          height = b_block_height (c_block candidate) in
      case bt_get (<) height (retained mark) of
        None \<Rightarrow> (Inr [VerifyHistoricalBlock height (c_source_id candidate)
                        (b_canonical_block_hash (c_block candidate))], s)
      | Some existing \<Rightarrow>
          decide_merge (compare_and_merge lib existing candidate) candidate
            (\<lambda>merged. let mark' = mark\<lparr>retained := bt_insert (<) height merged (retained mark)\<rparr> in
               if committed then s\<lparr>committed_mark := mark'\<rparr> else s\<lparr>provisional_mark := mark'\<rparr>) s)"

definition observe_committed ::
  "event_library \<Rightarrow> block_candidate \<Rightarrow> canonical_sequencer
     \<Rightarrow> (sequencer_error + sequencer_decision list) \<times> canonical_sequencer" where
  "observe_committed lib candidate s =
     (case red_incident_id s of
        Some i \<Rightarrow> (Inr [AwaitOperatorResolution i], s)
      | None \<Rightarrow>
          let height = b_block_height (c_block candidate) in
          if height < first_height (config s)
             \<or> (case current (committed_mark s) of Some w \<Rightarrow> height \<le> w | None \<Rightarrow> False)
          then observe_retained lib candidate True s
          else case bt_get (<) height (pending s) of
            Some existing \<Rightarrow>
              decide_merge (compare_and_merge lib existing candidate) candidate
                (\<lambda>merged. s\<lparr>pending := bt_insert (<) height merged (pending s)\<rparr>) s
          | None \<Rightarrow>
              if length (pending s) \<ge> max_pending_blocks (config s)
                 \<and> Some height \<noteq> next_committed_height s
              then (Inl (PendingCapacityExceeded (max_pending_blocks (config s))), s)
              else
                let s1 = s\<lparr>pending := bt_insert (<) height (c_block candidate) (pending s)\<rparr>;
                    (commits, s2) = drain_contiguous s1;
                    (gaps, s3) = refresh_gap lib s2;
                    decisions = commits @ gaps
                in (Inr (if decisions = [] then [AwaitMoreEvidence] else decisions), s3))"

definition sequencer_observe_provisional ::
  "event_library \<Rightarrow> block_candidate \<Rightarrow> canonical_sequencer
     \<Rightarrow> (sequencer_error + sequencer_decision list) \<times> canonical_sequencer" where
  "sequencer_observe_provisional lib candidate s =
     (if (case current (provisional_mark s) of
            Some w \<Rightarrow> b_block_height (c_block candidate) \<le> w
          | None \<Rightarrow> False)
      then observe_retained lib candidate False s
      else (Inr [PublishProvisional (c_block candidate)],
            s\<lparr>provisional_mark := advance (c_block candidate) (provisional_mark s)\<rparr>))"

definition observe ::
  "event_library \<Rightarrow> block_candidate \<Rightarrow> canonical_sequencer
     \<Rightarrow> (sequencer_error + sequencer_decision list) \<times> canonical_sequencer" where
  "observe lib candidate s =
     (if b_chain_id (c_block candidate) \<noteq> sc_chain_id (config s)
      then (Inl (ChainMismatch (sc_chain_id (config s)) (b_chain_id (c_block candidate))), s)
      else
        case publication_lane (c_admission candidate) of
          CommittedCandidate \<Rightarrow> observe_committed lib candidate s
        | Provisional \<Rightarrow> sequencer_observe_provisional lib candidate s
        | _ \<Rightarrow> (Inl (Candidate UnsupportedPublicationLane), s))"

section \<open>Merging keeps the canonical content\<close>

text \<open>Events that differ in their evidence only.\<close>

definition same_but_evidence :: "canonical_event \<Rightarrow> canonical_event \<Rightarrow> bool" where
  "same_but_evidence a b \<longleftrightarrow> b = a\<lparr>e_source_evidence := e_source_evidence b\<rparr>"

lemma same_but_evidence_fields:
  assumes "same_but_evidence a b"
  shows "e_event_id b = e_event_id a" "event_material b = event_material a"
    "event_fits lib c h t k b = event_fits lib c h t k a" "order_position b = order_position a"
    "validate_order prev b = validate_order prev a" "e_event_index b = e_event_index a"
proof -
  have "b = a\<lparr>e_source_evidence := e_source_evidence b\<rparr>" using assms by (simp add: same_but_evidence_def)
  then obtain ev where b: "b = a\<lparr>e_source_evidence := ev\<rparr>" by blast
  show "e_event_id b = e_event_id a" "event_material b = event_material a"
    "event_fits lib c h t k b = event_fits lib c h t k a" "order_position b = order_position a"
    "validate_order prev b = validate_order prev a" "e_event_index b = e_event_index a"
    by (simp_all add: b event_material_def event_fits_def order_position_def validate_order_def
        expected_event_id_def event_identity_of_def split: option.splits)
qed

lemma events_ok_evidence:
  assumes "list_all2 same_but_evidence as bs"
  shows "events_ok lib bs c h t k = events_ok lib as c h t k"
    and "block_material c h t bs = block_material c h t as"
proof -
  have ids: "map e_event_id bs = map e_event_id as"
    using assms by induction (simp_all add: same_but_evidence_fields)
  have fits: "(\<forall>e \<in> set bs. event_fits lib c h t k e) = (\<forall>e \<in> set as. event_fits lib c h t k e)"
    using assms by induction (simp_all add: same_but_evidence_fields)
  have hd: "as \<noteq> [] \<Longrightarrow> e_event_index (hd bs) = e_event_index (hd as)" "bs = [] \<longleftrightarrow> as = []"
    using assms by (cases; simp add: same_but_evidence_fields)+
  have succ: "successively follows bs = successively follows as"
    using assms
  proof induction
    case (Cons a as b bs)
    have "follows b (hd bs) = follows a (hd as)" if "as \<noteq> []"
      using Cons.hyps that by (cases as; cases bs) (auto simp: same_but_evidence_fields)
    then show ?case using Cons by (cases as; cases bs) auto
  qed simp
  show "events_ok lib bs c h t k = events_ok lib as c h t k"
    using ids fits hd succ by (auto simp: events_ok_def)
  have "map event_material bs = map event_material as"
    using assms by induction (simp_all add: same_but_evidence_fields)
  then show "block_material c h t bs = block_material c h t as"
    using list_all2_lengthD [OF assms] by (simp add: block_material_def)
qed

lemma merge_event_Inr:
  assumes "merge_event lib b (x, y) = Inr m"
  shows "same_but_evidence x m" and "set (e_source_evidence m) = set (e_source_evidence x) \<union> set (e_source_evidence y)"
proof -
  have "merge_matching_source_evidence x y = Inr m"
    using assms by (auto simp: merge_event_def split: sum.splits evidence_merge_error.splits)
  then show "same_but_evidence x m" and "set (e_source_evidence m) = set (e_source_evidence x) \<union> set (e_source_evidence y)"
    by (simp_all add: merge_evidence_Inr same_but_evidence_def)
qed

lemma merged_events:
  assumes "length xs = length ys" and "rcollect (merge_event lib b) (zip xs ys) = Inr ms"
  shows "list_all2 same_but_evidence xs ms"
  using assms
proof (induction xs ys arbitrary: ms rule: list_induct2)
  case (Cons x xs y ys)
  then show ?case by (auto simp: rbind_Inr_iff merge_event_Inr)
qed simp

lemma bt_insert_neq_Nil [simp]: "bt_insert lt k v m \<noteq> []"
  by (cases m) (auto split: if_splits)

lemma bt_extend_neq_Nil: "m \<noteq> [] \<Longrightarrow> bt_extend lt ps m \<noteq> []"
proof (induction ps arbitrary: m)
  case (Cons p ps)
  then show ?case using Cons.IH [of "bt_insert lt (fst p) (snd p) m"]
    by (simp add: bt_extend_def split_def)
qed (simp add: bt_extend_def)

lemma compare_and_merge_cases:
  assumes "block_ok lib existing" and "compare_and_merge lib existing cand = r"
  shows "(\<exists>q. r = Inl (Divergence q)) \<or> (\<exists>i m. r = Inl (InvalidEvidence i m))
    \<or> (\<exists>m. r = Inr m \<and> block_ok lib m \<and> b_chain_id m = b_chain_id existing
        \<and> b_block_height m = b_block_height existing \<and> b_block_time m = b_block_time existing
        \<and> b_confirmation_class m = b_confirmation_class existing
        \<and> b_canonical_block_hash m = b_canonical_block_hash existing
        \<and> b_canonical_block_hash (c_block cand) = b_canonical_block_hash existing
        \<and> list_all2 same_but_evidence (b_events existing) (b_events m)
        \<and> b_source_block_hashes m = bt_extend (<) (b_source_block_hashes (c_block cand)) (b_source_block_hashes existing))"
proof (cases "b_canonical_block_hash existing = b_canonical_block_hash (c_block cand)
    \<and> source_hash_conflict lib (b_chain_id existing) (b_block_height existing) (b_source_block_hashes existing) cand = None
    \<and> length (b_events existing) = length (b_events (c_block cand))")
  case False
  then show ?thesis using assms(2) by (auto simp: compare_and_merge_def Let_def split: option.splits if_splits)
next
  case True
  let ?z = "zip (b_events existing) (b_events (c_block cand))"
  let ?h = "bt_extend (<) (b_source_block_hashes (c_block cand)) (b_source_block_hashes existing)"
  show ?thesis
  proof (cases "rcollect (merge_event lib existing) ?z")
    case (Inl e)
    have "\<exists>q. (\<exists>x y. e = Divergence q \<or> e = InvalidEvidence x y)"
    proof -
      have "rcollect (merge_event lib existing) zs = Inl e \<Longrightarrow> \<exists>z. merge_event lib existing z = Inl e" for zs
        by (induction zs) (auto simp: rbind_Inl_iff)
      then obtain z where "merge_event lib existing z = Inl e" using Inl by blast
      then show ?thesis by (auto simp: merge_event_def split: prod.splits sum.splits evidence_merge_error.splits)
    qed
    then show ?thesis using True Inl assms(2) by (auto simp: compare_and_merge_def Let_def)
  next
    case (Inr ms)
    have all2: "list_all2 same_but_evidence (b_events existing) ms"
      using merged_events [OF _ Inr] True by simp
    have ok: "?h \<noteq> []" "events_ok lib ms (b_chain_id existing) (b_block_height existing) (b_block_time existing) (b_confirmation_class existing)"
      using assms(1) events_ok_evidence(1) [OF all2] by (auto simp: block_ok_def bt_extend_neq_Nil)
    then have "validate_events lib ms (b_chain_id existing) (b_block_height existing) (b_block_time existing) (b_confirmation_class existing) = Inr ()"
      by (simp add: validate_events_iff)
    then have r: "r = Inr \<lparr>b_chain_id = b_chain_id existing, b_block_height = b_block_height existing,
        b_block_time = b_block_time existing, b_confirmation_class = b_confirmation_class existing,
        b_events = ms, b_source_block_hashes = ?h,
        b_canonical_block_hash = compute_block_hash lib (b_chain_id existing) (b_block_height existing) (b_block_time existing) ms\<rparr>"
      using True Inr ok(1) assms(2) by (simp add: compare_and_merge_def Let_def block_envelope_new_def)
    then show ?thesis using ok all2 True assms(1) events_ok_evidence(2) [OF all2]
      by (simp add: block_ok_def compute_block_hash_def)
  qed
qed

section \<open>The invariant\<close>

text \<open>A height the sequencer has not committed yet.\<close>

definition ahead :: "canonical_sequencer \<Rightarrow> block_height \<Rightarrow> bool" where
  "ahead s h \<longleftrightarrow>
     (case current (committed_mark s) of Some w \<Rightarrow> w < h | None \<Rightarrow> first_height (config s) \<le> h)"

definition stored_ok ::
  "event_library \<Rightarrow> chain_id \<Rightarrow> (block_height, block_envelope) btree \<Rightarrow> bool" where
  "stored_ok lib chain m \<longleftrightarrow> bt_sorted (<) m
     \<and> (\<forall>(h, b) \<in> set m. b_block_height b = h \<and> block_ok lib b \<and> b_chain_id b = chain)"

definition mark_ok :: "event_library \<Rightarrow> chain_id \<Rightarrow> watermark \<Rightarrow> bool" where
  "mark_ok lib chain w \<longleftrightarrow> stored_ok lib chain (retained w) \<and> length (retained w) \<le> retained_limit w
     \<and> (\<forall>(h, b) \<in> set (retained w). \<exists>c. current w = Some c \<and> h \<le> c)
     \<and> (\<forall>c. current w = Some c \<longrightarrow> bt_get (<) c (retained w) \<noteq> None)"

definition true_gap :: "canonical_sequencer \<Rightarrow> gap_range option" where
  "true_gap s =
     (case (next_committed_height s, pending s) of
        (Some n, (h, _) # _) \<Rightarrow> if n < h then Some \<lparr>gap_start = n, gap_end_inclusive = h - 1\<rparr> else None
      | _ \<Rightarrow> None)"

definition pending_ok :: "event_library \<Rightarrow> canonical_sequencer \<Rightarrow> bool" where
  "pending_ok lib s \<longleftrightarrow> stored_ok lib (sc_chain_id (config s)) (pending s)
     \<and> (\<forall>(h, b) \<in> set (pending s). ahead s h)"

definition marks_ok :: "event_library \<Rightarrow> canonical_sequencer \<Rightarrow> bool" where
  "marks_ok lib s \<longleftrightarrow> mark_ok lib (sc_chain_id (config s)) (committed_mark s)
     \<and> mark_ok lib (sc_chain_id (config s)) (provisional_mark s)
     \<and> retained_limit (committed_mark s) > 0 \<and> retained_limit (provisional_mark s) > 0
     \<and> (\<forall>w. current (committed_mark s) = Some w \<longrightarrow> first_height (config s) \<le> w)"

definition drained :: "canonical_sequencer \<Rightarrow> bool" where
  "drained s \<longleftrightarrow> drain_step s = None"

definition sequencer_ok :: "event_library \<Rightarrow> canonical_sequencer \<Rightarrow> bool" where
  "sequencer_ok lib s \<longleftrightarrow> pending_ok lib s \<and> marks_ok lib s \<and> drained s
     \<and> length (pending s) \<le> max_pending_blocks (config s) \<and> outstanding_gap s = true_gap s
     \<and> (red_incident_id s = None \<longleftrightarrow> quarantines s = [])"

lemma checked_succ_le: "w < h \<longleftrightarrow> (\<exists>n. checked_succ w = Some n \<and> n \<le> (h :: u64))"
proof (cases "w = - 1")
  case True
  then show ?thesis by (simp add: checked_succ_def not_less)
next
  case False
  then show ?thesis by (auto simp: checked_succ_def word_less_nat_alt word_le_nat_alt unat_plus_1)
qed

lemma ahead_next: "ahead s h \<longleftrightarrow> (\<exists>n. next_committed_height s = Some n \<and> n \<le> h)"
  by (auto simp: ahead_def next_committed_height_def checked_succ_le split: option.splits)

lemma evict_oldest_drop: "evict_oldest n m = drop (length m - n) m"
  by (induction m) (auto simp: Suc_diff_le)

lemma bt_insert_last:
  "\<forall>(k, v) \<in> set m. k < h \<Longrightarrow> bt_insert (<) h b m = m @ [(h :: block_height, b)]"
  by (induction m) (auto dest: order.strict_trans)

lemma stored_ok_append:
  "stored_ok lib chain (m @ [(h, b)]) \<longleftrightarrow> stored_ok lib chain m \<and> (\<forall>(k, v) \<in> set m. k < h)
     \<and> b_block_height b = h \<and> block_ok lib b \<and> b_chain_id b = chain"
  by (auto simp: stored_ok_def bt_sorted_def sorted_wrt_append split_beta)

lemma stored_ok_drop: "stored_ok lib chain m \<Longrightarrow> stored_ok lib chain (drop n m)"
  using append_take_drop_id [of n m]
  by (auto simp: stored_ok_def bt_sorted_def sorted_wrt_drop dest: in_set_dropD)

lemma set_bt_insert_lin: "p \<in> set (bt_insert (<) k v m) \<Longrightarrow> p = (k :: 'a :: linorder, v) \<or> p \<in> set m"
  by (induction m) (auto split: if_splits)

lemma stored_ok_insert:
  "stored_ok lib chain m \<Longrightarrow> b_block_height b = h \<Longrightarrow> block_ok lib b \<Longrightarrow> b_chain_id b = chain
     \<Longrightarrow> stored_ok lib chain (bt_insert (<) h b m)"
  by (auto simp: stored_ok_def lin.bt_sorted_insert dest!: set_bt_insert_lin)

lemma advance_ok:
  assumes "mark_ok lib chain w" and "0 < retained_limit w" and "block_ok lib b" and "b_chain_id b = chain"
    and "\<forall>c. current w = Some c \<longrightarrow> c < b_block_height b"
  shows "mark_ok lib chain (advance b w)" and "current (advance b w) = Some (b_block_height b)"
    and "retained_limit (advance b w) = retained_limit w"
proof -
  let ?h = "b_block_height b" and ?m = "retained w"
  have below: "\<forall>(k, v) \<in> set ?m. k < ?h"
    using assms(1,5) by (fastforce simp: mark_ok_def)
  define r where "r = drop (Suc (length ?m) - retained_limit w) (?m @ [(?h, b)])"
  have adv: "retained (advance b w) = r"
    by (simp add: advance_def evict_oldest_drop bt_insert_last [OF below] r_def)
  have r: "r = drop (Suc (length ?m) - retained_limit w) ?m @ [(?h, b)]"
    using assms(2) by (simp add: r_def)
  have ok: "stored_ok lib chain r"
    unfolding r_def using assms below
    by (intro stored_ok_drop) (simp add: stored_ok_append mark_ok_def)
  have "bt_get (<) ?h r = Some b"
    using ok unfolding stored_ok_def by (intro lin.bt_get_in) (auto simp: r)
  moreover have "length r \<le> retained_limit w" by (simp add: r_def)
  moreover have "\<forall>(k, v) \<in> set r. k \<le> ?h"
    using below by (auto simp: r dest!: in_set_dropD)
  ultimately show "mark_ok lib chain (advance b w)"
    using ok adv by (auto simp: mark_ok_def advance_def)
  show "current (advance b w) = Some ?h" "retained_limit (advance b w) = retained_limit w"
    by (simp_all add: advance_def)
qed

text \<open>The parts of the state that committing does not touch.\<close>

definition same_frame_seq :: "canonical_sequencer \<Rightarrow> canonical_sequencer \<Rightarrow> bool" where
  "same_frame_seq s t \<longleftrightarrow> config t = config s \<and> provisional_mark t = provisional_mark s
     \<and> outstanding_gap t = outstanding_gap s \<and> red_incident_id t = red_incident_id s
     \<and> quarantines t = quarantines s"

definition blocks_from :: "nat \<Rightarrow> block_envelope list \<Rightarrow> bool" where
  "blocks_from n bs \<longleftrightarrow> map (\<lambda>b. unat (b_block_height b)) bs = [n ..< n + length bs]"

lemma blocks_from_Cons:
  "blocks_from n (b # bs) \<longleftrightarrow> unat (b_block_height b) = n \<and> blocks_from (Suc n) bs"
  by (auto simp: blocks_from_def upt_rec)

lemma blocks_from_append:
  "blocks_from n (xs @ ys) \<longleftrightarrow> blocks_from n xs \<and> blocks_from (n + length xs) ys"
proof (induction xs arbitrary: n)
  case Nil
  then show ?case by (simp add: blocks_from_def)
qed (auto simp: blocks_from_Cons)

lemma drain_step_ok:
  assumes "pending_ok lib s" and "marks_ok lib s" and "drain_step s = Some (b, t)"
  shows "pending_ok lib t" "marks_ok lib t" "same_frame_seq s t"
    and "next_committed_height s = Some (b_block_height b)"
    and "current (committed_mark t) = Some (b_block_height b)"
    and "block_ok lib b" "b_chain_id b = sc_chain_id (config s)"
    and "length (pending s) = Suc (length (pending t))"
proof -
  obtain n where n: "next_committed_height s = Some n" "bt_get (<) n (pending s) = Some b"
    and t: "t = s\<lparr>pending := bt_remove (<) n (pending s), committed_mark := advance b (committed_mark s)\<rparr>"
    using assms(3) by (auto simp: drain_step_def split: option.splits)
  have sorted: "bt_sorted (<) (pending s)" using assms(1) by (simp add: pending_ok_def stored_ok_def)
  have "(n, b) \<in> set (pending s)" using n(2) sorted by (simp add: bt_get_lin_Some_iff)
  then have b: "b_block_height b = n" "block_ok lib b" "b_chain_id b = sc_chain_id (config s)" "ahead s n"
    using assms(1) by (auto simp: pending_ok_def stored_ok_def)
  have adv: "mark_ok lib (sc_chain_id (config s)) (advance b (committed_mark s))"
    "current (advance b (committed_mark s)) = Some n"
    using assms(2) b advance_ok [of lib "sc_chain_id (config s)" "committed_mark s" b]
    by (auto simp: marks_ok_def ahead_def split: option.splits)
  have first: "first_height (config s) \<le> n"
    using b(4) assms(2) by (auto simp: ahead_def marks_ok_def split: option.splits)
  show "marks_ok lib t" using assms(2) adv first by (auto simp: marks_ok_def t advance_def)
  have rest: "set (bt_remove (<) n (pending s)) = {p \<in> set (pending s). fst p \<noteq> n}"
    using lin.set_bt_remove [OF sorted, of n] by simp
  have "n < h" if "(h, v) \<in> set (pending s)" "h \<noteq> n" for h v
  proof -
    have "ahead s h" using assms(1) that by (auto simp: pending_ok_def)
    then show ?thesis using n(1) that(2) by (auto simp: ahead_next)
  qed
  then show "pending_ok lib t"
    using assms(1) rest adv(2) lin.bt_sorted_remove [OF sorted, of n]
    by (auto simp: pending_ok_def stored_ok_def t ahead_def)
  show "length (pending s) = Suc (length (pending t))"
    using lin.length_bt_remove [OF sorted, of n] n(2) length_bt_remove_get [OF n(2)] by (simp add: t)
  show "same_frame_seq s t" "next_committed_height s = Some (b_block_height b)"
    "current (committed_mark t) = Some (b_block_height b)" "block_ok lib b"
    "b_chain_id b = sc_chain_id (config s)"
    using n b adv by (simp_all add: same_frame_seq_def t)
qed

lemma drain_ok:
  assumes "pending_ok lib s" and "marks_ok lib s" and "drain_contiguous s = (ds, t)"
  shows "\<exists>bs. ds = map Commit bs \<and> pending_ok lib t \<and> marks_ok lib t \<and> drained t \<and> same_frame_seq s t
    \<and> current (committed_mark t) =
        (if bs = [] then current (committed_mark s) else Some (b_block_height (last bs)))
    \<and> (\<forall>b \<in> set bs. block_ok lib b \<and> b_chain_id b = sc_chain_id (config s))
    \<and> (\<forall>n. next_committed_height s = Some n \<longrightarrow> blocks_from (unat n) bs)
    \<and> length (pending s) = length (pending t) + length bs"
  using assms
proof (induction s arbitrary: ds t rule: drain_contiguous.induct)
  case (1 s)
  show ?case
  proof (cases "drain_step s")
    case None
    then have "ds = [] \<and> t = s" using "1.prems"(3) by (simp add: drain_contiguous.simps [of s])
    then show ?thesis using "1.prems" None
      by (intro exI [of _ "[]"]) (simp add: drained_def same_frame_seq_def blocks_from_def)
  next
    case (Some bu)
    obtain b u where bu: "bu = (b, u)" by force
    obtain ds' where rec: "drain_contiguous u = (ds', t)" and ds: "ds = Commit b # ds'"
      using "1.prems"(3) Some bu by (auto simp: drain_contiguous.simps [of s] split: prod.splits)
    note st = drain_step_ok [OF "1.prems"(1,2) Some [unfolded bu]]
    obtain bs where bs: "ds' = map Commit bs" "pending_ok lib t" "marks_ok lib t" "drained t"
      "same_frame_seq u t"
      "current (committed_mark t) = (if bs = [] then current (committed_mark u) else Some (b_block_height (last bs)))"
      "\<forall>b \<in> set bs. block_ok lib b \<and> b_chain_id b = sc_chain_id (config u)"
      "\<forall>n. next_committed_height u = Some n \<longrightarrow> blocks_from (unat n) bs"
      "length (pending u) = length (pending t) + length bs"
      using "1.IH" [OF Some bu [symmetric] st(1,2) rec] Some bu by blast
    have "blocks_from (Suc (unat (b_block_height b))) bs"
    proof (cases "next_committed_height u")
      case None
      then have "bs = []" using rec bs(1)
        by (auto simp: drain_contiguous.simps [of u] drain_step_def)
      then show ?thesis by (simp add: blocks_from_def)
    next
      case (Some n)
      then have "unat n = Suc (unat (b_block_height b))"
        using st(5) by (simp add: next_committed_height_def unat_checked_succ)
      then show ?thesis using bs(8) Some by auto
    qed
    then show ?thesis using bs st ds
      by (intro exI [of _ "b # bs"]) (auto simp: blocks_from_Cons same_frame_seq_def)
  qed
qed

section \<open>Every observation keeps the invariant\<close>

fun committed_blocks :: "sequencer_decision list \<Rightarrow> block_envelope list" where
  "committed_blocks [] = []"
| "committed_blocks (Commit b # ds) = b # committed_blocks ds"
| "committed_blocks (d # ds) = committed_blocks ds"

fun decisions_of :: "sequencer_error + sequencer_decision list \<Rightarrow> sequencer_decision list" where
  "decisions_of (Inl _) = []"
| "decisions_of (Inr ds) = ds"

lemma committed_blocks_append: "committed_blocks (xs @ ys) = committed_blocks xs @ committed_blocks ys"
  by (induction xs rule: committed_blocks.induct) auto

lemma committed_blocks_Commit [simp]: "committed_blocks (map Commit bs) = bs"
  by (induction bs) auto

text \<open>What an observation does to the committed side: the blocks it commits follow the watermark.\<close>

definition commits_ok ::
  "event_library \<Rightarrow> canonical_sequencer \<Rightarrow> block_envelope list \<Rightarrow> canonical_sequencer \<Rightarrow> bool" where
  "commits_ok lib s bs t \<longleftrightarrow> config t = config s
     \<and> current (committed_mark t) =
         (if bs = [] then current (committed_mark s) else Some (b_block_height (last bs)))
     \<and> (\<forall>b \<in> set bs. block_ok lib b \<and> b_chain_id b = sc_chain_id (config s))
     \<and> (\<forall>n. next_committed_height s = Some n \<longrightarrow> blocks_from (unat n) bs)
     \<and> (next_committed_height s = None \<longrightarrow> bs = [])
     \<and> (red_incident_id s \<noteq> None \<longrightarrow> bs = [] \<and> red_incident_id t = red_incident_id s)"

lemma blocks_from_Nil [simp]: "blocks_from n []"
  by (simp add: blocks_from_def)

lemma next_cong:
  assumes "config t = config s" and "current (committed_mark t) = current (committed_mark s)"
  shows "next_committed_height t = next_committed_height s" and "ahead t = ahead s"
  using assms by (simp_all add: next_committed_height_def ahead_def fun_eq_iff split: option.splits)

lemma drained_iff:
  "drained s \<longleftrightarrow> (\<forall>n. next_committed_height s = Some n \<longrightarrow> bt_get (<) n (pending s) = None)"
  by (auto simp: drained_def drain_step_def split: option.splits)

lemma core_cong:
  assumes "config t = config s" and "committed_mark t = committed_mark s" and "pending t = pending s"
    and "provisional_mark t = provisional_mark s"
  shows "pending_ok lib t = pending_ok lib s" and "marks_ok lib t = marks_ok lib s"
    and "drained t = drained s" and "true_gap t = true_gap s"
  using assms next_cong [of t s]
  by (simp_all add: pending_ok_def marks_ok_def drained_iff true_gap_def)

lemma latch_ok:
  assumes "sequencer_ok lib s" and "latch_divergence r s = (d, t)"
  shows "sequencer_ok lib t" and "commits_ok lib s [] t" and "d = Quarantine r"
proof -
  have t: "t = s \<or> t = s\<lparr>red_incident_id := Some (q_incident_id r), quarantines := quarantines s @ [r]\<rparr>"
    and red: "red_incident_id s \<noteq> None \<Longrightarrow> t = s"
    using assms(2) by (auto simp: latch_divergence_def split: if_splits)
  define u where "u = s\<lparr>red_incident_id := Some (q_incident_id r), quarantines := quarantines s @ [r]\<rparr>"
  have same: "config u = config s" "committed_mark u = committed_mark s" "pending u = pending s"
    "provisional_mark u = provisional_mark s" by (simp_all add: u_def)
  have "sequencer_ok lib u"
    using assms(1) core_cong [OF same] by (simp add: sequencer_ok_def) (simp add: u_def)
  then show "sequencer_ok lib t" using t assms(1) unfolding u_def by blast
  show "commits_ok lib s [] t" using t red by (auto simp: commits_ok_def)
  show "d = Quarantine r" using assms(2) by (simp add: latch_divergence_def)
qed

lemma decide_merge_ok:
  assumes "sequencer_ok lib s" and "block_ok lib existing"
    and "decide_merge (compare_and_merge lib existing cand) cand store s = (r, t)"
    and "\<And>m. compare_and_merge lib existing cand = Inr m \<Longrightarrow> block_ok lib m \<Longrightarrow> b_chain_id m = b_chain_id existing
      \<Longrightarrow> b_block_height m = b_block_height existing
      \<Longrightarrow> sequencer_ok lib (store m) \<and> commits_ok lib s [] (store m)"
  shows "sequencer_ok lib t \<and> commits_ok lib s [] t \<and> committed_blocks (decisions_of r) = []"
proof -
  have self: "commits_ok lib s [] s" by (simp add: commits_ok_def)
  consider q where "compare_and_merge lib existing cand = Inl (Divergence q)"
    | i m where "compare_and_merge lib existing cand = Inl (InvalidEvidence i m)"
    | m where "compare_and_merge lib existing cand = Inr m" "block_ok lib m" "b_chain_id m = b_chain_id existing"
        "b_block_height m = b_block_height existing"
    using compare_and_merge_cases [OF assms(2) refl, of cand] by blast
  then show ?thesis
  proof cases
    case (1 q)
    then show ?thesis using assms(3) latch_ok [OF assms(1), of q]
      by (auto simp: decide_merge_def split: prod.splits)
  next
    case (2 i m)
    then show ?thesis using assms(1,3) self by (auto simp: decide_merge_def)
  next
    case (3 m)
    then show ?thesis using assms(3) assms(4) [OF 3] by (auto simp: decide_merge_def)
  qed
qed

lemma map_fst_bt_insert: "bt_get lt k m \<noteq> None \<Longrightarrow> map fst (bt_insert lt k v m) = map fst m"
  by (induction m) (auto split: if_splits)

lemma true_gap_keys:
  assumes "config t = config s" and "committed_mark t = committed_mark s"
    and "map fst (pending t) = map fst (pending s)"
  shows "true_gap t = true_gap s"
  using assms next_cong [of t s]
  by (cases "pending t"; cases "pending s") (auto simp: true_gap_def split: option.splits)

lemma mark_store_ok:
  assumes "mark_ok lib chain w" and "bt_get (<) h (retained w) \<noteq> None"
    and "block_ok lib m" and "b_chain_id m = chain" and "b_block_height m = h"
  shows "mark_ok lib chain (w\<lparr>retained := bt_insert (<) h m (retained w)\<rparr>)"
proof -
  have sorted: "bt_sorted (<) (retained w)" using assms(1) by (simp add: mark_ok_def stored_ok_def)
  have keys: "map fst (bt_insert (<) h m (retained w)) = map fst (retained w)"
    using map_fst_bt_insert [OF assms(2)] .
  have "stored_ok lib chain (bt_insert (<) h m (retained w))"
    using assms by (simp add: mark_ok_def stored_ok_insert)
  moreover have "\<forall>(k, b) \<in> set (bt_insert (<) h m (retained w)). \<exists>c. current w = Some c \<and> k \<le> c"
  proof -
    have "\<forall>k \<in> set (map fst (retained w)). \<exists>c. current w = Some c \<and> k \<le> c"
      using assms(1) by (auto simp: mark_ok_def)
    then show ?thesis unfolding keys [symmetric] by auto
  qed
  moreover have "\<forall>c. current w = Some c \<longrightarrow> bt_get (<) c (bt_insert (<) h m (retained w)) \<noteq> None"
    using assms(1) by (simp add: mark_ok_def lin.bt_get_insert [OF sorted])
  moreover have "length (bt_insert (<) h m (retained w)) = length (retained w)"
    using keys by (metis length_map)
  ultimately show ?thesis using assms(1) by (simp add: mark_ok_def)
qed

lemma retain_ok:
  assumes "sequencer_ok lib s" and "observe_retained lib cand committed s = (r, t)"
  shows "sequencer_ok lib t \<and> commits_ok lib s [] t \<and> committed_blocks (decisions_of r) = []"
proof -
  let ?mark = "if committed then committed_mark s else provisional_mark s"
  let ?h = "b_block_height (c_block cand)" and ?chain = "sc_chain_id (config s)"
  have mark: "mark_ok lib ?chain ?mark" using assms(1) by (simp add: sequencer_ok_def marks_ok_def)
  show ?thesis
  proof (cases "bt_get (<) ?h (retained ?mark)")
    case None
    then show ?thesis using assms by (auto simp: observe_retained_def commits_ok_def)
  next
    case (Some existing)
    have sorted: "bt_sorted (<) (retained ?mark)" using mark by (simp add: mark_ok_def stored_ok_def)
    then have "(?h, existing) \<in> set (retained ?mark)" using Some by (simp add: bt_get_lin_Some_iff)
    then have ex: "block_ok lib existing" "b_chain_id existing = ?chain" "b_block_height existing = ?h"
      using mark by (auto simp: mark_ok_def stored_ok_def)
    define upd where "upd m = ?mark\<lparr>retained := bt_insert (<) ?h m (retained ?mark)\<rparr>" for m
    have upd_ok: "mark_ok lib ?chain (upd m)"
      if "block_ok lib m" "b_chain_id m = ?chain" "b_block_height m = ?h" for m
      unfolding upd_def using mark_store_ok [OF mark _ that] Some by simp
    let ?store = "\<lambda>m. if committed then s\<lparr>committed_mark := upd m\<rparr> else s\<lparr>provisional_mark := upd m\<rparr>"
    have "decide_merge (compare_and_merge lib existing cand) cand ?store s = (r, t)"
      using assms(2) Some unfolding observe_retained_def Let_def upd_def by simp
    then show ?thesis
    proof (rule decide_merge_ok [OF assms(1) ex(1)])
      fix m assume m: "block_ok lib m" "b_chain_id m = b_chain_id existing" "b_block_height m = b_block_height existing"
      let ?t = "?store m"
      have same: "config ?t = config s" "current (committed_mark ?t) = current (committed_mark s)"
        "pending ?t = pending s" "outstanding_gap ?t = outstanding_gap s"
        "red_incident_id ?t = red_incident_id s" "quarantines ?t = quarantines s"
        by (simp_all add: upd_def)
      have "marks_ok lib ?t"
        using assms(1) upd_ok [of m] m ex by (auto simp: sequencer_ok_def marks_ok_def upd_def)
      then show "sequencer_ok lib ?t \<and> commits_ok lib s [] ?t"
        using assms(1) same next_cong [OF same(1,2)]
        by (simp add: sequencer_ok_def commits_ok_def pending_ok_def drained_iff true_gap_def)
    qed
  qed
qed

lemma refresh_gap_eq:
  assumes "refresh_gap lib s = (gs, t)"
  shows "t = s\<lparr>outstanding_gap := true_gap s\<rparr>" and "committed_blocks gs = []"
proof -
  show "t = s\<lparr>outstanding_gap := true_gap s\<rparr>"
    using assms
    by (cases "next_committed_height s"; cases "pending s")
       (auto simp: refresh_gap_def true_gap_def Let_def split: if_splits)
  show "committed_blocks gs = []"
    using assms by (auto simp: refresh_gap_def Let_def split: option.splits if_splits)
qed

lemma pending_merge_ok:
  assumes "sequencer_ok lib s" and "bt_get (<) h (pending s) = Some existing"
    and "block_ok lib m" and "b_chain_id m = sc_chain_id (config s)" and "b_block_height m = h"
  shows "sequencer_ok lib (s\<lparr>pending := bt_insert (<) h m (pending s)\<rparr>)" (is "sequencer_ok lib ?t")
proof -
  have sorted: "bt_sorted (<) (pending s)" and p: "pending_ok lib s"
    using assms(1) by (simp_all add: sequencer_ok_def pending_ok_def stored_ok_def)
  have keys: "map fst (pending ?t) = map fst (pending s)" using assms(2) by (simp add: map_fst_bt_insert)
  have cong: "next_committed_height ?t = next_committed_height s" "ahead ?t = ahead s"
    using next_cong [of ?t s] by simp_all
  have "\<forall>k \<in> set (map fst (pending s)). ahead s k" using p by (auto simp: pending_ok_def)
  then have "\<forall>(k, b) \<in> set (pending ?t). ahead s k" unfolding keys [symmetric] by auto
  moreover have "stored_ok lib (sc_chain_id (config s)) (pending ?t)"
    using p assms(3-5) by (simp add: pending_ok_def stored_ok_insert)
  moreover have "drained ?t"
    using assms(1,2) lin.bt_get_insert [OF sorted, of _ h m]
    by (auto simp: sequencer_ok_def drained_iff cong)
  moreover have "length (pending ?t) = length (pending s)" using keys by (metis length_map)
  moreover have "true_gap ?t = true_gap s" using true_gap_keys [OF _ _ keys] by simp
  ultimately show ?thesis using assms(1) cong
    by (simp add: sequencer_ok_def pending_ok_def marks_ok_def)
qed

lemma pending_insert_ok:
  assumes ok: "sequencer_ok lib s" and h: "ahead s (b_block_height b)"
    and fresh: "bt_get (<) (b_block_height b) (pending s) = None"
    and b: "block_ok lib b" "b_chain_id b = sc_chain_id (config s)"
  defines "t \<equiv> s\<lparr>pending := bt_insert (<) (b_block_height b) b (pending s)\<rparr>"
  shows "pending_ok lib t" and "marks_ok lib t"
    and "next_committed_height t = next_committed_height s" and "ahead t = ahead s"
proof -
  have sorted: "bt_sorted (<) (pending s)" using ok by (simp add: sequencer_ok_def pending_ok_def stored_ok_def)
  show cong: "next_committed_height t = next_committed_height s" "ahead t = ahead s"
    using next_cong [of t s] by (simp_all add: t_def)
  show "pending_ok lib t" "marks_ok lib t"
    using ok b h lin.set_bt_insert_fresh [OF fresh sorted] cong
    by (auto simp: t_def sequencer_ok_def pending_ok_def marks_ok_def stored_ok_insert)
qed

lemma admit_ok:
  assumes ok: "sequencer_ok lib s" and "red_incident_id s = None" and h: "ahead s (b_block_height b)"
    and fresh: "bt_get (<) (b_block_height b) (pending s) = None"
    and room: "length (pending s) < max_pending_blocks (config s)
      \<or> next_committed_height s = Some (b_block_height b)"
    and b: "block_ok lib b" "b_chain_id b = sc_chain_id (config s)"
    and dr: "drain_contiguous (s\<lparr>pending := bt_insert (<) (b_block_height b) b (pending s)\<rparr>) = (ds, u)"
    and rf: "refresh_gap lib u = (gs, t)"
  shows "sequencer_ok lib t \<and> commits_ok lib s (committed_blocks (ds @ gs)) t"
proof -
  let ?s = "s\<lparr>pending := bt_insert (<) (b_block_height b) b (pending s)\<rparr>"
  have sorted: "bt_sorted (<) (pending s)" using ok by (simp add: sequencer_ok_def pending_ok_def stored_ok_def)
  note cong = pending_insert_ok(3,4) [OF ok h fresh b]
  note p = pending_insert_ok(1,2) [OF ok h fresh b]
  obtain bs where bs: "ds = map Commit bs" "pending_ok lib u" "marks_ok lib u" "drained u" "same_frame_seq ?s u"
    "current (committed_mark u) = (if bs = [] then current (committed_mark ?s) else Some (b_block_height (last bs)))"
    "\<forall>b \<in> set bs. block_ok lib b \<and> b_chain_id b = sc_chain_id (config ?s)"
    "\<forall>n. next_committed_height ?s = Some n \<longrightarrow> blocks_from (unat n) bs"
    "length (pending ?s) = length (pending u) + length bs"
    using drain_ok [OF p dr] by blast
  have len: "length (pending ?s) = Suc (length (pending s))"
    using lin.length_bt_insert [OF sorted] fresh by simp
  have "length (pending u) \<le> max_pending_blocks (config s)"
  proof (cases "length (pending s) < max_pending_blocks (config s)")
    case False
    then have "bs \<noteq> []"
      using room dr bs(1) sorted
      by (auto simp: drain_contiguous.simps [of ?s] drain_step_def cong split: prod.splits)
    then have "length (pending u) \<le> length (pending s)" using bs(9) len by (cases bs) auto
    then show ?thesis using ok by (simp add: sequencer_ok_def)
  qed (use bs(9) len in simp)
  note t = refresh_gap_eq [OF rf]
  have same: "config t = config u" "committed_mark t = committed_mark u" "pending t = pending u"
    "provisional_mark t = provisional_mark u" using t by simp_all
  have "sequencer_ok lib t"
    using bs(2-5) core_cong [OF same] \<open>length (pending u) \<le> _\<close> ok t(1)
    by (simp add: sequencer_ok_def same_frame_seq_def)
  moreover have "next_committed_height s \<noteq> None" using h by (auto simp: ahead_next)
  ultimately show ?thesis using bs t assms(2) cong
    by (auto simp: commits_ok_def committed_blocks_append same_frame_seq_def)
qed

lemma observe_committed_ok:
  assumes ok: "sequencer_ok lib s" and b: "block_ok lib (c_block cand)"
    "b_chain_id (c_block cand) = sc_chain_id (config s)"
    and obs: "observe_committed lib cand s = (r, t)"
  shows "sequencer_ok lib t \<and> commits_ok lib s (committed_blocks (decisions_of r)) t"
proof -
  let ?h = "b_block_height (c_block cand)"
  have new: "ahead s ?h" if "\<not> (?h < first_height (config s)
      \<or> (case current (committed_mark s) of Some w \<Rightarrow> ?h \<le> w | None \<Rightarrow> False))"
    using that by (auto simp: ahead_def not_le not_less split: option.splits)
  consider i where "red_incident_id s = Some i"
    | "red_incident_id s = None" "?h < first_height (config s)
         \<or> (case current (committed_mark s) of Some w \<Rightarrow> ?h \<le> w | None \<Rightarrow> False)"
    | existing where "red_incident_id s = None" "ahead s ?h" "bt_get (<) ?h (pending s) = Some existing"
        "\<not> (?h < first_height (config s) \<or> (case current (committed_mark s) of Some w \<Rightarrow> ?h \<le> w | None \<Rightarrow> False))"
    | "red_incident_id s = None" "ahead s ?h" "bt_get (<) ?h (pending s) = None"
        "\<not> (?h < first_height (config s) \<or> (case current (committed_mark s) of Some w \<Rightarrow> ?h \<le> w | None \<Rightarrow> False))"
    using new by (metis option.exhaust)
  then show ?thesis
  proof cases
    case (1 i)
    then show ?thesis using ok obs by (auto simp: observe_committed_def commits_ok_def)
  next
    case 2
    then have "observe_retained lib cand True s = (r, t)" using obs by (simp add: observe_committed_def)
    then show ?thesis using retain_ok [OF ok] by simp
  next
    case (3 existing)
    have sorted: "bt_sorted (<) (pending s)" using ok by (simp add: sequencer_ok_def pending_ok_def stored_ok_def)
    have "(?h, existing) \<in> set (pending s)" using 3(3) sorted by (simp add: bt_get_lin_Some_iff)
    then have ex: "block_ok lib existing" "b_chain_id existing = sc_chain_id (config s)" "b_block_height existing = ?h"
      using ok by (auto simp: sequencer_ok_def pending_ok_def stored_ok_def)
    have "decide_merge (compare_and_merge lib existing cand) cand
        (\<lambda>m. s\<lparr>pending := bt_insert (<) ?h m (pending s)\<rparr>) s = (r, t)"
      using obs 3 by (simp add: observe_committed_def)
    then show ?thesis
      using decide_merge_ok [OF ok ex(1)] pending_merge_ok [OF ok 3(3)] ex
      by (auto simp: commits_ok_def)
  next
    case 4
    show ?thesis
    proof (cases "length (pending s) \<ge> max_pending_blocks (config s) \<and> Some ?h \<noteq> next_committed_height s")
      case True
      then show ?thesis using ok obs 4 by (auto simp: observe_committed_def commits_ok_def)
    next
      case False
      obtain ds u gs t' where d: "drain_contiguous (s\<lparr>pending := bt_insert (<) ?h (c_block cand) (pending s)\<rparr>) = (ds, u)"
        and g: "refresh_gap lib u = (gs, t')" by (metis surj_pair)
      have rt: "r = Inr (if ds @ gs = [] then [AwaitMoreEvidence] else ds @ gs)" "t = t'"
        using obs 4 False d g by (auto simp: observe_committed_def Let_def)
      have room: "length (pending s) < max_pending_blocks (config s) \<or> next_committed_height s = Some ?h"
        using False by auto
      have "sequencer_ok lib t' \<and> commits_ok lib s (committed_blocks (ds @ gs)) t'"
        using admit_ok [OF ok 4(1-3) room b d g] .
      then show ?thesis unfolding rt by (cases "ds @ gs = []") auto
    qed
  qed
qed

lemma sequencer_observe_ok:
  assumes ok: "sequencer_ok lib s" and b: "block_ok lib (c_block cand)" and obs: "observe lib cand s = (r, t)"
  shows "sequencer_ok lib t \<and> commits_ok lib s (committed_blocks (decisions_of r)) t"
proof -
  have self: "sequencer_ok lib s \<and> commits_ok lib s [] s" using ok by (simp add: commits_ok_def)
  have prov: "sequencer_ok lib t \<and> commits_ok lib s (committed_blocks (decisions_of r)) t"
    if chain: "b_chain_id (c_block cand) = sc_chain_id (config s)"
      and p: "sequencer_observe_provisional lib cand s = (r, t)"
  proof (cases "case current (provisional_mark s) of Some w \<Rightarrow> b_block_height (c_block cand) \<le> w | None \<Rightarrow> False")
    case True
    then show ?thesis using retain_ok [OF ok] p by (auto simp: sequencer_observe_provisional_def)
  next
    case False
    then have rt: "r = Inr [PublishProvisional (c_block cand)]"
      "t = s\<lparr>provisional_mark := advance (c_block cand) (provisional_mark s)\<rparr>"
      using p by (auto simp: sequencer_observe_provisional_def)
    have m: "mark_ok lib (sc_chain_id (config s)) (advance (c_block cand) (provisional_mark s))"
      "retained_limit (advance (c_block cand) (provisional_mark s)) = retained_limit (provisional_mark s)"
      using ok b chain False advance_ok [of lib "sc_chain_id (config s)" "provisional_mark s" "c_block cand"]
      by (auto simp: sequencer_ok_def marks_ok_def not_le split: option.splits)
    have "marks_ok lib t" using ok m by (simp add: rt sequencer_ok_def marks_ok_def)
    moreover have "next_committed_height t = next_committed_height s" "ahead t = ahead s"
      using next_cong [of t s] by (simp_all add: rt)
    ultimately show ?thesis using ok
      by (simp add: rt sequencer_ok_def pending_ok_def drained_iff true_gap_def commits_ok_def)
  qed
  show ?thesis
    using obs self prov observe_committed_ok [OF ok b]
    by (auto simp: observe_def split: if_splits publication_lane.splits)
qed

section \<open>Runs\<close>

text \<open>The decisions of a run, oldest first, and the state it leads to.\<close>

inductive sequencer_run ::
  "event_library \<Rightarrow> sequencer_config \<Rightarrow> sequencer_decision list \<Rightarrow> canonical_sequencer \<Rightarrow> bool"
  for lib c where
  start: "sequencer_config_new chain first max_pending retained_blocks = Inr c
    \<Longrightarrow> sequencer_run lib c [] (sequencer_new c)"
| step: "sequencer_run lib c ds s \<Longrightarrow> block_candidate_new source admission block = Inr cand
    \<Longrightarrow> block_ok lib block \<Longrightarrow> observe lib cand s = (r, t)
    \<Longrightarrow> sequencer_run lib c (ds @ decisions_of r) t"

lemma candidate_block: "block_candidate_new source admission block = Inr cand \<Longrightarrow> c_block cand = block"
  by (auto simp: block_candidate_new_def rbind_Inr_iff split: if_splits)

lemma sequencer_new_ok:
  "sequencer_config_new chain first max_pending retained_blocks = Inr c \<Longrightarrow> sequencer_ok lib (sequencer_new c)"
  by (auto simp: sequencer_config_new_def sequencer_ok_def sequencer_new_def pending_ok_def stored_ok_def
      marks_ok_def mark_ok_def watermark_new_def drained_iff true_gap_def next_committed_height_def
      split: if_splits option.splits)

text \<open>The watermark and the committed blocks of a run agree.\<close>

definition commit_history :: "event_library \<Rightarrow> sequencer_config \<Rightarrow> block_envelope list \<Rightarrow> canonical_sequencer \<Rightarrow> bool" where
  "commit_history lib c bs s \<longleftrightarrow> config s = c \<and> blocks_from (unat (first_height c)) bs
     \<and> current (committed_mark s) = (if bs = [] then None else Some (b_block_height (last bs)))
     \<and> (\<forall>b \<in> set bs. block_ok lib b \<and> b_chain_id b = sc_chain_id c)"

lemma blocks_from_last:
  "blocks_from n bs \<Longrightarrow> bs \<noteq> [] \<Longrightarrow> unat (b_block_height (last bs)) = n + length bs - 1"
  by (cases bs rule: rev_cases) (auto simp: blocks_from_append blocks_from_Cons)

lemma commit_history_step:
  assumes "commit_history lib c bs s" and "commits_ok lib s cs t"
  shows "commit_history lib c (bs @ cs) t"
proof -
  have next_height: "unat n = unat (first_height c) + length bs" if n: "next_committed_height s = Some n" for n
  proof (cases "bs = []")
    case False
    then have "checked_succ (b_block_height (last bs)) = Some n"
      using n assms(1) by (simp add: next_committed_height_def commit_history_def)
    then show ?thesis
      using blocks_from_last [of "unat (first_height c)" bs] False assms(1)
      by (cases bs) (auto simp: commit_history_def unat_checked_succ)
  qed (use n assms(1) in \<open>auto simp: next_committed_height_def commit_history_def\<close>)
  have "blocks_from (unat (first_height c)) (bs @ cs)"
  proof (cases "next_committed_height s")
    case None
    then show ?thesis using assms by (simp add: commits_ok_def commit_history_def)
  next
    case (Some n)
    then have "blocks_from (unat n) cs" using assms(2) by (simp add: commits_ok_def)
    then show ?thesis using assms(1) next_height [OF Some] by (simp add: commit_history_def blocks_from_append)
  qed
  then show ?thesis using assms by (auto simp: commits_ok_def commit_history_def)
qed

lemma run_ok:
  "sequencer_run lib c ds s \<Longrightarrow> sequencer_ok lib s \<and> commit_history lib c (committed_blocks ds) s"
proof (induction rule: sequencer_run.induct)
  case (start chain first max_pending retained_blocks)
  then show ?case using sequencer_new_ok
    by (auto simp: commit_history_def sequencer_new_def watermark_new_def)
next
  case (step ds s source admission block cand r t)
  have "sequencer_ok lib t \<and> commits_ok lib s (committed_blocks (decisions_of r)) t"
    using sequencer_observe_ok [OF _ _ step.hyps(4)] step.IH step.hyps(3) candidate_block [OF step.hyps(2)] by simp
  then show ?case using commit_history_step step.IH by (auto simp: committed_blocks_append)
qed

lemma drain_pending:
  assumes "pending_ok lib s" and "marks_ok lib s" and "drain_contiguous s = (ds, t)" and "ahead t k"
  shows "ahead s k \<and> bt_get (<) k (pending t) = bt_get (<) k (pending s)"
  using assms
proof (induction s arbitrary: ds t rule: drain_contiguous.induct)
  case (1 s)
  show ?case
  proof (cases "drain_step s")
    case None
    then show ?thesis using "1.prems" by (simp add: drain_contiguous.simps [of s])
  next
    case (Some bu)
    obtain b u where bu: "bu = (b, u)" by force
    obtain ds' where rec: "drain_contiguous u = (ds', t)"
      using "1.prems"(3) Some bu by (auto simp: drain_contiguous.simps [of s] split: prod.splits)
    note st = drain_step_ok [OF "1.prems"(1,2) Some [unfolded bu]]
    have u: "ahead u k" "bt_get (<) k (pending t) = bt_get (<) k (pending u)"
      using "1.IH" [OF Some bu [symmetric] st(1,2) rec "1.prems"(4)] by simp_all
    have k: "b_block_height b < k" using u(1) st(5) by (simp add: ahead_def)
    have sorted: "bt_sorted (<) (pending s)" using "1.prems"(1) by (simp add: pending_ok_def stored_ok_def)
    have "pending u = bt_remove (<) (b_block_height b) (pending s)"
      using Some bu st(4) by (auto simp: drain_step_def split: option.splits)
    then have "bt_get (<) k (pending u) = bt_get (<) k (pending s)"
      using lin.bt_get_remove [OF sorted] k by auto
    moreover have "ahead s k" using st(4) k by (auto simp: ahead_next)
    ultimately show ?thesis using u(2) by simp
  qed
qed

text \<open>A concrete sequencer: one source, empty blocks.\<close>

definition sample_block :: "block_height \<Rightarrow> block_envelope" where
  "sample_block h = \<lparr>b_chain_id = ''c'', b_block_height = h, b_block_time = 0,
     b_confirmation_class = CommittedPrimary, b_events = [], b_source_block_hashes = [(''s'', [3])],
     b_canonical_block_hash = replicate 32 2\<rparr>"

definition sample_admission :: source_admission where
  "sample_admission = \<lparr>trust = LocallyVerifiedCommitted, observation_class = CommittedBlock,
     publication_lane = CommittedCandidate\<rparr>"

definition sample_candidate :: "block_height \<Rightarrow> block_candidate" where
  "sample_candidate h = \<lparr>c_source_id = ''s'', c_admission = sample_admission, c_block = sample_block h\<rparr>"

definition sample_config :: sequencer_config where
  "sample_config = \<lparr>sc_chain_id = ''c'', first_height = 5, max_pending_blocks = 2,
     retained_committed_blocks = 2\<rparr>"

lemma sample_block_ok: "block_ok sample_events (sample_block h)"
  by (simp add: block_ok_def sample_block_def events_ok_def compute_block_hash_def sample_events_def)

lemma sample_candidate_new: "block_candidate_new ''s'' sample_admission (sample_block h) = Inr (sample_candidate h)"
  by (simp add: block_candidate_new_def sample_candidate_def sample_block_def sample_admission_def
      validate_confirmation_def)

lemma sample_start: "sequencer_run sample_events sample_config [] (sequencer_new sample_config)"
  by (rule sequencer_run.start [where chain = "''c''" and first = 5 and max_pending = 2 and retained_blocks = 2])
     (simp add: sequencer_config_new_def sample_config_def)

text \<open>Height 6 arrives first and waits behind the gap.\<close>

definition sample_waiting :: canonical_sequencer where
  "sample_waiting = snd (observe sample_events (sample_candidate 6) (sequencer_new sample_config))"

lemma sample_waiting_eq:
  "observe sample_events (sample_candidate 6) (sequencer_new sample_config) =
     (Inr [RequestGap ''inc_00'' 5 5], sample_waiting)"
  "pending sample_waiting = [(6, sample_block 6)]" "red_incident_id sample_waiting = None"
  "current (committed_mark sample_waiting) = None" "config sample_waiting = sample_config"
proof -
  let ?s = "sequencer_new sample_config"
  have obs: "observe sample_events (sample_candidate 6) ?s =
      (Inr [RequestGap ''inc_00'' 5 5],
       ?s\<lparr>pending := [(6, sample_block 6)], outstanding_gap := Some \<lparr>gap_start = 5, gap_end_inclusive = 5\<rparr>\<rparr>)"
    by (simp add: observe_def observe_committed_def sample_candidate_def sample_admission_def sample_block_def
        sequencer_new_def sample_config_def watermark_new_def next_committed_height_def drain_contiguous.simps
        drain_step_def refresh_gap_def gap_incident_id_def sample_events_def Let_def)
  show "observe sample_events (sample_candidate 6) ?s = (Inr [RequestGap ''inc_00'' 5 5], sample_waiting)"
    "pending sample_waiting = [(6, sample_block 6)]" "red_incident_id sample_waiting = None"
    "current (committed_mark sample_waiting) = None" "config sample_waiting = sample_config"
    unfolding sample_waiting_def obs by (simp_all add: sequencer_new_def watermark_new_def)
qed

lemma sample_waiting_run:
  "sequencer_run sample_events sample_config [RequestGap ''inc_00'' 5 5] sample_waiting"
  using sequencer_run.step [OF sample_start sample_candidate_new sample_block_ok sample_waiting_eq(1)] by simp

section \<open>Properties\<close>

text \<open>
  C3. Committed heights are consecutive. In every run of the sequencer, whatever candidates
  arrive in whatever order, the blocks it decides to commit have exactly the heights
  \<open>first\<close>, \<open>first + 1\<close>, and so on, each once and in this order; all are valid blocks of the
  configured chain, and the committed watermark is the height of the last of them.
\<close>

theorem sequencer_commits_consecutive:
  assumes "sequencer_run lib c ds s"
  shows "map (\<lambda>b. unat (b_block_height b)) (committed_blocks ds) =
      [unat (first_height c) ..< unat (first_height c) + length (committed_blocks ds)]
    \<and> current (committed_mark s) = (if committed_blocks ds = [] then None
        else Some (b_block_height (last (committed_blocks ds))))
    \<and> (\<forall>b \<in> set (committed_blocks ds). block_ok lib b \<and> b_chain_id b = sc_chain_id c)"
  using run_ok [OF assms] by (simp add: commit_history_def blocks_from_def)

theorem sequencer_commits_consecutive_witness:
  "sequencer_run sample_events sample_config [RequestGap ''inc_00'' 5 5] sample_waiting
   \<and> current (committed_mark sample_waiting) = None"
  using sequencer_commits_consecutive [OF sample_waiting_run] sample_waiting_run by simp



text \<open>
  C33. A divergence stops the sequencer. Once an incident is latched, no observation ever
  commits a block, moves the committed watermark or replaces the incident, and every
  candidate for the committed lane is answered by waiting for an operator. And a candidate
  whose canonical hash differs from the waiting block of its height is never dropped: it is
  quarantined with both hashes and latches the incident.
\<close>

theorem sequencer_divergence_latches:
  assumes "sequencer_run lib c ds s" and "block_ok lib (c_block cand)" and "observe lib cand s = (r, t)"
  shows "(\<forall>i. red_incident_id s = Some i \<longrightarrow>
       red_incident_id t = Some i \<and> committed_blocks (decisions_of r) = []
       \<and> current (committed_mark t) = current (committed_mark s)
       \<and> (b_chain_id (c_block cand) = sc_chain_id c \<and> publication_lane (c_admission cand) = CommittedCandidate
            \<longrightarrow> r = Inr [AwaitOperatorResolution i] \<and> t = s))
    \<and> (\<forall>e. red_incident_id s = None \<and> b_chain_id (c_block cand) = sc_chain_id c
        \<and> publication_lane (c_admission cand) = CommittedCandidate
        \<and> bt_get (<) (b_block_height (c_block cand)) (pending s) = Some e
        \<and> b_canonical_block_hash e \<noteq> b_canonical_block_hash (c_block cand)
        \<longrightarrow> (\<exists>q. r = Inr [Quarantine q] \<and> red_incident_id t = Some (q_incident_id q)
              \<and> q_reason q = ConflictingCanonicalBlock (b_canonical_block_hash e) (b_canonical_block_hash (c_block cand))))"
proof (intro conjI allI impI)
  note run = run_ok [OF assms(1)]
  have ok: "sequencer_ok lib s" and c: "config s = c" using run by (simp_all add: commit_history_def)
  have step: "commits_ok lib s (committed_blocks (decisions_of r)) t" using sequencer_observe_ok [OF ok assms(2,3)] by simp
  {
    fix i assume i: "red_incident_id s = Some i"
    show "red_incident_id t = Some i" "committed_blocks (decisions_of r) = []"
      "current (committed_mark t) = current (committed_mark s)"
      using step i by (auto simp: commits_ok_def)
    assume "b_chain_id (c_block cand) = sc_chain_id c \<and> publication_lane (c_admission cand) = CommittedCandidate"
    then show "r = Inr [AwaitOperatorResolution i]" "t = s"
      using assms(3) i c by (auto simp: observe_def observe_committed_def)
  }
  let ?h = "b_block_height (c_block cand)"
  fix e assume h: "red_incident_id s = None \<and> b_chain_id (c_block cand) = sc_chain_id c
      \<and> publication_lane (c_admission cand) = CommittedCandidate \<and> bt_get (<) ?h (pending s) = Some e
      \<and> b_canonical_block_hash e \<noteq> b_canonical_block_hash (c_block cand)"
  then have "(?h, e) \<in> set (pending s)"
    using ok by (simp add: bt_get_lin_Some_iff sequencer_ok_def pending_ok_def stored_ok_def)
  then have "ahead s ?h" using ok by (auto simp: sequencer_ok_def pending_ok_def)
  then have new: "\<not> (?h < first_height (config s) \<or> (case current (committed_mark s) of Some w \<Rightarrow> ?h \<le> w | None \<Rightarrow> False))"
    using ok by (auto simp: ahead_def sequencer_ok_def marks_ok_def split: option.splits)
  define q where "q = canonical_block_divergence lib (b_chain_id e) (b_block_height e)
    (bt_keys (b_source_block_hashes e)) (c_source_id cand) (b_canonical_block_hash e) (b_canonical_block_hash (c_block cand))"
  have "compare_and_merge lib e cand = Inl (Divergence q)" using h by (simp add: compare_and_merge_def q_def)
  then have "(r, t) = (Inr [Quarantine q], s\<lparr>red_incident_id := Some (q_incident_id q), quarantines := quarantines s @ [q]\<rparr>)"
    using assms(3) h new c
    by (simp add: observe_def observe_committed_def decide_merge_def latch_divergence_def)
  then show "\<exists>q. r = Inr [Quarantine q] \<and> red_incident_id t = Some (q_incident_id q)
      \<and> q_reason q = ConflictingCanonicalBlock (b_canonical_block_hash e) (b_canonical_block_hash (c_block cand))"
    by (auto simp: q_def canonical_block_divergence_def Let_def split: prod.splits)
qed

theorem sequencer_divergence_latches_witness:
  "\<exists>lib c ds s cand r t q. sequencer_run lib c ds s \<and> observe lib cand s = (r, t)
     \<and> r = Inr [Quarantine q] \<and> red_incident_id t = Some (q_incident_id q)"
proof -
  define b where "b = sample_block 6\<lparr>b_block_time := 1\<rparr>"
  define lib where "lib = sample_events\<lparr>derive_key := (\<lambda>_ m. m)\<rparr>"
  define blk where "blk = (\<lambda>time. sample_block 6\<lparr>b_block_time := time,
    b_canonical_block_hash := compute_block_hash lib ''c'' 6 time []\<rparr>)"
  have ok: "block_ok lib (blk time)" for time by (simp add: blk_def block_ok_def sample_block_def events_ok_def)
  have cand: "block_candidate_new ''s'' sample_admission (blk time) =
      Inr (sample_candidate 6\<lparr>c_block := blk time\<rparr>)" for time
    by (simp add: block_candidate_new_def sample_candidate_def sample_block_def sample_admission_def
        validate_confirmation_def blk_def)
  have start: "sequencer_run lib sample_config [] (sequencer_new sample_config)"
    by (rule sequencer_run.start [where chain = "''c''" and first = 5 and max_pending = 2 and retained_blocks = 2])
       (simp add: sequencer_config_new_def sample_config_def)
  obtain r s where s: "observe lib (sample_candidate 6\<lparr>c_block := blk 0\<rparr>) (sequencer_new sample_config) = (r, s)"
    by (metis surj_pair)
  then have p: "pending s = [(6, blk 0)]" "red_incident_id s = None"
    by (auto simp: observe_def observe_committed_def sample_candidate_def sample_admission_def sample_block_def
        blk_def sequencer_new_def sample_config_def watermark_new_def next_committed_height_def
        drain_contiguous.simps drain_step_def refresh_gap_def Let_def)
  note run = sequencer_run.step [OF start cand ok s]
  let ?c = "sample_candidate 6\<lparr>c_block := blk 1\<rparr>"
  obtain r2 t where t: "observe lib ?c s = (r2, t)" by (metis surj_pair)
  have "be_i64 0 \<noteq> be_i64 1" using be_i64_inject [of 0 1] by auto
  then have "b_canonical_block_hash (blk 0) \<noteq> b_canonical_block_hash (blk 1)"
    by (simp add: blk_def compute_block_hash_def lib_def block_material_def)
  moreover have "bt_get (<) 6 (pending s) = Some (blk 0)" by (simp add: p)
  ultimately obtain q where "r2 = Inr [Quarantine q]" "red_incident_id t = Some (q_incident_id q)"
    using sequencer_divergence_latches [OF run _ t] p(2) ok
    by (auto simp: sample_candidate_def sample_admission_def blk_def sample_block_def sample_config_def)
  then show ?thesis using run t by blast
qed

lemma drain_committed_pending:
  assumes "pending_ok lib s" and "marks_ok lib s" and "drain_contiguous s = (map Commit bs, t)" and "b \<in> set bs"
  shows "bt_get (<) (b_block_height b) (pending s) = Some b \<and> ahead s (b_block_height b)"
  using assms
proof (induction s arbitrary: bs t rule: drain_contiguous.induct)
  case (1 s)
  then obtain d u where st: "drain_step s = Some (d, u)"
    by (cases "drain_step s") (auto simp: drain_contiguous.simps [of s])
  then obtain bs' where bs: "bs = d # bs'" and rec: "drain_contiguous u = (map Commit bs', t)"
    using "1.prems"(3) by (auto simp: drain_contiguous.simps [of s] split: prod.splits)
  note ok = drain_step_ok [OF "1.prems"(1,2) st]
  have sorted: "bt_sorted (<) (pending s)" using "1.prems"(1) by (simp add: pending_ok_def stored_ok_def)
  have u: "pending u = bt_remove (<) (b_block_height d) (pending s)"
    and d: "bt_get (<) (b_block_height d) (pending s) = Some d"
    using st ok(4) by (auto simp: drain_step_def split: option.splits)
  show ?case
  proof (cases "b = d")
    case True
    then show ?thesis using d ok(4) by (auto simp: ahead_next)
  next
    case False
    then have ih: "bt_get (<) (b_block_height b) (pending u) = Some b \<and> ahead u (b_block_height b)"
      using "1.IH" [OF st refl ok(1,2) rec] "1.prems"(4) bs by simp
    then have k: "b_block_height d < b_block_height b" using ok(5) by (simp add: ahead_def)
    then show ?thesis using ih lin.bt_get_remove [OF sorted] ok(4) by (auto simp: u ahead_next split: if_splits)
  qed
qed

lemma blocks_from_above:
  assumes "blocks_from n (b # bs)" and "x \<in> set bs"
  shows "n < unat (b_block_height x)"
proof -
  have "blocks_from (Suc n) bs" using assms(1) by (simp only: blocks_from_Cons)
  then have "map (\<lambda>b. unat (b_block_height b)) bs = [Suc n ..< Suc n + length bs]"
    by (simp only: blocks_from_def)
  then have "unat (b_block_height x) \<in> {Suc n ..< Suc n + length bs}"
    using assms(2) by (metis (no_types, lifting) image_eqI set_map set_upt)
  then show ?thesis by simp
qed

text \<open>
  C34. Draining terminates with exactly the contiguous run. On every well-formed state the
  drain loop ends, each round takes one block out of the pending map (the number of rounds
  is the number of commits), the committed blocks are pending blocks with consecutive
  heights from the next one to commit, the blocks above the new watermark stay as they
  were, and the next height is not pending when the loop stops.
\<close>

theorem drain_takes_contiguous_run:
  assumes "pending_ok lib s" and "marks_ok lib s" and "next_committed_height s = Some n"
  shows "\<exists>bs t. drain_contiguous s = (map Commit bs, t)
    \<and> length (pending s) = length (pending t) + length bs
    \<and> map (\<lambda>b. unat (b_block_height b)) bs = [unat n ..< unat n + length bs]
    \<and> (\<forall>b \<in> set bs. bt_get (<) (b_block_height b) (pending s) = Some b)
    \<and> (\<forall>k. ahead t k \<longrightarrow> bt_get (<) k (pending t) = bt_get (<) k (pending s))
    \<and> (\<forall>m. next_committed_height t = Some m \<longrightarrow> bt_get (<) m (pending t) = None)"
proof -
  obtain ds t where dr: "drain_contiguous s = (ds, t)" by force
  obtain bs where bs: "ds = map Commit bs" "drained t"
      "\<forall>n. next_committed_height s = Some n \<longrightarrow> blocks_from (unat n) bs"
      "length (pending s) = length (pending t) + length bs"
    using drain_ok [OF assms(1,2) dr] by blast
  have "bt_get (<) (b_block_height b) (pending s) = Some b" if "b \<in> set bs" for b
    using drain_committed_pending [OF assms(1,2) dr [unfolded bs(1)] that] by simp
  then show ?thesis using bs dr drain_pending [OF assms(1,2) dr] assms(3)
    by (intro exI [of _ bs] exI [of _ t]) (auto simp: drained_iff blocks_from_def)
qed

definition sample_queue :: canonical_sequencer where
  "sample_queue = (sequencer_new sample_config)
     \<lparr>pending := [(5, sample_block 5), (6, sample_block 6), (8, sample_block 8)]\<rparr>"

theorem drain_takes_contiguous_run_witness:
  "\<exists>bs t. drain_contiguous sample_queue = (map Commit bs, t) \<and> 3 = length (pending t) + length bs"
proof -
  have "pending_ok sample_events sample_queue" "marks_ok sample_events sample_queue"
    "next_committed_height sample_queue = Some 5"
    using sample_block_ok
    by (auto simp: sample_queue_def sequencer_new_def sample_config_def pending_ok_def stored_ok_def
        sample_block_def ahead_def watermark_new_def marks_ok_def mark_ok_def next_committed_height_def
        bt_sorted_def)
  from drain_takes_contiguous_run [OF this]
  have "\<exists>bs t. drain_contiguous sample_queue = (map Commit bs, t)
    \<and> length (pending sample_queue) = length (pending t) + length bs" by blast
  then show ?thesis by (simp add: sample_queue_def eval_nat_numeral)
qed

text \<open>
  C14. Progress: in every reachable state without an incident, a valid committed candidate
  for the next height is never refused, not even when the pending map is full. It is
  committed at once, followed by the pending blocks of the consecutive heights above it,
  and afterwards the next height to commit is not pending.
\<close>

theorem sequencer_progress:
  assumes run: "sequencer_run lib c ds s" and "red_incident_id s = None"
    and cand: "block_ok lib (c_block cand)" "b_chain_id (c_block cand) = sc_chain_id c"
      "publication_lane (c_admission cand) = CommittedCandidate"
    and height: "next_committed_height s = Some (b_block_height (c_block cand))"
  shows "\<exists>bs decisions t. observe lib cand s = (Inr decisions, t)
    \<and> committed_blocks decisions = c_block cand # bs
    \<and> (\<forall>b \<in> set bs. bt_get (<) (b_block_height b) (pending s) = Some b)
    \<and> (\<forall>m. next_committed_height t = Some m \<longrightarrow> bt_get (<) m (pending t) = None \<and> bt_get (<) m (pending s) = None)"
proof -
  have ok: "sequencer_ok lib s" and c: "config s = c"
    using run_ok [OF run] by (simp_all add: commit_history_def)
  let ?b = "c_block cand"
  let ?h = "b_block_height ?b"
  let ?s = "s\<lparr>pending := bt_insert (<) ?h ?b (pending s)\<rparr>"
  have sorted: "bt_sorted (<) (pending s)" using ok by (simp add: sequencer_ok_def pending_ok_def stored_ok_def)
  have fresh: "bt_get (<) ?h (pending s) = None" using ok height by (simp add: sequencer_ok_def drained_iff)
  have h: "ahead s ?h" using height by (simp add: ahead_next)
  then have new: "\<not> (?h < first_height (config s) \<or> (case current (committed_mark s) of Some w \<Rightarrow> ?h \<le> w | None \<Rightarrow> False))"
    using ok by (auto simp: ahead_def sequencer_ok_def marks_ok_def split: option.splits)
  note ins = pending_insert_ok [OF ok h fresh cand(1) cand(2) [folded c]]
  note p = ins(1,2)
  note cong = ins(3,4)
  obtain u d where dr: "drain_contiguous ?s = (d, u)" by force
  obtain cs where cs: "d = map Commit cs" "drained u"
      "\<forall>n. next_committed_height ?s = Some n \<longrightarrow> blocks_from (unat n) cs" using drain_ok [OF p dr] by blast
  obtain bs where bs: "cs = ?b # bs"
    using dr cs(1) sorted height
    by (auto simp: drain_contiguous.simps [of ?s] drain_step_def cong split: prod.splits)
  obtain gs t where rf: "refresh_gap lib u = (gs, t)" by force
  note t = refresh_gap_eq [OF rf]
  have obs: "observe lib cand s = (Inr (d @ gs), t)"
    using assms(2) cand c new fresh height dr rf cs(1) bs
    by (simp add: observe_def observe_committed_def Let_def)
  have "blocks_from (unat ?h) cs" using cs(3) height cong(1) by simp
  then have dist: "b_block_height b \<noteq> ?h" if "b \<in> set bs" for b
    using blocks_from_above [of "unat ?h" ?b bs b] that bs by auto
  have "bt_get (<) (b_block_height b) (pending s) = Some b" if "b \<in> set bs" for b
    using drain_committed_pending [OF p dr [unfolded cs(1)], of b] that bs dist lin.bt_get_insert [OF sorted]
    by (auto split: if_splits)
  moreover have "bt_get (<) m (pending t) = None \<and> bt_get (<) m (pending s) = None" if "next_committed_height t = Some m" for m
  proof -
    have m: "next_committed_height u = Some m" using that t(1) next_cong [of t u] by simp
    then have "bt_get (<) m (pending u) = None" using cs(2) by (simp add: drained_iff)
    moreover have "bt_get (<) m (pending u) = bt_get (<) m (pending ?s)" "ahead ?s m"
      using drain_pending [OF p dr, of m] m by (simp_all add: ahead_next)
    ultimately show ?thesis using t(1) lin.bt_get_insert [OF sorted, of m ?h] by (auto split: if_splits)
  qed
  moreover have "committed_blocks (d @ gs) = ?b # bs" using cs(1) bs t(2) by (simp add: committed_blocks_append)
  ultimately show ?thesis using obs by blast
qed

theorem sequencer_progress_witness:
  "\<exists>bs decisions t. observe sample_events (sample_candidate 5) sample_waiting = (Inr decisions, t)
     \<and> committed_blocks decisions = sample_block 5 # bs"
  using sequencer_progress [OF sample_waiting_run, of "sample_candidate 5"] sample_block_ok
  by (auto simp: sample_waiting_eq next_committed_height_def sample_config_def sample_candidate_def
      sample_block_def sample_admission_def)

text \<open>
  Merging evidence never changes what a block says. When the evidence of a second
  source for the same block is merged, the result is a valid block with the same chain,
  height, time, class and canonical hash whose events differ from the stored ones in their
  evidence only; otherwise the merge fails with a divergence or an invalid evidence error,
  so the error branch for an invalid merged block is never taken.
\<close>

theorem merge_preserves_block:
  assumes "block_ok lib existing"
  shows "case compare_and_merge lib existing cand of
      Inr m \<Rightarrow> block_ok lib m \<and> b_canonical_block_hash m = b_canonical_block_hash existing
        \<and> b_canonical_block_hash (c_block cand) = b_canonical_block_hash existing
        \<and> m = existing\<lparr>b_events := b_events m, b_source_block_hashes := b_source_block_hashes m\<rparr>
        \<and> list_all2 (\<lambda>e e'. e' = e\<lparr>e_source_evidence := e_source_evidence e'\<rparr>) (b_events existing) (b_events m)
        \<and> b_source_block_hashes m = bt_extend (<) (b_source_block_hashes (c_block cand)) (b_source_block_hashes existing)
    | Inl (Divergence q) \<Rightarrow> True
    | Inl (InvalidEvidence i e) \<Rightarrow> True
    | Inl (InvalidBlock e) \<Rightarrow> False"
  using compare_and_merge_cases [OF assms refl, of cand]
  by (auto simp: same_but_evidence_def [abs_def])

theorem merge_preserves_block_witness:
  "\<exists>m. compare_and_merge sample_events (sample_block 5) (sample_candidate 5) = Inr m \<and> block_ok sample_events m"
proof -
  have m: "compare_and_merge sample_events (sample_block 5) (sample_candidate 5) = Inr (sample_block 5)"
    by (simp add: compare_and_merge_def sample_block_def sample_candidate_def source_hash_conflict_def
        block_envelope_new_def validate_events_def compute_block_hash_def sample_events_def bt_extend_def)
  from merge_preserves_block [OF sample_block_ok [of 5], of "sample_candidate 5"] show ?thesis
    unfolding m by simp
qed

text \<open>
  Provisional candidates cannot touch the committed lane: observing one leaves the
  configuration, the committed watermark, the pending blocks, the gap, the next height and
  the committed history as they are, and produces no commit decision.
\<close>

theorem provisional_isolated:
  assumes "publication_lane (c_admission cand) = Provisional" and "observe lib cand s = (r, t)"
  shows "config t = config s \<and> committed_mark t = committed_mark s \<and> pending t = pending s
    \<and> outstanding_gap t = outstanding_gap s \<and> next_committed_height t = next_committed_height s
    \<and> committed_blocks (decisions_of r) = []"
proof -
  have "config t = config s \<and> committed_mark t = committed_mark s \<and> pending t = pending s
    \<and> outstanding_gap t = outstanding_gap s \<and> committed_blocks (decisions_of r) = []"
    using assms
    by (auto simp: observe_def sequencer_observe_provisional_def observe_retained_def decide_merge_def
        latch_divergence_def Let_def
        split: if_splits option.splits sum.splits merge_error.splits)
  then show ?thesis using next_cong [of t s] by simp
qed

theorem provisional_isolated_witness:
  "\<exists>r t. observe sample_events ((sample_candidate 5)\<lparr>c_admission := sample_admission\<lparr>publication_lane := Provisional\<rparr>\<rparr>)
       sample_waiting = (r, t) \<and> pending t = [(6, sample_block 6)]"
proof -
  let ?c = "(sample_candidate 5)\<lparr>c_admission := sample_admission\<lparr>publication_lane := Provisional\<rparr>\<rparr>"
  obtain r t where t: "observe sample_events ?c sample_waiting = (r, t)" by force
  from provisional_isolated [OF _ t] t show ?thesis by (auto simp: sample_waiting_eq)
qed

section \<open>Confirmation of committed blocks\<close>

definition committed_class :: "block_envelope \<Rightarrow> bool" where
  "committed_class b \<longleftrightarrow> b_confirmation_class b \<in> {CommittedPrimary, CommittedIndependent}"

lemma bt_get_value: "bt_get lt k m = Some v \<Longrightarrow> v \<in> snd ` set m"
  by (induction m) (force split: if_splits)+

lemma set_bt_remove_subset: "set (bt_remove lt k m) \<subseteq> set m"
  by (induction m) (auto split: if_splits)

lemma snd_bt_insert: "snd ` set (bt_insert lt k v m) \<subseteq> insert v (snd ` set m)"
proof (induction m)
  case (Cons p m)
  then show ?case by (cases p) auto
qed simp

lemma ball_subset_insert: "A \<subseteq> insert x B \<Longrightarrow> P x \<Longrightarrow> \<forall>b \<in> B. P b \<Longrightarrow> \<forall>a \<in> A. P a"
  by blast

lemma drain_values:
  "drain_contiguous s = (ds, t) \<Longrightarrow>
   set (committed_blocks ds) \<subseteq> snd ` set (pending s) \<and> snd ` set (pending t) \<subseteq> snd ` set (pending s)"
proof (induction s arbitrary: ds t rule: drain_contiguous.induct)
  case (1 s)
  show ?case
  proof (cases "drain_step s")
    case None
    then show ?thesis using "1.prems" by (simp add: drain_contiguous.simps [of s])
  next
    case (Some bu)
    obtain b u where bu: "bu = (b, u)" by force
    obtain ds' where rec: "drain_contiguous u = (ds', t)" "ds = Commit b # ds'"
      using "1.prems" Some bu by (auto simp: drain_contiguous.simps [of s] split: prod.splits)
    have "b \<in> snd ` set (pending s)" "set (pending u) \<subseteq> set (pending s)"
      using Some bu set_bt_remove_subset
      by (fastforce simp: drain_step_def dest: bt_get_value split: option.splits)+
    moreover have "set (committed_blocks ds') \<subseteq> snd ` set (pending u)" "snd ` set (pending t) \<subseteq> snd ` set (pending u)"
      using "1.IH" [OF Some bu [symmetric] rec(1)] by simp_all
    moreover have "snd ` set (pending u) \<subseteq> snd ` set (pending s)" using \<open>set (pending u) \<subseteq> _\<close> by (rule image_mono)
    ultimately show ?thesis unfolding rec(2) by (simp, blast)
  qed
qed

lemma merge_keeps_class: "compare_and_merge lib e cand = Inr m \<Longrightarrow> b_confirmation_class m = b_confirmation_class e"
  by (auto simp: compare_and_merge_def block_envelope_new_def Let_def rbind_Inr_iff map_err_Inr_iff
      split: option.splits if_splits)

lemma decide_merge_pending:
  assumes "decide_merge (compare_and_merge lib e cand) cand store s = (r, t)"
  shows "committed_blocks (decisions_of r) = []"
    and "pending t = pending s \<or> (\<exists>m. t = store m \<and> b_confirmation_class m = b_confirmation_class e)"
  using assms merge_keeps_class [of lib e cand]
  by (auto simp: decide_merge_def latch_divergence_def split: sum.splits merge_error.splits if_splits)

lemma merge_pending_class:
  assumes d: "decide_merge (compare_and_merge lib e cand) cand (\<lambda>m. s\<lparr>pending := bt_insert (<) h m (pending s)\<rparr>) s = (r, t)"
    and e: "committed_class e" and all: "\<forall>b \<in> snd ` set (pending s). committed_class b"
  shows "committed_blocks (decisions_of r) = [] \<and> (\<forall>b \<in> snd ` set (pending t). committed_class b)"
proof -
  have ins: "\<forall>b \<in> snd ` set (bt_insert (<) h m (pending s)). committed_class b"
    if "b_confirmation_class m = b_confirmation_class e" for m
  proof -
    have "committed_class m" using that e by (simp add: committed_class_def)
    then show ?thesis using all by (rule ball_subset_insert [OF snd_bt_insert])
  qed
  from decide_merge_pending(2) [OF d] have "\<forall>b \<in> snd ` set (pending t). committed_class b"
  proof
    assume "pending t = pending s"
    then show ?thesis using all by simp
  next
    assume "\<exists>m. t = s\<lparr>pending := bt_insert (<) h m (pending s)\<rparr> \<and> b_confirmation_class m = b_confirmation_class e"
    then show ?thesis using ins by force
  qed
  then show ?thesis using decide_merge_pending(1) [OF d] by simp
qed

lemma observe_committed_class:
  assumes "observe_committed lib cand s = (r, t)" and "committed_class (c_block cand)"
    and "\<forall>b \<in> snd ` set (pending s). committed_class b"
  shows "(\<forall>b \<in> set (committed_blocks (decisions_of r)). committed_class b)
    \<and> (\<forall>b \<in> snd ` set (pending t). committed_class b)"
proof -
  let ?h = "b_block_height (c_block cand)"
  consider i where "red_incident_id s = Some i"
    | "red_incident_id s = None" "?h < first_height (config s)
         \<or> (case current (committed_mark s) of Some w \<Rightarrow> ?h \<le> w | None \<Rightarrow> False)"
    | e where "red_incident_id s = None" "\<not> (?h < first_height (config s)
         \<or> (case current (committed_mark s) of Some w \<Rightarrow> ?h \<le> w | None \<Rightarrow> False))" "bt_get (<) ?h (pending s) = Some e"
    | "red_incident_id s = None" "\<not> (?h < first_height (config s)
         \<or> (case current (committed_mark s) of Some w \<Rightarrow> ?h \<le> w | None \<Rightarrow> False))" "bt_get (<) ?h (pending s) = None"
    by (metis option.exhaust)
  then show ?thesis
  proof cases
    case 1
    then show ?thesis using assms by (auto simp: observe_committed_def)
  next
    case 2
    then have "observe_retained lib cand True s = (r, t)" using assms(1) by (simp add: observe_committed_def Let_def)
    then have "committed_blocks (decisions_of r) = [] \<and> pending t = pending s"
      by (auto simp: observe_retained_def Let_def split: option.splits dest: decide_merge_pending)
    then show ?thesis using assms(3) by simp
  next
    case 3
    then have d: "decide_merge (compare_and_merge lib e cand) cand (\<lambda>m. s\<lparr>pending := bt_insert (<) ?h m (pending s)\<rparr>) s = (r, t)"
      using assms(1) by (simp add: observe_committed_def Let_def)
    have "committed_class e" using bt_get_value [OF 3(3)] assms(3) by blast
    then show ?thesis using merge_pending_class [OF d] assms(3) by simp
  next
    case 4
    then show ?thesis
    proof (cases "length (pending s) \<ge> max_pending_blocks (config s) \<and> Some ?h \<noteq> next_committed_height s")
      case True
      then show ?thesis using assms 4 by (auto simp: observe_committed_def)
    next
      case False
      let ?s = "s\<lparr>pending := bt_insert (<) ?h (c_block cand) (pending s)\<rparr>"
      obtain ds u where dr: "drain_contiguous ?s = (ds, u)" by force
      obtain gs v where rf: "refresh_gap lib u = (gs, v)" by force
      have rt: "decisions_of r = (if ds @ gs = [] then [AwaitMoreEvidence] else ds @ gs)" "t = v"
        using assms(1) 4 False dr rf by (auto simp: observe_committed_def Let_def)
      have all: "\<forall>b \<in> snd ` set (pending ?s). committed_class b"
        using ball_subset_insert [OF snd_bt_insert assms(2,3), of "(<)" ?h] by simp
      have "committed_blocks (decisions_of r) = committed_blocks ds" "pending t = pending u"
        using rt refresh_gap_eq [OF rf] by (auto simp: committed_blocks_append)
      then show ?thesis using drain_values [OF dr] all by (metis (no_types, lifting) subsetD)
    qed
  qed
qed

lemma candidate_class:
  "block_candidate_new source admission block = Inr cand \<Longrightarrow> publication_lane (c_admission cand) = CommittedCandidate
   \<Longrightarrow> committed_class (c_block cand)"
  by (auto simp: block_candidate_new_def validate_confirmation_def rbind_Inr_iff committed_class_def
      split: if_splits source_trust.splits)

lemma run_committed_class:
  "sequencer_run lib c ds s \<Longrightarrow>
   (\<forall>b \<in> set (committed_blocks ds). committed_class b) \<and> (\<forall>b \<in> snd ` set (pending s). committed_class b)"
proof (induction rule: sequencer_run.induct)
  case (start chain first max_pending retained_blocks)
  then show ?case by (simp add: sequencer_new_def)
next
  case (step ds s source admission block cand r t)
  have "(\<forall>b \<in> set (committed_blocks (decisions_of r)). committed_class b) \<and> (\<forall>b \<in> snd ` set (pending t). committed_class b)"
  proof (cases "b_chain_id (c_block cand) = sc_chain_id (config s) \<and> publication_lane (c_admission cand) = CommittedCandidate")
    case True
    then have "observe_committed lib cand s = (r, t)" using step.hyps(4) by (simp add: observe_def)
    then show ?thesis
      using conjunct2 [OF True] candidate_class [OF step.hyps(2)] conjunct2 [OF step.IH] by (metis observe_committed_class)
  next
    case False
    have "committed_blocks (decisions_of r) = [] \<and> pending t = pending s"
      using step.hyps(4) False
      by (auto simp: observe_def sequencer_observe_provisional_def observe_retained_def Let_def
          split: if_splits option.splits publication_lane.splits dest: decide_merge_pending)
    then show ?thesis using step.IH by simp
  qed
  then show ?case using step.IH unfolding committed_blocks_append set_append by blast
qed

end
