(* ===== verification/State_Image.thy ===== *)
theory State_Image
  imports Domain_Ids Byte_Frames BTree_Map "HOL-Library.Product_Lexorder"
begin

text \<open>
  The state image of the canonical ledger, \<^verbatim>\<open>crates/canonical-ledger/src/state.rs\<close>: the
  ordered map from state keys to values with the watermark of the last applied block, its
  canonical byte encoding, and the decoder that reads the bytes back through a bounded
  cursor. The checks of names in \<^verbatim>\<open>error.rs\<close> that the image needs are here as well.
\<close>

section \<open>Limits and keys\<close>

definition STATE_IMAGE_SCHEMA :: bytes where
  "STATE_IMAGE_SCHEMA = str_bytes ''hyperliquid-alpha-desk/state-image/v1''"

definition STATE_HASH_CONTEXT :: string where
  "STATE_HASH_CONTEXT = ''hyperliquid-alpha-desk/state-hash/v1''"

definition MAX_ABSOLUTE_KEY_BYTES :: nat where
  "MAX_ABSOLUTE_KEY_BYTES = 64 * 1024"

definition MAX_NAMESPACE_BYTES :: nat where
  "MAX_NAMESPACE_BYTES = 96"

definition usize_max :: nat where
  "usize_max = 2 ^ 64 - 1"

datatype state_key_error = InvalidNamespace | InvalidKey

datatype state_image_error =
    InvalidLimits
  | LimitExceeded
  | Truncated
  | InvalidSchema
  | InvalidField string
  | NonCanonicalOrder
  | TrailingBytes

record state_image_limits =
  max_state_bytes :: nat
  max_entries :: nat
  max_key_bytes :: nat
  max_value_bytes :: nat

definition state_image_limits_new ::
  "nat \<Rightarrow> nat \<Rightarrow> nat \<Rightarrow> nat \<Rightarrow> state_image_error + state_image_limits" where
  "state_image_limits_new state_bytes entries key_bytes value_bytes =
     (if state_bytes = 0 \<or> entries = 0 \<or> key_bytes = 0 \<or> value_bytes = 0
         \<or> key_bytes > MAX_ABSOLUTE_KEY_BYTES
      then Inl InvalidLimits
      else Inr \<lparr>max_state_bytes = state_bytes, max_entries = entries, max_key_bytes = key_bytes,
                max_value_bytes = value_bytes\<rparr>)"

definition state_image_limits_production :: state_image_limits where
  "state_image_limits_production =
     \<lparr>max_state_bytes = 4 * 1024 * 1024 * 1024, max_entries = 50000000, max_key_bytes = 4 * 1024,
      max_value_bytes = 16 * 1024 * 1024\<rparr>"

definition is_ascii_lowercase :: "char \<Rightarrow> bool" where
  "is_ascii_lowercase c \<longleftrightarrow> 97 \<le> code c \<and> code c \<le> 122"

definition is_ascii_alphanumeric :: "char \<Rightarrow> bool" where
  "is_ascii_alphanumeric c \<longleftrightarrow> is_ascii_lowercase c \<or> is_ascii_uppercase c \<or> is_digit c"

definition valid_namespace :: "string \<Rightarrow> bool" where
  "valid_namespace value \<longleftrightarrow>
     value \<noteq> [] \<and> length value \<le> MAX_NAMESPACE_BYTES
     \<and> is_ascii_lowercase (hd value) \<and> is_ascii_alphanumeric (last value)
     \<and> list_all (\<lambda>c. is_ascii_lowercase c \<or> is_digit c \<or> c \<in> {CHR ''.'', CHR ''-'', CHR ''_''}) value"

definition valid_reducer_version :: "string \<Rightarrow> bool" where
  "valid_reducer_version value \<longleftrightarrow>
     value \<noteq> [] \<and> length value \<le> 128
     \<and> is_ascii_alphanumeric (hd value) \<and> is_ascii_alphanumeric (last value)
     \<and> list_all (\<lambda>c. is_ascii_alphanumeric c
          \<or> c \<in> {CHR ''.'', CHR ''-'', CHR ''_'', CHR ''+'', CHR ''@''}) value"

text \<open>The derived order of keys: the namespace first, then the bytes of the key.\<close>

datatype state_key = StateKey (sk_namespace: string) (sk_key: bytes)

instantiation state_key :: linorder
begin

definition less_eq_state_key :: "state_key \<Rightarrow> state_key \<Rightarrow> bool" where
  "less_eq_state_key a b \<longleftrightarrow> (sk_namespace a, sk_key a) \<le> (sk_namespace b, sk_key b)"

definition less_state_key :: "state_key \<Rightarrow> state_key \<Rightarrow> bool" where
  "less_state_key a b \<longleftrightarrow> (sk_namespace a, sk_key a) < (sk_namespace b, sk_key b)"

instance
  by standard (auto simp: less_eq_state_key_def less_state_key_def state_key.expand)

end

definition state_key_new :: "string \<Rightarrow> bytes \<Rightarrow> state_key_error + state_key" where
  "state_key_new ns key =
     (if \<not> valid_namespace ns then Inl InvalidNamespace
      else if key = [] \<or> length key > MAX_ABSOLUTE_KEY_BYTES then Inl InvalidKey
      else Inr (StateKey ns key))"

datatype state_mutation = Put state_key bytes | Delete state_key

fun mutation_key :: "state_mutation \<Rightarrow> state_key" where
  "mutation_key (Put key value) = key"
| "mutation_key (Delete key) = key"

fun mutation_value :: "state_mutation \<Rightarrow> bytes option" where
  "mutation_value (Put key value) = Some value"
| "mutation_value (Delete key) = None"

record applied_mutation =
  am_key :: state_key
  am_previous :: "bytes option"
  am_current :: "bytes option"

section \<open>The image and its encoding\<close>

type_synonym state_entries = "(state_key, bytes) btree"

record state_watermark =
  wm_block_height :: block_height
  wm_block_hash :: hash

record state_image =
  si_chain_id :: chain_id
  si_first_height :: block_height
  si_version :: string
  si_watermark :: "state_watermark option"
  si_entries :: state_entries

definition empty_image :: "chain_id \<Rightarrow> block_height \<Rightarrow> string \<Rightarrow> state_image" where
  "empty_image chain first version =
     \<lparr>si_chain_id = chain, si_first_height = first, si_version = version, si_watermark = None,
      si_entries = []\<rparr>"

definition image_block_height :: "state_image \<Rightarrow> block_height option" where
  "image_block_height s = map_option wm_block_height (si_watermark s)"

definition watermark_bytes :: "state_watermark option \<Rightarrow> bytes" where
  "watermark_bytes w =
     (case w of
        Some m \<Rightarrow> [1] @ be64 (wm_block_height m) @ wm_block_hash m
      | None \<Rightarrow> [0])"

definition entry_bytes :: "state_key \<times> bytes \<Rightarrow> bytes" where
  "entry_bytes = (\<lambda>(key, value). frame (str_bytes (sk_namespace key)) @ frame (sk_key key) @ frame value)"

definition canonical_bytes :: "state_image \<Rightarrow> bytes" where
  "canonical_bytes s =
     frame STATE_IMAGE_SCHEMA @ frame (str_bytes (si_chain_id s)) @ be64 (si_first_height s)
     @ frame (str_bytes (si_version s)) @ watermark_bytes (si_watermark s)
     @ count64 (length (si_entries s)) @ concat (map entry_bytes (si_entries s))"

text \<open>The keyed blake3 hash is a parameter.\<close>

definition state_hash :: "(string \<Rightarrow> bytes \<Rightarrow> hash) \<Rightarrow> state_image \<Rightarrow> hash" where
  "state_hash derive s = derive STATE_HASH_CONTEXT (canonical_bytes s)"

definition image_commit :: "state_watermark \<Rightarrow> state_entries \<Rightarrow> state_image \<Rightarrow> state_image" where
  "image_commit w entries s = s\<lparr>si_watermark := Some w, si_entries := entries\<rparr>"

section \<open>Reading an image\<close>

record state_cursor =
  cur_bytes :: bytes
  cur_offset :: nat

definition cursor_new :: "bytes \<Rightarrow> state_cursor" where
  "cursor_new bs = \<lparr>cur_bytes = bs, cur_offset = 0\<rparr>"

definition cur_take :: "nat \<Rightarrow> state_cursor \<Rightarrow> state_image_error + bytes \<times> state_cursor" where
  "cur_take n c =
     (let stop = cur_offset c + n in
      if stop > usize_max then Inl LimitExceeded
      else if stop > length (cur_bytes c) then Inl Truncated
      else Inr (take n (drop (cur_offset c) (cur_bytes c)), c\<lparr>cur_offset := stop\<rparr>))"

definition cur_byte :: "state_cursor \<Rightarrow> state_image_error + u8 \<times> state_cursor" where
  "cur_byte c = rmap (\<lambda>(bs, d). (bs ! 0, d)) (cur_take 1 c)"

definition cur_u64 :: "state_cursor \<Rightarrow> state_image_error + u64 \<times> state_cursor" where
  "cur_u64 c = rmap (\<lambda>(bs, d). (from_be64 bs, d)) (cur_take 8 c)"

definition cur_hash :: "state_cursor \<Rightarrow> state_image_error + hash \<times> state_cursor" where
  "cur_hash c = cur_take 32 c"

text \<open>A \<^verbatim>\<open>u64\<close> always fits \<^verbatim>\<open>usize\<close> on the 64-bit platforms the system runs on.\<close>

definition cur_frame :: "nat \<Rightarrow> state_cursor \<Rightarrow> state_image_error + bytes \<times> state_cursor" where
  "cur_frame max_bytes c =
     rbind (cur_u64 c) (\<lambda>(len, d).
     if unat len > max_bytes then Inl LimitExceeded else cur_take (unat len) d)"

definition cur_count :: "nat \<Rightarrow> state_cursor \<Rightarrow> state_image_error + nat \<times> state_cursor" where
  "cur_count max_count c =
     rbind (cur_u64 c) (\<lambda>(n, d).
     if unat n > max_count then Inl LimitExceeded else Inr (unat n, d))"

definition cur_finished :: "state_cursor \<Rightarrow> bool" where
  "cur_finished c \<longleftrightarrow> cur_offset c = length (cur_bytes c)"

definition decode_text :: "bytes \<Rightarrow> string \<Rightarrow> state_image_error + string" where
  "decode_text bs field = ok_or (InvalidField field) (from_utf8 bs)"

definition decode_watermark ::
  "block_height \<Rightarrow> state_cursor \<Rightarrow> state_image_error + state_watermark option \<times> state_cursor" where
  "decode_watermark first c =
     rbind (cur_byte c) (\<lambda>(tag, c).
     if tag = 0 then Inr (None, c)
     else if tag = 1 then
       rbind (cur_u64 c) (\<lambda>(height, c).
       if height < first then Inl (InvalidField ''block_height'')
       else rmap (\<lambda>(h, c). (Some \<lparr>wm_block_height = height, wm_block_hash = h\<rparr>, c)) (cur_hash c))
     else Inl (InvalidField ''watermark_present''))"

definition decode_entry ::
  "state_image_limits \<Rightarrow> state_key option \<Rightarrow> state_cursor
     \<Rightarrow> state_image_error + (state_key \<times> bytes) \<times> state_cursor" where
  "decode_entry limits previous c =
     rbind (cur_frame MAX_NAMESPACE_BYTES c) (\<lambda>(raw, c).
     rbind (decode_text raw ''state namespace'') (\<lambda>ns.
     rbind (cur_frame (max_key_bytes limits) c) (\<lambda>(raw_key, c).
     rbind (map_err (\<lambda>_. InvalidField ''state key'') (state_key_new ns raw_key)) (\<lambda>key.
     if (case previous of Some prior \<Rightarrow> prior \<ge> key | None \<Rightarrow> False) then Inl NonCanonicalOrder
     else rmap (\<lambda>(value, c). ((key, value), c)) (cur_frame (max_value_bytes limits) c)))))"

fun decode_entries ::
  "state_image_limits \<Rightarrow> nat \<Rightarrow> state_key option \<Rightarrow> state_entries \<Rightarrow> state_cursor
     \<Rightarrow> state_image_error + state_entries \<times> state_cursor" where
  "decode_entries limits 0 previous entries c = Inr (entries, c)"
| "decode_entries limits (Suc n) previous entries c =
     rbind (decode_entry limits previous c) (\<lambda>((key, value), d).
     decode_entries limits n (Some key) (bt_insert (<) key value entries) d)"

definition image_decode_canonical :: "bytes \<Rightarrow> state_image_limits \<Rightarrow> state_image_error + state_image" where
  "image_decode_canonical bs limits =
     (if length bs > max_state_bytes limits then Inl LimitExceeded
      else
        rbind (cur_frame 128 (cursor_new bs)) (\<lambda>(schema, c).
        if schema \<noteq> STATE_IMAGE_SCHEMA then Inl InvalidSchema
        else
          rbind (cur_frame 256 c) (\<lambda>(raw_chain, c).
          rbind (rbind (decode_text raw_chain ''chain_id'')
                   (\<lambda>v. map_err (\<lambda>_. InvalidField ''chain_id'') (string_id_new v))) (\<lambda>chain.
          rbind (cur_u64 c) (\<lambda>(first, c).
          rbind (cur_frame 128 c) (\<lambda>(raw_version, c).
          rbind (decode_text raw_version ''reducer_set_version'') (\<lambda>version.
          if \<not> valid_reducer_version version then Inl (InvalidField ''reducer_set_version'')
          else
            rbind (decode_watermark first c) (\<lambda>(w, c).
            rbind (cur_count (max_entries limits) c) (\<lambda>(entry_count, c).
            if w = None \<and> entry_count \<noteq> 0 then Inl (InvalidField ''uncheckpointed state entries'')
            else
              rbind (decode_entries limits entry_count None [] c) (\<lambda>(entries, c).
              if \<not> cur_finished c then Inl TrailingBytes
              else Inr \<lparr>si_chain_id = chain, si_first_height = first, si_version = version,
                        si_watermark = w, si_entries = entries\<rparr>))))))))))"

section \<open>The cursor\<close>

text \<open>A cursor that has read \<open>pre\<close> and still has \<open>rest\<close> before it.\<close>

definition cur :: "bytes \<Rightarrow> bytes \<Rightarrow> state_cursor" where
  "cur pre rest = \<lparr>cur_bytes = pre @ rest, cur_offset = length pre\<rparr>"

lemma cursor_new_cur: "cursor_new bs = cur [] bs"
  by (simp add: cursor_new_def cur_def)

lemma cur_finished_cur [simp]: "cur_finished (cur pre rest) \<longleftrightarrow> rest = []"
  by (simp add: cur_finished_def cur_def)

lemma cur_take_iff:
  assumes "short (pre @ xs)"
  shows "cur_take n (cur pre xs) = Inr (v, d) \<longleftrightarrow> (\<exists>rest. xs = v @ rest \<and> length v = n \<and> d = cur (pre @ v) rest)"
proof
  assume "cur_take n (cur pre xs) = Inr (v, d)"
  then have n: "n \<le> length xs" and v: "v = take n xs"
    and d: "d = \<lparr>cur_bytes = pre @ xs, cur_offset = length pre + n\<rparr>"
    by (auto simp: cur_take_def cur_def Let_def split: if_splits)
  then show "\<exists>rest. xs = v @ rest \<and> length v = n \<and> d = cur (pre @ v) rest"
    by (intro exI [of _ "drop n xs"]) (simp add: cur_def)
next
  assume "\<exists>rest. xs = v @ rest \<and> length v = n \<and> d = cur (pre @ v) rest"
  then show "cur_take n (cur pre xs) = Inr (v, d)"
    using assms by (auto simp: cur_take_def cur_def Let_def usize_max_def short_def)
qed

lemma cur_byte_iff:
  assumes "short (pre @ xs)"
  shows "cur_byte (cur pre xs) = Inr (b, d) \<longleftrightarrow> (\<exists>rest. xs = b # rest \<and> d = cur (pre @ [b]) rest)"
proof
  assume "cur_byte (cur pre xs) = Inr (b, d)"
  then show "\<exists>rest. xs = b # rest \<and> d = cur (pre @ [b]) rest"
    by (auto simp: cur_byte_def rmap_Inr_iff cur_take_iff [OF assms] length_Suc_conv)
next
  assume "\<exists>rest. xs = b # rest \<and> d = cur (pre @ [b]) rest"
  then have "cur_take 1 (cur pre xs) = Inr ([b], d)" unfolding cur_take_iff [OF assms] by auto
  then show "cur_byte (cur pre xs) = Inr (b, d)" by (simp add: cur_byte_def)
qed

lemma cur_u64_iff:
  assumes "short (pre @ xs)"
  shows "cur_u64 (cur pre xs) = Inr (w, d) \<longleftrightarrow> (\<exists>rest. xs = be64 w @ rest \<and> d = cur (pre @ be64 w) rest)"
proof
  assume "cur_u64 (cur pre xs) = Inr (w, d)"
  then obtain bs where "cur_take 8 (cur pre xs) = Inr (bs, d)" "w = from_be64 bs"
    by (auto simp: cur_u64_def rmap_Inr_iff)
  then show "\<exists>rest. xs = be64 w @ rest \<and> d = cur (pre @ be64 w) rest"
    by (auto simp: cur_take_iff [OF assms] be64_from_be64)
next
  assume "\<exists>rest. xs = be64 w @ rest \<and> d = cur (pre @ be64 w) rest"
  then have "cur_take 8 (cur pre xs) = Inr (be64 w, d)" by (auto simp: cur_take_iff [OF assms])
  then show "cur_u64 (cur pre xs) = Inr (w, d)" by (simp add: cur_u64_def)
qed

lemma cur_count_iff:
  assumes "short (pre @ xs)"
  shows "cur_count m (cur pre xs) = Inr (n, d) \<longleftrightarrow>
    (\<exists>rest. xs = count64 n @ rest \<and> d = cur (pre @ count64 n) rest \<and> n \<le> m \<and> n < 2 ^ 64)"
proof
  assume "cur_count m (cur pre xs) = Inr (n, d)"
  then obtain w where "cur_u64 (cur pre xs) = Inr (w, d)" "n = unat w" "n \<le> m"
    by (auto simp: cur_count_def rbind_Inr_iff split: if_splits)
  then show "\<exists>rest. xs = count64 n @ rest \<and> d = cur (pre @ count64 n) rest \<and> n \<le> m \<and> n < 2 ^ 64"
    using unsigned_less [of w] by (auto simp: cur_u64_iff [OF assms] count64_def)
next
  assume "\<exists>rest. xs = count64 n @ rest \<and> d = cur (pre @ count64 n) rest \<and> n \<le> m \<and> n < 2 ^ 64"
  then have "cur_u64 (cur pre xs) = Inr (of_nat n, d)" "n \<le> m" "unat (of_nat n :: u64) = n"
    by (auto simp: cur_u64_iff [OF assms] count64_def unat_of_nat)
  then show "cur_count m (cur pre xs) = Inr (n, d)" by (simp add: cur_count_def)
qed

lemma cur_frame_iff:
  assumes "short (pre @ xs)"
  shows "cur_frame m (cur pre xs) = Inr (v, d) \<longleftrightarrow>
    (\<exists>rest. xs = frame v @ rest \<and> d = cur (pre @ frame v) rest \<and> length v \<le> m)"
proof
  assume "cur_frame m (cur pre xs) = Inr (v, d)"
  then obtain w c where w: "cur_u64 (cur pre xs) = Inr (w, c)" "unat w \<le> m" "cur_take (unat w) c = Inr (v, d)"
    by (auto simp: cur_frame_def rbind_Inr_iff split: if_splits)
  then obtain r where r: "xs = be64 w @ r" "c = cur (pre @ be64 w) r" by (auto simp: cur_u64_iff [OF assms])
  then have "short ((pre @ be64 w) @ r)" using assms by simp
  then obtain rest where "r = v @ rest" "length v = unat w" "d = cur ((pre @ be64 w) @ v) rest"
    using w(3) r(2) by (auto simp: cur_take_iff)
  then show "\<exists>rest. xs = frame v @ rest \<and> d = cur (pre @ frame v) rest \<and> length v \<le> m"
    using r(1) w(2) by (auto simp: frame_def count64_def)
next
  assume "\<exists>rest. xs = frame v @ rest \<and> d = cur (pre @ frame v) rest \<and> length v \<le> m"
  then obtain rest where r: "xs = frame v @ rest" "d = cur (pre @ frame v) rest" "length v \<le> m" by blast
  have len: "unat (of_nat (length v) :: u64) = length v" using assms r(1) by (simp add: short_def unat_of_nat)
  let ?c = "cur (pre @ count64 (length v)) (v @ rest)"
  have u: "cur_u64 (cur pre xs) = Inr (of_nat (length v), ?c)"
    unfolding cur_u64_iff [OF assms] using r(1) by (simp add: frame_def count64_def)
  have "short ((pre @ count64 (length v)) @ v @ rest)" using assms r(1) by (simp add: frame_def)
  then have "cur_take (length v) ?c = Inr (v, d)" using r(2) by (auto simp: cur_take_iff frame_def)
  then show "cur_frame m (cur pre xs) = Inr (v, d)" using u len r(3) by (simp add: cur_frame_def)
qed

section \<open>Decoding and encoding are inverse\<close>

lemma utf8_ascii: "list_all (\<lambda>a. a \<le> 127) xs \<Longrightarrow> utf8_ok xs"
  by (induction xs) auto

lemma ascii_alphanumeric_code: "is_ascii_alphanumeric c \<Longrightarrow> code c \<le> 127"
  by (auto simp: is_ascii_alphanumeric_def is_ascii_lowercase_def is_ascii_uppercase_def is_digit_def code_def)

lemma valid_names_str:
  "valid_namespace s \<Longrightarrow> valid_str s" "valid_reducer_version s \<Longrightarrow> valid_str s"
proof -
  have "valid_str s" if "\<forall>c \<in> set s. is_ascii_alphanumeric c \<or> c \<in> {CHR ''.'', CHR ''-'', CHR ''_'', CHR ''+'', CHR ''@''}"
    using that ascii_alphanumeric_code
    by (fastforce simp: valid_str_def list_all_iff code_def intro!: utf8_ascii)
  then show "valid_namespace s \<Longrightarrow> valid_str s" "valid_reducer_version s \<Longrightarrow> valid_str s"
    by (auto simp: valid_namespace_def valid_reducer_version_def list_all_iff is_ascii_alphanumeric_def)
qed

lemma decode_text_iff: "decode_text bs field = Inr s \<longleftrightarrow> bs = str_bytes s \<and> valid_str s"
  by (auto simp: decode_text_def ok_or_Inr_iff dest: from_utf8_Some)

text \<open>What the decoder accepts.\<close>

definition entry_ok :: "state_image_limits \<Rightarrow> state_key \<times> bytes \<Rightarrow> bool" where
  "entry_ok limits = (\<lambda>(key, value). valid_namespace (sk_namespace key) \<and> sk_key key \<noteq> []
     \<and> length (sk_key key) \<le> MAX_ABSOLUTE_KEY_BYTES \<and> length (sk_key key) \<le> max_key_bytes limits
     \<and> length value \<le> max_value_bytes limits)"

definition watermark_ok :: "block_height \<Rightarrow> state_watermark option \<Rightarrow> bool" where
  "watermark_ok first w \<longleftrightarrow>
     (\<forall>m. w = Some m \<longrightarrow> first \<le> wm_block_height m \<and> length (wm_block_hash m) = 32)"

definition image_ok :: "state_image_limits \<Rightarrow> state_image \<Rightarrow> bool" where
  "image_ok limits s \<longleftrightarrow>
     length (canonical_bytes s) \<le> max_state_bytes limits
     \<and> si_chain_id s \<noteq> [] \<and> is_trimmed (si_chain_id s) \<and> valid_str (si_chain_id s)
     \<and> length (si_chain_id s) \<le> 256 \<and> valid_reducer_version (si_version s)
     \<and> watermark_ok (si_first_height s) (si_watermark s)
     \<and> (si_watermark s = None \<longrightarrow> si_entries s = [])
     \<and> length (si_entries s) \<le> max_entries limits \<and> bt_sorted (<) (si_entries s)
     \<and> list_all (entry_ok limits) (si_entries s)"

lemma watermark_bytes_Some:
  "watermark_bytes w @ rest = 1 # ys \<longleftrightarrow>
     (\<exists>m. w = Some m \<and> ys = be64 (wm_block_height m) @ wm_block_hash m @ rest)"
  by (cases w) (auto simp: watermark_bytes_def)

lemma watermark_bytes_other: "tag \<noteq> 0 \<Longrightarrow> tag \<noteq> 1 \<Longrightarrow> watermark_bytes w @ rest \<noteq> tag # ys"
  by (cases w) (auto simp: watermark_bytes_def)

lemma decode_watermark_tail:
  assumes "short (pre @ ys)"
  shows "(\<exists>c. cur_u64 (cur pre ys) = Inr (height, c) \<and> cur_hash c = Inr (h, d)) \<longleftrightarrow>
    (\<exists>rest. ys = be64 height @ h @ rest \<and> length h = 32 \<and> d = cur (pre @ be64 height @ h) rest)"
proof
  assume "\<exists>c. cur_u64 (cur pre ys) = Inr (height, c) \<and> cur_hash c = Inr (h, d)"
  then obtain r where r: "ys = be64 height @ r" "cur_hash (cur (pre @ be64 height) r) = Inr (h, d)"
    by (auto simp: cur_u64_iff [OF assms])
  moreover have "short ((pre @ be64 height) @ r)" using assms r(1) by simp
  ultimately show "\<exists>rest. ys = be64 height @ h @ rest \<and> length h = 32 \<and> d = cur (pre @ be64 height @ h) rest"
    by (auto simp: cur_hash_def cur_take_iff)
next
  assume "\<exists>rest. ys = be64 height @ h @ rest \<and> length h = 32 \<and> d = cur (pre @ be64 height @ h) rest"
  then obtain rest where r: "ys = be64 height @ h @ rest" "length h = 32" "d = cur (pre @ be64 height @ h) rest"
    by blast
  let ?c = "cur (pre @ be64 height) (h @ rest)"
  have "cur_u64 (cur pre ys) = Inr (height, ?c)" unfolding cur_u64_iff [OF assms] using r(1) by simp
  moreover have "short ((pre @ be64 height) @ h @ rest)" using assms r(1) by simp
  then have "cur_hash ?c = Inr (h, d)" unfolding cur_hash_def using r(2,3) by (simp add: cur_take_iff)
  ultimately show "\<exists>c. cur_u64 (cur pre ys) = Inr (height, c) \<and> cur_hash c = Inr (h, d)" by blast
qed

lemma decode_watermark_iff:
  assumes "short (pre @ xs)"
  shows "decode_watermark first (cur pre xs) = Inr (w, d) \<longleftrightarrow>
    (\<exists>rest. xs = watermark_bytes w @ rest \<and> d = cur (pre @ watermark_bytes w) rest \<and> watermark_ok first w)"
proof (cases xs)
  case Nil
  have "watermark_bytes w @ rest \<noteq> []" for rest by (cases w) (auto simp: watermark_bytes_def)
  then show ?thesis using Nil cur_byte_iff [OF assms]
    by (cases "cur_byte (cur pre xs)") (auto simp: decode_watermark_def)
next
  case (Cons tag ys)
  have b: "cur_byte (cur pre xs) = Inr (tag, cur (pre @ [tag]) ys)"
    unfolding cur_byte_iff [OF assms] using Cons by simp
  have s: "short ((pre @ [tag]) @ ys)" using assms Cons by simp
  consider "tag = 0" | "tag = 1" | "tag \<noteq> 0" "tag \<noteq> 1" by blast
  then show ?thesis
  proof cases
    case 1
    have "decode_watermark first (cur pre xs) = Inr (None, cur (pre @ [0]) ys)"
      using 1 b by (simp add: decode_watermark_def)
    then show ?thesis
    proof (cases w)
      case None
      then show ?thesis using \<open>decode_watermark _ _ = _\<close> Cons 1 by (auto simp: watermark_ok_def watermark_bytes_def)
    next
      case (Some m)
      then have "xs \<noteq> watermark_bytes w @ rest" for rest using Cons 1 by (simp add: watermark_bytes_def)
      then show ?thesis using \<open>decode_watermark _ _ = _\<close> Some by simp
    qed
  next
    case 2
    have "decode_watermark first (cur pre xs) = Inr (w, d) \<longleftrightarrow>
        (\<exists>height h. (\<exists>c. cur_u64 (cur (pre @ [tag]) ys) = Inr (height, c) \<and> cur_hash c = Inr (h, d))
          \<and> first \<le> height \<and> w = Some \<lparr>wm_block_height = height, wm_block_hash = h\<rparr>)"
    proof (cases "cur_u64 (cur (pre @ [tag]) ys)")
      case (Inr p)
      obtain height c where p: "p = (height, c)" by force
      show ?thesis using 2 b Inr p by (cases "cur_hash c") (auto simp: decode_watermark_def not_less)
    qed (use 2 b in \<open>simp add: decode_watermark_def\<close>)
    also have "\<dots> \<longleftrightarrow> (\<exists>m rest. w = Some m \<and> ys = be64 (wm_block_height m) @ wm_block_hash m @ rest
        \<and> d = cur (pre @ watermark_bytes w) rest \<and> watermark_ok first w)"
    proof (cases w)
      case (Some m)
      obtain height h where m: "m = \<lparr>wm_block_height = height, wm_block_hash = h\<rparr>" by (cases m)
      show ?thesis unfolding decode_watermark_tail [OF s] using 2 Some
        by (auto simp: m watermark_bytes_def watermark_ok_def)
    qed simp
    finally show ?thesis using watermark_bytes_Some [of w _ ys] Cons 2 by metis
  next
    case 3
    then show ?thesis using b Cons watermark_bytes_other [OF 3] by (auto simp: decode_watermark_def dest: sym)
  qed
qed

lemma state_key_new_iff:
  "state_key_new ns bs = Inr k \<longleftrightarrow>
     k = StateKey ns bs \<and> valid_namespace ns \<and> bs \<noteq> [] \<and> length bs \<le> MAX_ABSOLUTE_KEY_BYTES"
  by (auto simp: state_key_new_def)

lemma decode_entry_iff:
  assumes "short (pre @ xs)"
  shows "decode_entry limits previous (cur pre xs) = Inr (e, d) \<longleftrightarrow>
    (\<exists>rest. xs = entry_bytes e @ rest \<and> d = cur (pre @ entry_bytes e) rest \<and> entry_ok limits e
       \<and> (\<forall>p. previous = Some p \<longrightarrow> p < fst e))"
proof
  assume "decode_entry limits previous (cur pre xs) = Inr (e, d)"
  then obtain raw c1 ns raw_key c2 key v where
      1: "cur_frame MAX_NAMESPACE_BYTES (cur pre xs) = Inr (raw, c1)" "decode_text raw ''state namespace'' = Inr ns"
    and 2: "cur_frame (max_key_bytes limits) c1 = Inr (raw_key, c2)" "state_key_new ns raw_key = Inr key"
    and 3: "cur_frame (max_value_bytes limits) c2 = Inr (v, d)" "e = (key, v)"
    and 4: "\<forall>p. previous = Some p \<longrightarrow> p < key"
    by (auto simp: decode_entry_def rbind_Inr_iff rmap_Inr_iff map_err_Inr_iff not_le split: if_splits option.splits)
  from 1 obtain r1 where r1: "xs = frame (str_bytes ns) @ r1" "c1 = cur (pre @ frame (str_bytes ns)) r1"
    by (auto simp: cur_frame_iff [OF assms] decode_text_iff)
  then have "short ((pre @ frame (str_bytes ns)) @ r1)" using assms by simp
  with 2 r1(2) obtain r2 where r2: "r1 = frame raw_key @ r2" "c2 = cur (pre @ frame (str_bytes ns) @ frame raw_key) r2"
      "length raw_key \<le> max_key_bytes limits"
    by (auto simp: cur_frame_iff)
  then have "short ((pre @ frame (str_bytes ns) @ frame raw_key) @ r2)" using assms r1(1) by simp
  with 3 r2(2) obtain r3 where "r2 = frame v @ r3" "d = cur (pre @ frame (str_bytes ns) @ frame raw_key @ frame v) r3"
      "length v \<le> max_value_bytes limits"
    by (auto simp: cur_frame_iff)
  then show "\<exists>rest. xs = entry_bytes e @ rest \<and> d = cur (pre @ entry_bytes e) rest \<and> entry_ok limits e
       \<and> (\<forall>p. previous = Some p \<longrightarrow> p < fst e)"
    using r1 r2 3(2) 2(2) 4 by (auto simp: entry_bytes_def entry_ok_def state_key_new_iff)
next
  assume "\<exists>rest. xs = entry_bytes e @ rest \<and> d = cur (pre @ entry_bytes e) rest \<and> entry_ok limits e
       \<and> (\<forall>p. previous = Some p \<longrightarrow> p < fst e)"
  then obtain rest ns bs v where e: "e = (StateKey ns bs, v)"
    and r: "xs = frame (str_bytes ns) @ frame bs @ frame v @ rest"
      "d = cur (pre @ frame (str_bytes ns) @ frame bs @ frame v) rest"
    and ok: "entry_ok limits (StateKey ns bs, v)" "\<forall>p. previous = Some p \<longrightarrow> p < StateKey ns bs"
    by (cases e; cases "fst e") (auto simp: entry_bytes_def)
  let ?c1 = "cur (pre @ frame (str_bytes ns)) (frame bs @ frame v @ rest)"
  let ?c2 = "cur (pre @ frame (str_bytes ns) @ frame bs) (frame v @ rest)"
  have "cur_frame MAX_NAMESPACE_BYTES (cur pre xs) = Inr (str_bytes ns, ?c1)"
    unfolding cur_frame_iff [OF assms] using r(1) ok(1) by (simp add: entry_ok_def valid_namespace_def)
  moreover have "short ((pre @ frame (str_bytes ns)) @ frame bs @ frame v @ rest)" using assms r(1) by simp
  then have "cur_frame (max_key_bytes limits) ?c1 = Inr (bs, ?c2)"
    using ok(1) by (simp add: cur_frame_iff entry_ok_def)
  moreover have "short ((pre @ frame (str_bytes ns) @ frame bs) @ frame v @ rest)" using assms r(1) by simp
  then have "cur_frame (max_value_bytes limits) ?c2 = Inr (v, d)"
    using ok(1) r(2) by (simp add: cur_frame_iff entry_ok_def)
  ultimately show "decode_entry limits previous (cur pre xs) = Inr (e, d)"
    using ok valid_names_str(1) [of ns]
    by (auto simp: decode_entry_def e decode_text_def state_key_new_def entry_ok_def split: option.splits)
qed

lemma bt_insert_greatest:
  "\<forall>(a, w) \<in> set m. a < k \<Longrightarrow> bt_insert (<) k v m = m @ [(k :: 'k::linorder, v)]"
  by (induction m) (auto dest: order.strict_trans)

lemma bt_sorted_snoc: "bt_sorted (<) (m @ [e]) \<longleftrightarrow> bt_sorted (<) m \<and> (m \<noteq> [] \<longrightarrow> fst (last m) < (fst e :: 'k::linorder))"
proof (induction m)
  case (Cons a m)
  then show ?case by (cases m) (auto simp: bt_sorted_def dest: order.strict_trans)
qed (simp add: bt_sorted_def)

lemma bt_sorted_last:
  "bt_sorted (<) m \<Longrightarrow> m \<noteq> [] \<Longrightarrow> fst (last m) < k \<Longrightarrow> \<forall>(a, w) \<in> set m. a < (k :: 'k::linorder)"
  by (cases m rule: rev_cases) (fastforce simp: bt_sorted_def sorted_wrt_append)+

lemma decode_entries_iff:
  assumes "short (pre @ xs)" and "bt_sorted (<) acc"
    and "previous = (if acc = [] then None else Some (fst (last acc)))"
  shows "decode_entries limits n previous acc (cur pre xs) = Inr (m, d) \<longleftrightarrow>
    (\<exists>es rest. length es = n \<and> m = acc @ es \<and> xs = concat (map entry_bytes es) @ rest
       \<and> d = cur (pre @ concat (map entry_bytes es)) rest \<and> bt_sorted (<) m \<and> list_all (entry_ok limits) es)"
  using assms
proof (induction n arbitrary: previous acc pre xs)
  case 0
  then show ?case by auto
next
  case (Suc n)
  let ?R = "\<lambda>e rest. xs = entry_bytes e @ rest \<and> entry_ok limits e \<and> bt_sorted (<) (acc @ [e])"
  have prev: "(\<forall>p. previous = Some p \<longrightarrow> p < fst e) \<longleftrightarrow> bt_sorted (<) (acc @ [e])" for e :: "state_key \<times> bytes"
    using Suc.prems(2,3) by (simp add: bt_sorted_snoc)
  have step: "decode_entry limits previous (cur pre xs) = Inr (e, c) \<longleftrightarrow>
      (\<exists>rest. ?R e rest \<and> c = cur (pre @ entry_bytes e) rest)" for e c
    unfolding decode_entry_iff [OF Suc.prems(1)] prev by blast
  have rec: "decode_entries limits n (Some k) (bt_insert (<) k v acc) (cur (pre @ entry_bytes (k, v)) rest) = Inr (m, d) \<longleftrightarrow>
      (\<exists>es r. length es = n \<and> m = acc @ (k, v) # es \<and> rest = concat (map entry_bytes es) @ r
        \<and> d = cur (pre @ entry_bytes (k, v) @ concat (map entry_bytes es)) r \<and> bt_sorted (<) m \<and> list_all (entry_ok limits) es)"
    if "?R (k, v) rest" for k v rest
  proof -
    have "bt_insert (<) k v acc = acc @ [(k, v)]"
      using that bt_sorted_last [OF Suc.prems(2), of k] by (cases "acc = []") (auto simp: bt_sorted_snoc intro: bt_insert_greatest)
    moreover have "short ((pre @ entry_bytes (k, v)) @ rest)" using Suc.prems(1) that by simp
    ultimately show ?thesis using that Suc.IH [of "pre @ entry_bytes (k, v)" rest "acc @ [(k, v)]" "Some k"] by simp
  qed
  have "decode_entries limits (Suc n) previous acc (cur pre xs) = Inr (m, d) \<longleftrightarrow>
      (\<exists>k v rest. ?R (k, v) rest \<and> decode_entries limits n (Some k) (bt_insert (<) k v acc) (cur (pre @ entry_bytes (k, v)) rest) = Inr (m, d))"
    using step by (auto simp: rbind_Inr_iff)
  also have "\<dots> \<longleftrightarrow> (\<exists>k v rest es r. ?R (k, v) rest \<and> length es = n \<and> m = acc @ (k, v) # es \<and> rest = concat (map entry_bytes es) @ r
        \<and> d = cur (pre @ entry_bytes (k, v) @ concat (map entry_bytes es)) r \<and> bt_sorted (<) m \<and> list_all (entry_ok limits) es)"
    using rec by blast
  also have "\<dots> \<longleftrightarrow> (\<exists>es rest. length es = Suc n \<and> m = acc @ es \<and> xs = concat (map entry_bytes es) @ rest
       \<and> d = cur (pre @ concat (map entry_bytes es)) rest \<and> bt_sorted (<) m \<and> list_all (entry_ok limits) es)"
    (is "?A \<longleftrightarrow> ?B")
  proof
    assume ?A
    then obtain k v es r where "xs = entry_bytes (k, v) @ concat (map entry_bytes es) @ r" "entry_ok limits (k, v)"
      "length es = n" "m = acc @ (k, v) # es" "d = cur (pre @ entry_bytes (k, v) @ concat (map entry_bytes es)) r"
      "bt_sorted (<) m" "list_all (entry_ok limits) es" by blast
    then show ?B by (intro exI [of _ "(k, v) # es"] exI [of _ r]) simp
  next
    assume ?B
    then obtain k v es r where "xs = concat (map entry_bytes ((k, v) # es)) @ r" "entry_ok limits (k, v)"
      "length es = n" "m = acc @ (k, v) # es" "d = cur (pre @ concat (map entry_bytes ((k, v) # es))) r"
      "bt_sorted (<) m" "list_all (entry_ok limits) es" by (auto simp: length_Suc_conv)
    moreover then have "bt_sorted (<) (acc @ [(k, v)])" by (simp add: bt_sorted_def sorted_wrt_append)
    ultimately show ?A by (intro exI [of _ k] exI [of _ v] exI [of _ "concat (map entry_bytes es) @ r"] exI [of _ es] exI [of _ r]) simp
  qed
  finally show ?case .
qed

lemma decode_chain_iff:
  "rbind (decode_text rw ''chain_id'') (\<lambda>v. map_err (\<lambda>_. InvalidField ''chain_id'') (string_id_new v)) = Inr chain
    \<longleftrightarrow> rw = str_bytes chain \<and> valid_str chain \<and> chain \<noteq> [] \<and> is_trimmed chain"
  by (auto simp: rbind_Inr_iff map_err_Inr_iff decode_text_iff string_id_new_Inr)

lemma image_decode_sound:
  assumes "short bs" and "image_decode_canonical bs limits = Inr s"
  shows "image_ok limits s \<and> canonical_bytes s = bs"
proof -
  obtain c1 raw1 c2 chain first c3 raw2 c4 version w c5 n c6 entries c7 where
      limit: "length bs \<le> max_state_bytes limits"
    and 1: "cur_frame 128 (cur [] bs) = Inr (STATE_IMAGE_SCHEMA, c1)"
    and 2: "cur_frame 256 c1 = Inr (raw1, c2)" "raw1 = str_bytes chain" "valid_str chain \<and> chain \<noteq> [] \<and> is_trimmed chain"
    and 3: "cur_u64 c2 = Inr (first, c3)"
    and 4: "cur_frame 128 c3 = Inr (raw2, c4)" "raw2 = str_bytes version" "valid_reducer_version version"
    and 5: "decode_watermark first c4 = Inr (w, c5)"
    and 6: "cur_count (max_entries limits) c5 = Inr (n, c6)" "w = None \<longrightarrow> n = 0"
    and 7: "decode_entries limits n None [] c6 = Inr (entries, c7)" "cur_finished c7"
    and s: "s = \<lparr>si_chain_id = chain, si_first_height = first, si_version = version,
        si_watermark = w, si_entries = entries\<rparr>"
    using assms(2) unfolding image_decode_canonical_def cursor_new_cur
    by (auto simp: rbind_Inr_iff decode_text_iff map_err_Inr_iff string_id_new_Inr split: if_splits)
  have sh: "short (p @ x)" if "p @ x = bs" for p x using assms(1) that by simp
  obtain r1 where r1: "bs = frame STATE_IMAGE_SCHEMA @ r1" "c1 = cur (frame STATE_IMAGE_SCHEMA) r1"
    using 1 cur_frame_iff [of "[]" bs] assms(1) by auto
  define p1 where "p1 = frame STATE_IMAGE_SCHEMA"
  define p2 where "p2 = p1 @ frame (str_bytes chain)"
  define p3 where "p3 = p2 @ be64 first"
  define p4 where "p4 = p3 @ frame (str_bytes version)"
  define p5 where "p5 = p4 @ watermark_bytes w"
  define p6 where "p6 = p5 @ count64 n"
  obtain r2 where r2: "r1 = frame (str_bytes chain) @ r2" "c2 = cur p2 r2" "length chain \<le> 256"
    using 2 r1 cur_frame_iff [OF sh, of p1 r1] by (auto simp: p1_def p2_def)
  then have bs2: "p2 @ r2 = bs" using r1 by (simp add: p1_def p2_def)
  obtain r3 where r3: "r2 = be64 first @ r3" "c3 = cur p3 r3" using 3 r2 cur_u64_iff [OF sh [OF bs2]] by (auto simp: p3_def)
  then have bs3: "p3 @ r3 = bs" using bs2 by (simp add: p3_def)
  obtain r4 where r4: "r3 = frame (str_bytes version) @ r4" "c4 = cur p4 r4"
    using 4 r3 cur_frame_iff [OF sh [OF bs3]] by (auto simp: p4_def)
  then have bs4: "p4 @ r4 = bs" using bs3 by (simp add: p4_def)
  obtain r5 where r5: "r4 = watermark_bytes w @ r5" "c5 = cur p5 r5" "watermark_ok first w"
    using 5 r4 decode_watermark_iff [OF sh [OF bs4]] by (auto simp: p5_def)
  then have bs5: "p5 @ r5 = bs" using bs4 by (simp add: p5_def)
  obtain r6 where r6: "r5 = count64 n @ r6" "c6 = cur p6 r6" "n \<le> max_entries limits"
    using 6 r5 cur_count_iff [OF sh [OF bs5]] by (auto simp: p6_def)
  then have bs6: "p6 @ r6 = bs" using bs5 by (simp add: p6_def)
  obtain r7 where r7: "length entries = n" "r6 = concat (map entry_bytes entries) @ r7" "c7 = cur (p6 @ concat (map entry_bytes entries)) r7"
      "bt_sorted (<) entries" "list_all (entry_ok limits) entries"
    using 7 r6 decode_entries_iff [OF sh [OF bs6], of "[]" None limits n entries c7] by auto
  have "canonical_bytes s = bs"
    using bs6 r7 7(2) by (simp add: canonical_bytes_def s p1_def p2_def p3_def p4_def p5_def p6_def)
  then show ?thesis using limit 2(3) 4(3) 6(2) r2(3) r5(3) r6(3) r7(1,4,5) by (auto simp: image_ok_def s)
qed

lemma image_decode_complete:
  assumes "short (canonical_bytes s)" and ok: "image_ok limits s"
  shows "image_decode_canonical (canonical_bytes s) limits = Inr s"
proof -
  define e where "e = concat (map entry_bytes (si_entries s))"
  define p1 where "p1 = frame STATE_IMAGE_SCHEMA"
  define p2 where "p2 = p1 @ frame (str_bytes (si_chain_id s))"
  define p3 where "p3 = p2 @ be64 (si_first_height s)"
  define p4 where "p4 = p3 @ frame (str_bytes (si_version s))"
  define p5 where "p5 = p4 @ watermark_bytes (si_watermark s)"
  define p6 where "p6 = p5 @ count64 (length (si_entries s))"
  define r5 where "r5 = count64 (length (si_entries s)) @ e"
  define r4 where "r4 = watermark_bytes (si_watermark s) @ r5"
  define r3 where "r3 = frame (str_bytes (si_version s)) @ r4"
  define r2 where "r2 = be64 (si_first_height s) @ r3"
  define r1 where "r1 = frame (str_bytes (si_chain_id s)) @ r2"
  have sh: "short (p1 @ r1)" "short (p2 @ r2)" "short (p3 @ r3)" "short (p4 @ r4)" "short (p5 @ r5)" "short (p6 @ e)"
    using assms(1) by (simp_all add: canonical_bytes_def p1_def p2_def p3_def p4_def p5_def p6_def r1_def r2_def
        r3_def r4_def r5_def e_def)
  have bs: "canonical_bytes s = p1 @ r1"
    by (simp add: canonical_bytes_def p1_def r1_def r2_def r3_def r4_def r5_def e_def)
  have schema: "cur_frame 128 (cur [] (canonical_bytes s)) = Inr (STATE_IMAGE_SCHEMA, cur p1 r1)"
    using cur_frame_iff [of "[]" "canonical_bytes s"] assms(1) bs by (simp add: p1_def STATE_IMAGE_SCHEMA_def)
  have chain: "cur_frame 256 (cur p1 r1) = Inr (str_bytes (si_chain_id s), cur p2 r2)"
    unfolding cur_frame_iff [OF sh(1)] using ok by (simp add: image_ok_def r1_def p2_def)
  have first: "cur_u64 (cur p2 r2) = Inr (si_first_height s, cur p3 r3)"
    unfolding cur_u64_iff [OF sh(2)] by (simp add: r2_def p3_def)
  have version: "cur_frame 128 (cur p3 r3) = Inr (str_bytes (si_version s), cur p4 r4)"
    unfolding cur_frame_iff [OF sh(3)] using ok by (simp add: image_ok_def valid_reducer_version_def r3_def p4_def)
  have w: "decode_watermark (si_first_height s) (cur p4 r4) = Inr (si_watermark s, cur p5 r5)"
    unfolding decode_watermark_iff [OF sh(4)] using ok by (simp add: image_ok_def r4_def p5_def)
  have "length (si_entries s) \<le> length e"
  proof -
    have "length m \<le> length (concat (map entry_bytes m))" for m
      by (induction m) (auto simp: entry_bytes_def)
    then show ?thesis by (simp add: e_def)
  qed
  then have "length (si_entries s) < 2 ^ 64" using sh(6) by (simp add: short_def)
  then have count: "cur_count (max_entries limits) (cur p5 r5) = Inr (length (si_entries s), cur p6 e)"
    unfolding cur_count_iff [OF sh(5)] using ok by (simp add: image_ok_def r5_def p6_def)
  have entries: "decode_entries limits (length (si_entries s)) None [] (cur p6 e) = Inr (si_entries s, cur (p6 @ e) [])"
    using ok decode_entries_iff [OF sh(6) bt_sorted_Nil, of None limits "length (si_entries s)" "si_entries s"]
    by (auto simp: image_ok_def e_def)
  show ?thesis
    using ok valid_names_str(2) [of "si_version s"] schema chain first version w count entries
    by (cases "si_watermark s") (simp_all add: image_decode_canonical_def cursor_new_cur image_ok_def decode_text_def
        string_id_new_def)
qed

text \<open>
  C12. The state image has exactly one encoding: a byte string is decoded to an image exactly
  when the image satisfies the limits and the byte string is its canonical encoding. So
  decoding undoes encoding, every accepted byte string is the one the encoder would have
  written, and an accepted image has its keys in strict order, a watermark not below the
  first height and no entry before the first applied block.
\<close>

theorem state_image_canonical:
  assumes "short bs"
  shows "image_decode_canonical bs limits = Inr s \<longleftrightarrow> image_ok limits s \<and> canonical_bytes s = bs"
  using image_decode_sound [OF assms] image_decode_complete assms by blast

definition sample_image :: state_image where
  "sample_image = \<lparr>si_chain_id = ''c'', si_first_height = 1, si_version = ''v1'',
     si_watermark = Some \<lparr>wm_block_height = 2, wm_block_hash = replicate 32 7\<rparr>,
     si_entries = [(StateKey ''a'' [1], [9]), (StateKey ''a'' [1, 0], [])]\<rparr>"

theorem state_image_canonical_witness:
  "short (canonical_bytes sample_image)
   \<and> image_decode_canonical (canonical_bytes sample_image) state_image_limits_production = Inr sample_image"
proof -
  have "short (canonical_bytes sample_image)"
    by (simp add: short_def canonical_bytes_def sample_image_def watermark_bytes_def entry_bytes_def STATE_IMAGE_SCHEMA_def)
  moreover have "image_ok state_image_limits_production sample_image"
    by (simp add: image_ok_def sample_image_def state_image_limits_production_def canonical_bytes_def
        watermark_bytes_def entry_bytes_def STATE_IMAGE_SCHEMA_def is_trimmed_def starts_with_space_def
        ends_with_space_def space_encodings_def valid_str_def valid_reducer_version_def watermark_ok_def
        is_ascii_alphanumeric_def is_ascii_lowercase_def is_ascii_uppercase_def is_digit_def code_def
        bt_sorted_def less_state_key_def entry_ok_def valid_namespace_def MAX_NAMESPACE_BYTES_def
        MAX_ABSOLUTE_KEY_BYTES_def)
  ultimately show ?thesis
    using state_image_canonical [of "canonical_bytes sample_image" state_image_limits_production sample_image]
    by simp
qed

end
