(* ===== verification/Ledger.thy ===== *)
theory Ledger
  imports State_Image Canonical_Block
begin

text \<open>
  The canonical ledger of \<^verbatim>\<open>crates/canonical-ledger\<close>: \<^verbatim>\<open>ledger.rs\<close> with the reducer interface
  of \<^verbatim>\<open>reducer.rs\<close>, the confirmation policy of \<^verbatim>\<open>correction.rs\<close> and the reducer of
  \<^verbatim>\<open>watermark_only.rs\<close>. A block is prepared against a copy of the entries and committed in one
  step; an operation that fails leaves the ledger as it was.
\<close>

section \<open>Errors and limits\<close>

record reducer_error =
  re_reason_code :: string
  re_message :: string

datatype ledger_error =
    InvalidLedgerLimits
  | InvalidReducerVersion
  | ReducerVersionDrift
  | InvalidReducerError
  | LedgerChainMismatch
  | NonCommittedBlock
  | CorrectionUnimplemented
  | HeightDiscontinuity block_height block_height
  | CanonicalDivergence
  | HeightExhausted
  | UnsupportedEvent event_kind string
  | ReducerFailed reducer_error
  | MutationLimitExceeded
  | InvalidMutation string
  | PreparedStateDrift

definition valid_reason_code :: "string \<Rightarrow> bool" where
  "valid_reason_code value \<longleftrightarrow>
     value \<noteq> [] \<and> length value \<le> 128
     \<and> is_ascii_lowercase (hd value) \<and> is_ascii_alphanumeric (last value)
     \<and> list_all (\<lambda>c. is_ascii_lowercase c \<or> is_digit c \<or> c \<in> {CHR ''.'', CHR ''_''}) value"

definition is_ascii_control :: "char \<Rightarrow> bool" where
  "is_ascii_control c \<longleftrightarrow> code c < 32 \<or> code c = 127"

definition valid_message :: "string \<Rightarrow> bool" where
  "valid_message value \<longleftrightarrow>
     value \<noteq> [] \<and> length value \<le> 512 \<and> is_trimmed value \<and> \<not> list_ex is_ascii_control value"

definition reducer_error_new :: "string \<Rightarrow> string \<Rightarrow> ledger_error + reducer_error" where
  "reducer_error_new reason_code msg =
     (if \<not> valid_reason_code reason_code \<or> \<not> valid_message msg then Inl InvalidReducerError
      else Inr \<lparr>re_reason_code = reason_code, re_message = msg\<rparr>)"

definition MAX_BLOCK_DELTA_ENTRIES :: nat where
  "MAX_BLOCK_DELTA_ENTRIES = 1000000"

definition MAX_BLOCK_DELTA_REFERENCED_BYTES :: nat where
  "MAX_BLOCK_DELTA_REFERENCED_BYTES = 256 * 1024 * 1024"

record ledger_limits =
  ll_events :: nat
  ll_mutations :: nat
  ll_key_bytes :: nat
  ll_value_bytes :: nat
  ll_delta_bytes :: nat
  ll_delta_entries :: nat
  ll_referenced_bytes :: nat

definition ledger_limits_new ::
  "nat \<Rightarrow> nat \<Rightarrow> nat \<Rightarrow> nat \<Rightarrow> nat \<Rightarrow> nat \<Rightarrow> nat \<Rightarrow> ledger_error + ledger_limits" where
  "ledger_limits_new evs muts key_bytes value_bytes delta_bytes delta_entries referenced =
     (if 0 \<in> set [evs, muts, key_bytes, value_bytes, delta_bytes, delta_entries, referenced]
         \<or> key_bytes > delta_bytes \<or> value_bytes > delta_bytes
         \<or> evs \<ge> 2 ^ 32
         \<or> evs * muts > usize_max \<or> delta_entries > evs * muts
         \<or> referenced > delta_bytes
      then Inl InvalidLedgerLimits
      else Inr \<lparr>ll_events = evs, ll_mutations = muts, ll_key_bytes = key_bytes,
                ll_value_bytes = value_bytes, ll_delta_bytes = delta_bytes,
                ll_delta_entries = delta_entries, ll_referenced_bytes = referenced\<rparr>)"

definition ledger_limits_production :: ledger_limits where
  "ledger_limits_production =
     \<lparr>ll_events = 100000, ll_mutations = 4096, ll_key_bytes = 4 * 1024,
      ll_value_bytes = 16 * 1024 * 1024, ll_delta_bytes = 256 * 1024 * 1024,
      ll_delta_entries = MAX_BLOCK_DELTA_ENTRIES,
      ll_referenced_bytes = MAX_BLOCK_DELTA_REFERENCED_BYTES\<rparr>"

section \<open>Confirmation policy\<close>

datatype confirmation_admission = AdmitCommitted | AdmitNonCommitted | AdmitCorrectionUnimplemented

fun admit_confirmation :: "confirmation_class \<Rightarrow> confirmation_admission" where
  "admit_confirmation CommittedPrimary = AdmitCommitted"
| "admit_confirmation CommittedIndependent = AdmitCommitted"
| "admit_confirmation Corrected = AdmitCorrectionUnimplemented"
| "admit_confirmation ProvisionalSource = AdmitNonCommitted"
| "admit_confirmation ReconciledSnapshot = AdmitNonCommitted"
| "admit_confirmation Expired = AdmitNonCommitted"

definition require_committed_confirmation :: "confirmation_class \<Rightarrow> ledger_error + unit" where
  "require_committed_confirmation c =
     (case admit_confirmation c of
        AdmitCommitted \<Rightarrow> Inr ()
      | AdmitNonCommitted \<Rightarrow> Inl NonCommittedBlock
      | AdmitCorrectionUnimplemented \<Rightarrow> Inl CorrectionUnimplemented)"

record correction_record =
  cr_chain_id :: chain_id
  cr_block_height :: block_height
  cr_block_hash :: hash

definition correction_from_block :: "block_envelope \<Rightarrow> correction_record option" where
  "correction_from_block b =
     (case admit_confirmation (b_confirmation_class b) of
        AdmitCorrectionUnimplemented \<Rightarrow>
          Some \<lparr>cr_chain_id = b_chain_id b, cr_block_height = b_block_height b,
                cr_block_hash = b_canonical_block_hash b\<rparr>
      | _ \<Rightarrow> None)"

section \<open>Reducers\<close>

record apply_context =
  ac_chain_id :: chain_id
  ac_block_height :: block_height
  ac_block_time :: int
  ac_confirmation_class :: confirmation_class

record block_delta_entry =
  de_key :: state_key
  de_start :: "bytes option"
  de_final :: "bytes option"
  de_writes :: u32

text \<open>
  The trait \<^verbatim>\<open>EventReducer\<close>, as the record of its methods. \<^verbatim>\<open>StateView\<close> gives read access to
  the entries, so a reducer is a function of them.
\<close>

record event_reducer =
  reducer_set_version :: string
  supports :: "canonical_event \<Rightarrow> bool"
  reduce_event ::
    "state_entries \<Rightarrow> canonical_event \<Rightarrow> apply_context \<Rightarrow> reducer_error + state_mutation list"
  validate_block_delta ::
    "state_entries \<Rightarrow> block_delta_entry list \<Rightarrow> apply_context \<Rightarrow> reducer_error + unit"

text \<open>The methods a reducer inherits when it does not define them.\<close>

definition default_validate_block ::
  "state_entries \<Rightarrow> apply_context \<Rightarrow> reducer_error + unit" where
  "default_validate_block entries ctx = Inr ()"

definition watermark_only_reducer :: event_reducer where
  "watermark_only_reducer =
     \<lparr>reducer_set_version = ''hyperliquid-alpha-desk-watermark-only@1.0.0'',
      supports = (\<lambda>_. False),
      reduce_event = (\<lambda>_ _ _. Inl \<lparr>re_reason_code = ''reducer.unqualified_event'',
        re_message = ''watermark-only reducer cannot apply action-bearing events''\<rparr>),
      validate_block_delta = (\<lambda>final _ ctx. default_validate_block final ctx)\<rparr>"

section \<open>The block delta\<close>

record tracked_delta =
  td_writes :: u32
  td_final_bytes :: nat

record block_delta_tracker =
  bd_start :: state_entries
  bd_entries :: "(state_key, tracked_delta) btree"
  bd_referenced :: nat
  bd_limits :: ledger_limits

definition tracker_new :: "state_entries \<Rightarrow> ledger_limits \<Rightarrow> block_delta_tracker" where
  "tracker_new start limits =
     \<lparr>bd_start = start, bd_entries = [], bd_referenced = 0, bd_limits = limits\<rparr>"

definition checked_add_usize :: "nat \<Rightarrow> nat \<Rightarrow> nat option" where
  "checked_add_usize a b = (if a + b \<le> usize_max then Some (a + b) else None)"

definition checked_sub_usize :: "nat \<Rightarrow> nat \<Rightarrow> nat option" where
  "checked_sub_usize a b = (if b \<le> a then Some (a - b) else None)"

definition encoded_len :: "state_key \<Rightarrow> ledger_error + nat" where
  "encoded_len key =
     ok_or MutationLimitExceeded (checked_add_usize (length (sk_namespace key)) (length (sk_key key)))"

definition option_len :: "bytes option \<Rightarrow> nat" where
  "option_len v = (case v of Some b \<Rightarrow> length b | None \<Rightarrow> 0)"

definition record_write ::
  "state_key \<Rightarrow> bytes option \<Rightarrow> block_delta_tracker \<Rightarrow> ledger_error + block_delta_tracker" where
  "record_write key final_value t =
     (let final_bytes = option_len final_value in
      case bt_get (<) key (bd_entries t) of
        Some tracked \<Rightarrow>
          rbind (ok_or MutationLimitExceeded (checked_succ (td_writes tracked))) (\<lambda>writes.
          rbind (ok_or MutationLimitExceeded
                   (Option.bind (checked_sub_usize (bd_referenced t) (td_final_bytes tracked))
                      (\<lambda>b. checked_add_usize b final_bytes))) (\<lambda>referenced.
          if referenced > ll_referenced_bytes (bd_limits t) then Inl MutationLimitExceeded
          else Inr (t\<lparr>bd_entries := bt_insert (<) key
                        \<lparr>td_writes = writes, td_final_bytes = final_bytes\<rparr> (bd_entries t),
                      bd_referenced := referenced\<rparr>)))
      | None \<Rightarrow>
          if length (bd_entries t) \<ge> ll_delta_entries (bd_limits t) then Inl MutationLimitExceeded
          else
            rbind (encoded_len key) (\<lambda>key_bytes.
            rbind (ok_or MutationLimitExceeded
                     (Option.bind (checked_add_usize (bd_referenced t) key_bytes)
                       (\<lambda>b. Option.bind (checked_add_usize b (option_len (bt_get (<) key (bd_start t))))
                       (\<lambda>b. checked_add_usize b final_bytes)))) (\<lambda>referenced.
            if referenced > ll_referenced_bytes (bd_limits t) then Inl MutationLimitExceeded
            else Inr (t\<lparr>bd_entries := bt_insert (<) key
                          \<lparr>td_writes = 1, td_final_bytes = final_bytes\<rparr> (bd_entries t),
                        bd_referenced := referenced\<rparr>))))"

definition delta_entries :: "block_delta_tracker \<Rightarrow> state_entries \<Rightarrow> block_delta_entry list" where
  "delta_entries t final =
     map (\<lambda>(key, tracked). \<lparr>de_key = key, de_start = bt_get (<) key (bd_start t),
            de_final = bt_get (<) key final, de_writes = td_writes tracked\<rparr>) (bd_entries t)"

section \<open>Applying mutations\<close>

fun validate_mutation_list ::
  "ledger_limits \<Rightarrow> state_key list \<Rightarrow> state_mutation list \<Rightarrow> nat \<Rightarrow> ledger_error + nat" where
  "validate_mutation_list limits seen [] delta_bytes = Inr delta_bytes"
| "validate_mutation_list limits seen (m # ms) delta_bytes =
     (let key = mutation_key m in
      if key \<in> set seen
      then Inl (InvalidMutation ''one event produced multiple mutations for the same state key'')
      else
        rbind (encoded_len key) (\<lambda>key_bytes.
        if key_bytes > ll_key_bytes limits then Inl MutationLimitExceeded
        else
          let value_bytes = option_len (mutation_value m) in
          if value_bytes > ll_value_bytes limits then Inl MutationLimitExceeded
          else
            rbind (ok_or MutationLimitExceeded
                     (Option.bind (checked_add_usize delta_bytes key_bytes)
                        (\<lambda>n. checked_add_usize n value_bytes))) (\<lambda>total.
            if total > ll_delta_bytes limits then Inl MutationLimitExceeded
            else validate_mutation_list limits (key # seen) ms total)))"

definition validate_mutations ::
  "ledger_limits \<Rightarrow> state_mutation list \<Rightarrow> nat \<Rightarrow> ledger_error + nat" where
  "validate_mutations limits ms delta_bytes =
     (if length ms > ll_mutations limits then Inl MutationLimitExceeded
      else validate_mutation_list limits [] ms delta_bytes)"

record working_state =
  ws_candidate :: state_entries
  ws_applied :: "applied_mutation list"
  ws_tracker :: block_delta_tracker

fun apply_mutation :: "state_mutation \<Rightarrow> working_state \<Rightarrow> ledger_error + working_state" where
  "apply_mutation (Put key value) s =
     rbind (record_write key (Some value) (ws_tracker s)) (\<lambda>t.
     Inr \<lparr>ws_candidate = bt_insert (<) key value (ws_candidate s),
          ws_applied = ws_applied s @ [\<lparr>am_key = key, am_previous = bt_get (<) key (ws_candidate s),
                                        am_current = Some value\<rparr>],
          ws_tracker = t\<rparr>)"
| "apply_mutation (Delete key) s =
     (case bt_get (<) key (ws_candidate s) of
        None \<Rightarrow> Inl (InvalidMutation ''cannot delete a missing state key'')
      | Some previous \<Rightarrow>
          rbind (record_write key None (ws_tracker s)) (\<lambda>t.
          Inr \<lparr>ws_candidate = bt_remove (<) key (ws_candidate s),
               ws_applied = ws_applied s @ [\<lparr>am_key = key, am_previous = Some previous, am_current = None\<rparr>],
               ws_tracker = t\<rparr>))"

definition apply_mutations :: "state_mutation list \<Rightarrow> working_state \<Rightarrow> ledger_error + working_state" where
  "apply_mutations ms s = rfold apply_mutation ms s"

section \<open>The ledger\<close>

record state_checkpoint =
  ck_chain_id :: chain_id
  ck_block_height :: block_height
  ck_block_hash :: hash
  ck_state_hash :: hash
  ck_version :: string

record state_delta =
  sd_checkpoint :: state_checkpoint
  sd_before_hash :: hash
  sd_mutations :: "applied_mutation list"
  sd_event_count :: u64

datatype apply_outcome = Applied state_delta | AlreadyApplied state_checkpoint

record prepared_block =
  pb_next_state :: state_image
  pb_delta :: state_delta

datatype prepare_outcome = Ready prepared_block | AlreadyPrepared state_checkpoint

record canonical_ledger =
  cl_reducer :: event_reducer
  cl_limits :: ledger_limits
  cl_state :: state_image
  cl_state_hash :: hash

type_synonym key_derivation = "string \<Rightarrow> bytes \<Rightarrow> hash"

definition ledger_new ::
  "key_derivation \<Rightarrow> chain_id \<Rightarrow> block_height \<Rightarrow> event_reducer \<Rightarrow> ledger_limits
     \<Rightarrow> ledger_error + canonical_ledger" where
  "ledger_new derive chain first reducer limits =
     (if \<not> valid_reducer_version (reducer_set_version reducer) then Inl InvalidReducerVersion
      else
        let state = empty_image chain first (reducer_set_version reducer) in
        Inr \<lparr>cl_reducer = reducer, cl_limits = limits, cl_state = state,
             cl_state_hash = state_hash derive state\<rparr>)"

definition ledger_from_image ::
  "key_derivation \<Rightarrow> state_image \<Rightarrow> event_reducer \<Rightarrow> ledger_limits \<Rightarrow> ledger_error + canonical_ledger" where
  "ledger_from_image derive state reducer limits =
     (if \<not> valid_reducer_version (reducer_set_version reducer) then Inl InvalidReducerVersion
      else if reducer_set_version reducer \<noteq> si_version state then Inl ReducerVersionDrift
      else Inr \<lparr>cl_reducer = reducer, cl_limits = limits, cl_state = state,
                cl_state_hash = state_hash derive state\<rparr>)"

definition checkpoint_from :: "canonical_ledger \<Rightarrow> state_watermark \<Rightarrow> hash \<Rightarrow> state_checkpoint" where
  "checkpoint_from l w h =
     \<lparr>ck_chain_id = si_chain_id (cl_state l), ck_block_height = wm_block_height w,
      ck_block_hash = wm_block_hash w, ck_state_hash = h, ck_version = si_version (cl_state l)\<rparr>"

definition ledger_checkpoint :: "canonical_ledger \<Rightarrow> state_checkpoint option" where
  "ledger_checkpoint l =
     map_option (\<lambda>w. checkpoint_from l w (cl_state_hash l)) (si_watermark (cl_state l))"

definition ledger_next_height :: "canonical_ledger \<Rightarrow> ledger_error + block_height" where
  "ledger_next_height l =
     (case si_watermark (cl_state l) of
        Some w \<Rightarrow> ok_or HeightExhausted (checked_succ (wm_block_height w))
      | None \<Rightarrow> Inr (si_first_height (cl_state l)))"

definition validate_boundary :: "canonical_ledger \<Rightarrow> block_envelope \<Rightarrow> ledger_error + unit" where
  "validate_boundary l b =
     (if b_chain_id b \<noteq> si_chain_id (cl_state l) then Inl LedgerChainMismatch
      else require_committed_confirmation (b_confirmation_class b))"

definition duplicate_checkpoint ::
  "canonical_ledger \<Rightarrow> block_envelope \<Rightarrow> ledger_error + state_checkpoint option" where
  "duplicate_checkpoint l b =
     (case si_watermark (cl_state l) of
        None \<Rightarrow> Inr None
      | Some w \<Rightarrow>
          if b_block_height b \<noteq> wm_block_height w then Inr None
          else if b_canonical_block_hash b \<noteq> wm_block_hash w then Inl CanonicalDivergence
          else Inr (Some (checkpoint_from l w (cl_state_hash l))))"

definition validate_next_height :: "canonical_ledger \<Rightarrow> block_height \<Rightarrow> ledger_error + unit" where
  "validate_next_height l actual =
     rbind (ledger_next_height l) (\<lambda>expected.
     if actual \<noteq> expected then Inl (HeightDiscontinuity expected actual) else Inr ())"

text \<open>One turn of the loop over the events: the working state and the raw delta bytes.\<close>

definition apply_event ::
  "canonical_ledger \<Rightarrow> apply_context \<Rightarrow> canonical_event \<Rightarrow> working_state \<times> nat
     \<Rightarrow> ledger_error + working_state \<times> nat" where
  "apply_event l ctx event = (\<lambda>(s, raw_bytes).
     if \<not> supports (cl_reducer l) event
     then Inl (UnsupportedEvent (payload_kind (e_payload event)) (e_schema_version event))
     else
       rbind (map_err ReducerFailed (reduce_event (cl_reducer l) (ws_candidate s) event ctx)) (\<lambda>ms.
       rbind (validate_mutations (cl_limits l) ms raw_bytes) (\<lambda>raw_bytes.
       rbind (apply_mutations ms s) (\<lambda>s. Inr (s, raw_bytes)))))"

definition prepare_block ::
  "key_derivation \<Rightarrow> canonical_ledger \<Rightarrow> block_envelope \<Rightarrow> ledger_error + prepare_outcome" where
  "prepare_block derive l b =
     (if reducer_set_version (cl_reducer l) \<noteq> si_version (cl_state l) then Inl ReducerVersionDrift
      else
        rbind (validate_boundary l b) (\<lambda>_.
        rbind (duplicate_checkpoint l b) (\<lambda>dup.
        case dup of
          Some checkpoint \<Rightarrow> Inr (AlreadyPrepared checkpoint)
        | None \<Rightarrow>
            rbind (validate_next_height l (b_block_height b)) (\<lambda>_.
            if length (b_events b) > ll_events (cl_limits l) then Inl MutationLimitExceeded
            else if length (b_events b) \<ge> 2 ^ 64 then Inl MutationLimitExceeded
            else
              let ctx = \<lparr>ac_chain_id = b_chain_id b, ac_block_height = b_block_height b,
                         ac_block_time = b_block_time b, ac_confirmation_class = b_confirmation_class b\<rparr>;
                  start = \<lparr>ws_candidate = si_entries (cl_state l), ws_applied = [],
                           ws_tracker = tracker_new (si_entries (cl_state l)) (cl_limits l)\<rparr> in
              rbind (rfold (apply_event l ctx) (b_events b) (start, 0)) (\<lambda>(s, _).
              rbind (map_err ReducerFailed
                       (validate_block_delta (cl_reducer l) (ws_candidate s)
                          (delta_entries (ws_tracker s) (ws_candidate s)) ctx)) (\<lambda>_.
              let w = \<lparr>wm_block_height = b_block_height b, wm_block_hash = b_canonical_block_hash b\<rparr>;
                  next_state = image_commit w (ws_candidate s) (cl_state l) in
              Inr (Ready \<lparr>pb_next_state = next_state,
                          pb_delta = \<lparr>sd_checkpoint = checkpoint_from l w (state_hash derive next_state),
                                      sd_before_hash = cl_state_hash l,
                                      sd_mutations = ws_applied s,
                                      sd_event_count = of_nat (length (b_events b))\<rparr>\<rparr>)))))))"

definition commit_prepared ::
  "prepared_block \<Rightarrow> canonical_ledger \<Rightarrow> (ledger_error + state_delta) \<times> canonical_ledger" where
  "commit_prepared p l =
     (if cl_state_hash l \<noteq> sd_before_hash (pb_delta p) then (Inl PreparedStateDrift, l)
      else (Inr (pb_delta p),
            l\<lparr>cl_state := pb_next_state p, cl_state_hash := ck_state_hash (sd_checkpoint (pb_delta p))\<rparr>))"

definition apply_block ::
  "key_derivation \<Rightarrow> block_envelope \<Rightarrow> canonical_ledger \<Rightarrow> (ledger_error + apply_outcome) \<times> canonical_ledger" where
  "apply_block derive b l =
     (case prepare_block derive l b of
        Inl e \<Rightarrow> (Inl e, l)
      | Inr (Ready prepared) \<Rightarrow> (let (r, l') = commit_prepared prepared l in (rmap Applied r, l'))
      | Inr (AlreadyPrepared checkpoint) \<Rightarrow> (Inr (AlreadyApplied checkpoint), l))"

text \<open>Corrections are refused without looking at the ledger.\<close>

definition apply_correction :: "canonical_ledger \<Rightarrow> correction_record \<Rightarrow> ledger_error + unit" where
  "apply_correction l r = Inl CorrectionUnimplemented"

section \<open>Replaying and undoing\<close>

definition redo_mutation :: "applied_mutation \<Rightarrow> state_entries \<Rightarrow> state_entries" where
  "redo_mutation m entries =
     (case am_current m of Some v \<Rightarrow> bt_insert (<) (am_key m) v entries | None \<Rightarrow> bt_remove (<) (am_key m) entries)"

definition undo_mutation :: "applied_mutation \<Rightarrow> state_entries \<Rightarrow> state_entries" where
  "undo_mutation m entries =
     (case am_previous m of Some v \<Rightarrow> bt_insert (<) (am_key m) v entries | None \<Rightarrow> bt_remove (<) (am_key m) entries)"

definition replay :: "applied_mutation list \<Rightarrow> state_entries \<Rightarrow> state_entries" where
  "replay ms = fold redo_mutation ms"

definition undo :: "applied_mutation list \<Rightarrow> state_entries \<Rightarrow> state_entries" where
  "undo ms = fold undo_mutation (rev ms)"

lemma redo_sorted: "bt_sorted (<) m \<Longrightarrow> bt_sorted (<) (redo_mutation a m)"
  by (auto simp: redo_mutation_def lin.bt_sorted_insert lin.bt_sorted_remove split: option.splits)

lemma bt_get_redo:
  "bt_sorted (<) m \<Longrightarrow> bt_get (<) k (redo_mutation a m) = (if k = am_key a then am_current a else bt_get (<) k m)"
  by (auto simp: redo_mutation_def lin.bt_get_insert lin.bt_get_remove split: option.splits)

lemma bt_get_undo:
  "bt_sorted (<) m \<Longrightarrow> bt_get (<) k (undo_mutation a m) = (if k = am_key a then am_previous a else bt_get (<) k m)"
  by (auto simp: undo_mutation_def lin.bt_get_insert lin.bt_get_remove split: option.splits)

lemma undo_redo:
  assumes "bt_sorted (<) m" and "am_previous a = bt_get (<) (am_key a) m"
  shows "undo_mutation a (redo_mutation a m) = m"
proof (rule bt_ext_lin)
  have s: "bt_sorted (<) (redo_mutation a m)" using assms(1) by (rule redo_sorted)
  then show "bt_sorted (<) (undo_mutation a (redo_mutation a m))"
    by (auto simp: undo_mutation_def lin.bt_sorted_insert lin.bt_sorted_remove split: option.splits)
  show "bt_get (<) k (undo_mutation a (redo_mutation a m)) = bt_get (<) k m" for k
    using assms by (simp add: bt_get_undo [OF s] bt_get_redo [OF assms(1)])
qed (rule assms(1))

lemma replay_snoc: "replay (ms @ [a]) m = redo_mutation a (replay ms m)"
  and undo_snoc: "undo (ms @ [a]) m = undo ms (undo_mutation a m)"
  and replay_append: "replay (ms @ ns) m = replay ns (replay ms m)"
  by (simp_all add: replay_def undo_def)

text \<open>What one applied mutation does, for both kinds.\<close>

lemma apply_mutation_Inr:
  assumes "apply_mutation mut s = Inr t"
  shows "\<exists>a. am_key a = mutation_key mut \<and> am_current a = mutation_value mut
      \<and> am_previous a = bt_get (<) (am_key a) (ws_candidate s)
      \<and> ws_applied t = ws_applied s @ [a] \<and> ws_candidate t = redo_mutation a (ws_candidate s)
      \<and> record_write (am_key a) (am_current a) (ws_tracker s) = Inr (ws_tracker t)
      \<and> (am_current a = None \<longrightarrow> am_previous a \<noteq> None)"
  using assms
  by (intro exI [of _ "\<lparr>am_key = mutation_key mut,
        am_previous = bt_get (<) (mutation_key mut) (ws_candidate s), am_current = mutation_value mut\<rparr>"], cases mut)
     (auto simp: rbind_Inr_iff redo_mutation_def split: option.splits)

section \<open>The delta of a block\<close>

definition touched :: "state_key \<Rightarrow> applied_mutation list \<Rightarrow> nat" where
  "touched k ms = length (filter (\<lambda>m. am_key m = k) ms)"

definition key_len :: "state_key \<Rightarrow> nat" where
  "key_len k = length (sk_namespace k) + length (sk_key k)"

definition entry_cost :: "state_entries \<Rightarrow> state_key \<times> tracked_delta \<Rightarrow> nat" where
  "entry_cost start = (\<lambda>(k, t). key_len k + option_len (bt_get (<) k start) + td_final_bytes t)"

definition working_ok :: "state_entries \<Rightarrow> ledger_limits \<Rightarrow> working_state \<Rightarrow> bool" where
  "working_ok start limits s \<longleftrightarrow>
     bt_sorted (<) start \<and> bt_sorted (<) (ws_candidate s)
     \<and> replay (ws_applied s) start = ws_candidate s \<and> undo (ws_applied s) (ws_candidate s) = start
     \<and> bd_start (ws_tracker s) = start \<and> bd_limits (ws_tracker s) = limits
     \<and> bt_sorted (<) (bd_entries (ws_tracker s))
     \<and> (\<forall>k. (bt_get (<) k (bd_entries (ws_tracker s)) = None \<longleftrightarrow> touched k (ws_applied s) = 0)
          \<and> (\<forall>t. bt_get (<) k (bd_entries (ws_tracker s)) = Some t \<longrightarrow>
               unat (td_writes t) = touched k (ws_applied s)
               \<and> td_final_bytes t = option_len (bt_get (<) k (ws_candidate s))))
     \<and> (\<forall>k. touched k (ws_applied s) = 0 \<longrightarrow> bt_get (<) k (ws_candidate s) = bt_get (<) k start)
     \<and> bd_referenced (ws_tracker s) = sum_list (map (entry_cost start) (bd_entries (ws_tracker s)))
     \<and> bd_referenced (ws_tracker s) \<le> ll_referenced_bytes limits
     \<and> length (bd_entries (ws_tracker s)) \<le> ll_delta_entries limits"

lemma sum_bt_insert_fresh:
  "bt_get (<) k m = None \<Longrightarrow> bt_sorted (<) m \<Longrightarrow>
   sum_list (map f (bt_insert (<) k v m)) = f (k :: 'k::linorder, v) + (sum_list (map f m) :: nat)"
  by (induction m) (auto simp: bt_sorted_Cons split: if_splits)

lemma sum_bt_insert_present:
  "bt_get (<) k m = Some u \<Longrightarrow> bt_sorted (<) m \<Longrightarrow>
   sum_list (map f (bt_insert (<) k v m)) + f (k, u) = f (k :: 'k::linorder, v) + (sum_list (map f m) :: nat)"
  by (induction m) (auto simp: bt_sorted_Cons split: if_splits)

lemma encoded_len_Inr: "encoded_len k = Inr n \<longleftrightarrow> n = key_len k \<and> n \<le> usize_max"
  by (auto simp: encoded_len_def checked_add_usize_def key_len_def)

text \<open>Recording a write, in both cases.\<close>

lemma record_write_Inr:
  assumes rw: "record_write k v t = Inr t'" and sorted: "bt_sorted (<) (bd_entries t)"
    and refd: "bd_referenced t = sum_list (map (entry_cost (bd_start t)) (bd_entries t))"
  shows "\<exists>e. bd_entries t' = bt_insert (<) k e (bd_entries t) \<and> td_final_bytes e = option_len v
      \<and> unat (td_writes e) = Suc (case bt_get (<) k (bd_entries t) of Some e' \<Rightarrow> unat (td_writes e') | None \<Rightarrow> 0)"
    and "bd_start t' = bd_start t" and "bd_limits t' = bd_limits t"
    and "bd_referenced t' = sum_list (map (entry_cost (bd_start t)) (bd_entries t'))"
    and "bd_referenced t' \<le> ll_referenced_bytes (bd_limits t)"
    and "length (bd_entries t') \<le> max (length (bd_entries t)) (ll_delta_entries (bd_limits t))"
proof -
  have "(\<exists>e. bd_entries t' = bt_insert (<) k e (bd_entries t) \<and> td_final_bytes e = option_len v
      \<and> unat (td_writes e) = Suc (case bt_get (<) k (bd_entries t) of Some e' \<Rightarrow> unat (td_writes e') | None \<Rightarrow> 0))
    \<and> bd_start t' = bd_start t \<and> bd_limits t' = bd_limits t
    \<and> bd_referenced t' = sum_list (map (entry_cost (bd_start t)) (bd_entries t'))
    \<and> bd_referenced t' \<le> ll_referenced_bytes (bd_limits t)
    \<and> length (bd_entries t') \<le> max (length (bd_entries t)) (ll_delta_entries (bd_limits t))"
  proof (cases "bt_get (<) k (bd_entries t)")
    case None
    define e where "e = \<lparr>td_writes = 1, td_final_bytes = option_len v\<rparr>"
    have len: "length (bd_entries t) < ll_delta_entries (bd_limits t)"
      and t': "t' = t\<lparr>bd_entries := bt_insert (<) k e (bd_entries t), bd_referenced := bd_referenced t
          + key_len k + option_len (bt_get (<) k (bd_start t)) + option_len v\<rparr>"
      and lim: "bd_referenced t' \<le> ll_referenced_bytes (bd_limits t)"
      using rw None
      by (auto simp: record_write_def Let_def rbind_Inr_iff ok_or_Inr_iff encoded_len_Inr checked_add_usize_def
          bind_eq_Some_conv e_def split: if_splits)
    have "sum_list (map (entry_cost (bd_start t)) (bd_entries t')) = bd_referenced t'"
      using sum_bt_insert_fresh [OF None sorted, of "entry_cost (bd_start t)" e] refd
      by (simp add: t' entry_cost_def e_def)
    then show ?thesis using lim len None lin.length_bt_insert [OF sorted, of k e] by (auto simp: t' e_def)
  next
    case (Some u)
    obtain n where n: "checked_succ (td_writes u) = Some n"
      and le: "td_final_bytes u \<le> bd_referenced t"
      and t': "t' = t\<lparr>bd_entries := bt_insert (<) k \<lparr>td_writes = n, td_final_bytes = option_len v\<rparr> (bd_entries t),
        bd_referenced := bd_referenced t - td_final_bytes u + option_len v\<rparr>"
      and lim: "bd_referenced t' \<le> ll_referenced_bytes (bd_limits t)"
      using rw Some
      by (auto simp: record_write_def Let_def rbind_Inr_iff ok_or_Inr_iff checked_add_usize_def checked_sub_usize_def
          bind_eq_Some_conv split: if_splits)
    have "sum_list (map (entry_cost (bd_start t)) (bd_entries t')) = bd_referenced t'"
      using sum_bt_insert_present [OF Some sorted, of "entry_cost (bd_start t)" "\<lparr>td_writes = n, td_final_bytes = option_len v\<rparr>"] refd le
      by (simp add: t' entry_cost_def)
    then show ?thesis using lim Some lin.length_bt_insert [OF sorted, of k] unat_checked_succ [OF n]
      by (auto simp: t')
  qed
  then show "\<exists>e. bd_entries t' = bt_insert (<) k e (bd_entries t) \<and> td_final_bytes e = option_len v
      \<and> unat (td_writes e) = Suc (case bt_get (<) k (bd_entries t) of Some e' \<Rightarrow> unat (td_writes e') | None \<Rightarrow> 0)"
    "bd_start t' = bd_start t" "bd_limits t' = bd_limits t"
    "bd_referenced t' = sum_list (map (entry_cost (bd_start t)) (bd_entries t'))"
    "bd_referenced t' \<le> ll_referenced_bytes (bd_limits t)"
    "length (bd_entries t') \<le> max (length (bd_entries t)) (ll_delta_entries (bd_limits t))"
    by blast+
qed

lemma apply_mutation_ok:
  assumes ok: "working_ok start limits s" and app: "apply_mutation mut s = Inr t"
  shows "working_ok start limits t"
proof -
  obtain a where a: "am_key a = mutation_key mut" "am_current a = mutation_value mut"
      "am_previous a = bt_get (<) (am_key a) (ws_candidate s)"
      "ws_applied t = ws_applied s @ [a]" "ws_candidate t = redo_mutation a (ws_candidate s)"
      "record_write (am_key a) (am_current a) (ws_tracker s) = Inr (ws_tracker t)"
    using apply_mutation_Inr [OF app] by blast
  have sorted: "bt_sorted (<) (ws_candidate s)" "bt_sorted (<) (bd_entries (ws_tracker s))"
    using ok by (simp_all add: working_ok_def)
  have refd: "bd_referenced (ws_tracker s) = sum_list (map (entry_cost (bd_start (ws_tracker s))) (bd_entries (ws_tracker s)))"
    using ok by (simp add: working_ok_def)
  note rw = record_write_Inr [OF a(6) sorted(2) refd]
  obtain e where e: "bd_entries (ws_tracker t) = bt_insert (<) (am_key a) e (bd_entries (ws_tracker s))"
      "td_final_bytes e = option_len (am_current a)"
      "unat (td_writes e) = Suc (case bt_get (<) (am_key a) (bd_entries (ws_tracker s)) of
         Some e' \<Rightarrow> unat (td_writes e') | None \<Rightarrow> 0)" using rw(1) by blast
  have get: "bt_get (<) k (bd_entries (ws_tracker t)) = (if k = am_key a then Some e else bt_get (<) k (bd_entries (ws_tracker s)))"
    "bt_get (<) k (ws_candidate t) = (if k = am_key a then am_current a else bt_get (<) k (ws_candidate s))" for k
    using sorted by (simp_all add: e(1) lin.bt_get_insert a(5) bt_get_redo)
  have count: "touched k (ws_applied t) = touched k (ws_applied s) + (if k = am_key a then 1 else 0)" for k
    by (simp add: touched_def a(4))
  have writes: "unat (td_writes e) = Suc (touched (am_key a) (ws_applied s))"
    using ok e(3) by (auto simp: working_ok_def split: option.splits)
  have "replay (ws_applied t) start = ws_candidate t" "undo (ws_applied t) (ws_candidate t) = start"
    using ok undo_redo [OF sorted(1) a(3)] by (simp_all add: working_ok_def a(4,5) replay_snoc undo_snoc)
  moreover have "bt_sorted (<) (ws_candidate t)" "bt_sorted (<) (bd_entries (ws_tracker t))"
    using sorted by (simp_all add: a(5) redo_sorted e(1) lin.bt_sorted_insert)
  ultimately show ?thesis using ok rw(2-6) get count writes e(2) by (simp add: working_ok_def)
qed

lemma apply_mutations_ok:
  "working_ok start limits s \<Longrightarrow> apply_mutations ms s = Inr t \<Longrightarrow> working_ok start limits t"
  unfolding apply_mutations_def
  by (induction ms arbitrary: s) (auto simp: rbind_Inr_iff dest: apply_mutation_ok)

lemma apply_events_ok:
  "working_ok start limits s \<Longrightarrow> rfold (apply_event l ctx) es (s, n) = Inr (t, m) \<Longrightarrow> working_ok start limits t"
proof (induction es arbitrary: s n)
  case (Cons e es)
  then obtain u k where "apply_event l ctx e (s, n) = Inr (u, k)" "rfold (apply_event l ctx) es (u, k) = Inr (t, m)"
    by (auto simp: rbind_Inr_iff)
  moreover from this have "working_ok start limits u"
    using Cons.prems(1) apply_mutations_ok by (auto simp: apply_event_def rbind_Inr_iff split: if_splits)
  ultimately show ?case using Cons.IH by blast
qed simp

definition start_working :: "canonical_ledger \<Rightarrow> working_state" where
  "start_working l = \<lparr>ws_candidate = si_entries (cl_state l), ws_applied = [],
     ws_tracker = tracker_new (si_entries (cl_state l)) (cl_limits l)\<rparr>"

lemma start_working_ok: "bt_sorted (<) (si_entries (cl_state l)) \<Longrightarrow>
    working_ok (si_entries (cl_state l)) (cl_limits l) (start_working l)"
  by (simp add: working_ok_def start_working_def tracker_new_def replay_def undo_def touched_def)

text \<open>What a prepared block consists of.\<close>

lemma prepare_Ready:
  assumes "prepare_block derive l b = Inr (Ready p)"
  shows "reducer_set_version (cl_reducer l) = si_version (cl_state l)"
    and "b_chain_id b = si_chain_id (cl_state l)"
    and "admit_confirmation (b_confirmation_class b) = AdmitCommitted"
    and "ledger_next_height l = Inr (b_block_height b)"
    and "\<exists>ctx s n. rfold (apply_event l ctx) (b_events b) (start_working l, 0) = Inr (s, n)
      \<and> p = (let w = \<lparr>wm_block_height = b_block_height b, wm_block_hash = b_canonical_block_hash b\<rparr>;
                 next_state = image_commit w (ws_candidate s) (cl_state l) in
             \<lparr>pb_next_state = next_state,
              pb_delta = \<lparr>sd_checkpoint = checkpoint_from l w (state_hash derive next_state),
                sd_before_hash = cl_state_hash l, sd_mutations = ws_applied s,
                sd_event_count = of_nat (length (b_events b))\<rparr>\<rparr>)"
    and "length (b_events b) < 2 ^ 64"
  using assms
  by (auto simp: prepare_block_def rbind_Inr_iff validate_boundary_def validate_next_height_def
      require_committed_confirmation_def start_working_def Let_def
      split: if_splits option.splits confirmation_admission.splits)

section \<open>Properties\<close>

lemma apply_Applied:
  assumes "apply_block derive b l = (Inr (Applied d), l')"
  shows "\<exists>p. prepare_block derive l b = Inr (Ready p) \<and> d = pb_delta p
    \<and> l' = l\<lparr>cl_state := pb_next_state p, cl_state_hash := ck_state_hash (sd_checkpoint d)\<rparr>"
  using assms
  by (auto simp: apply_block_def commit_prepared_def rmap_Inr_iff split: sum.splits prepare_outcome.splits if_splits)

lemma apply_not_Applied:
  assumes "apply_block derive b l = (r, l')" and "\<nexists>d. r = Inr (Applied d)"
  shows "l' = l"
  using assms
  by (auto simp: apply_block_def commit_prepared_def split: sum.splits prepare_outcome.splits if_splits)

lemma duplicate_AlreadyPrepared:
  "prepare_block derive l b = Inr (AlreadyPrepared c) \<Longrightarrow>
   \<exists>w. si_watermark (cl_state l) = Some w \<and> b_block_height b = wm_block_height w
     \<and> b_canonical_block_hash b = wm_block_hash w \<and> c = checkpoint_from l w (cl_state_hash l)"
  by (auto simp: prepare_block_def rbind_Inr_iff duplicate_checkpoint_def Let_def
      split: if_splits option.splits)

text \<open>The state after a block, in terms of the state before it.\<close>

lemma applied_state:
  assumes sorted: "bt_sorted (<) (si_entries (cl_state l))"
    and app: "apply_block derive b l = (Inr (Applied d), l')"
  shows "cl_state l' = image_commit \<lparr>wm_block_height = b_block_height b, wm_block_hash = b_canonical_block_hash b\<rparr>
      (replay (sd_mutations d) (si_entries (cl_state l))) (cl_state l)"
    and "undo (sd_mutations d) (si_entries (cl_state l')) = si_entries (cl_state l)"
    and "bt_sorted (<) (si_entries (cl_state l'))"
    and "cl_state_hash l' = state_hash derive (cl_state l')"
    and "cl_reducer l' = cl_reducer l" and "cl_limits l' = cl_limits l"
    and "sd_before_hash d = cl_state_hash l" and "sd_event_count d = of_nat (length (b_events b))"
    and "ledger_checkpoint l' = Some (sd_checkpoint d)"
    and "ck_state_hash (sd_checkpoint d) = state_hash derive (cl_state l')"
proof -
  obtain p where p: "prepare_block derive l b = Inr (Ready p)" "d = pb_delta p"
      and l': "l' = l\<lparr>cl_state := pb_next_state p, cl_state_hash := ck_state_hash (sd_checkpoint d)\<rparr>"
    using apply_Applied [OF app] by blast
  obtain ctx s n where s: "rfold (apply_event l ctx) (b_events b) (start_working l, 0) = Inr (s, n)"
    and pe: "p = (let w = \<lparr>wm_block_height = b_block_height b, wm_block_hash = b_canonical_block_hash b\<rparr>;
        next_state = image_commit w (ws_candidate s) (cl_state l) in
      \<lparr>pb_next_state = next_state, pb_delta = \<lparr>sd_checkpoint = checkpoint_from l w (state_hash derive next_state),
        sd_before_hash = cl_state_hash l, sd_mutations = ws_applied s,
        sd_event_count = of_nat (length (b_events b))\<rparr>\<rparr>)"
    using prepare_Ready(5) [OF p(1)] by blast
  have ok: "working_ok (si_entries (cl_state l)) (cl_limits l) s"
    using apply_events_ok [OF start_working_ok [OF sorted] s] .
  then show "cl_state l' = image_commit \<lparr>wm_block_height = b_block_height b, wm_block_hash = b_canonical_block_hash b\<rparr>
      (replay (sd_mutations d) (si_entries (cl_state l))) (cl_state l)"
    "undo (sd_mutations d) (si_entries (cl_state l')) = si_entries (cl_state l)"
    "bt_sorted (<) (si_entries (cl_state l'))"
    by (simp_all add: l' p(2) pe image_commit_def Let_def working_ok_def)
  show "cl_state_hash l' = state_hash derive (cl_state l')" "cl_reducer l' = cl_reducer l" "cl_limits l' = cl_limits l"
    "sd_before_hash d = cl_state_hash l" "sd_event_count d = of_nat (length (b_events b))"
    "ledger_checkpoint l' = Some (sd_checkpoint d)" "ck_state_hash (sd_checkpoint d) = state_hash derive (cl_state l')"
    by (simp_all add: l' p(2) pe checkpoint_from_def image_commit_def Let_def ledger_checkpoint_def)
qed

lemma applied_block:
  assumes "apply_block derive b l = (Inr (Applied d), l')"
  shows "ledger_next_height l = Inr (b_block_height b)" "b_chain_id b = si_chain_id (cl_state l)"
    "admit_confirmation (b_confirmation_class b) = AdmitCommitted" "length (b_events b) < 2 ^ 64"
    "reducer_set_version (cl_reducer l) = si_version (cl_state l)"
proof -
  obtain p where p: "prepare_block derive l b = Inr (Ready p)" using apply_Applied [OF assms] by blast
  show "ledger_next_height l = Inr (b_block_height b)" "b_chain_id b = si_chain_id (cl_state l)"
    "admit_confirmation (b_confirmation_class b) = AdmitCommitted" "length (b_events b) < 2 ^ 64"
    "reducer_set_version (cl_reducer l) = si_version (cl_state l)"
    by (rule prepare_Ready [OF p])+
qed

text \<open>
  C4. Applying a block is atomic. When it fails, or when the block is already applied, the
  ledger is unchanged. When it succeeds, the block was the next height of the ledger's
  chain, the new entries are the old ones with the mutations of the delta replayed and
  undoing these mutations restores the old entries, the watermark and the reported
  checkpoint are those of the block and of the new state, and applying the same block once
  more reports exactly that checkpoint and changes nothing.
\<close>

theorem ledger_apply_atomic:
  assumes "bt_sorted (<) (si_entries (cl_state l))" and "apply_block derive b l = (r, l')"
  shows "case r of
      Inl e \<Rightarrow> l' = l
    | Inr (AlreadyApplied c) \<Rightarrow> l' = l \<and> ledger_checkpoint l = Some c
        \<and> ck_block_height c = b_block_height b \<and> ck_block_hash c = b_canonical_block_hash b
    | Inr (Applied d) \<Rightarrow>
        ledger_next_height l = Inr (b_block_height b) \<and> b_chain_id b = si_chain_id (cl_state l)
        \<and> cl_state l' = (cl_state l)\<lparr>si_watermark := Some \<lparr>wm_block_height = b_block_height b,
              wm_block_hash = b_canonical_block_hash b\<rparr>,
            si_entries := replay (sd_mutations d) (si_entries (cl_state l))\<rparr>
        \<and> undo (sd_mutations d) (si_entries (cl_state l')) = si_entries (cl_state l)
        \<and> sd_before_hash d = cl_state_hash l \<and> cl_state_hash l' = state_hash derive (cl_state l')
        \<and> ck_state_hash (sd_checkpoint d) = cl_state_hash l'
        \<and> unat (sd_event_count d) = length (b_events b)
        \<and> ledger_checkpoint l' = Some (sd_checkpoint d)
        \<and> apply_block derive b l' = (Inr (AlreadyApplied (sd_checkpoint d)), l')"
proof (cases "\<exists>d. r = Inr (Applied d)")
  case False
  then have l': "l' = l" using apply_not_Applied [OF assms(2)] by blast
  show ?thesis
  proof (cases r)
    case (Inr out)
    then obtain c where c: "out = AlreadyApplied c" using False by (cases out) auto
    then have "prepare_block derive l b = Inr (AlreadyPrepared c)"
      using assms(2) Inr by (auto simp: apply_block_def commit_prepared_def rmap_Inr_iff split: sum.splits prepare_outcome.splits if_splits)
    then show ?thesis using duplicate_AlreadyPrepared l' Inr c
      by (fastforce simp: ledger_checkpoint_def checkpoint_from_def)
  qed (simp add: l')
next
  case True
  then obtain d where r: "r = Inr (Applied d)" by blast
  note app = assms(2) [unfolded r]
  note st = applied_state [OF assms(1) app] and bl = applied_block [OF app]
  have "prepare_block derive l' b = Inr (AlreadyPrepared (sd_checkpoint d))"
  proof -
    have w: "si_watermark (cl_state l') = Some \<lparr>wm_block_height = b_block_height b, wm_block_hash = b_canonical_block_hash b\<rparr>"
      by (simp add: st(1) image_commit_def)
    have "validate_boundary l' b = Inr ()"
      using bl by (simp add: validate_boundary_def st(1) image_commit_def require_committed_confirmation_def)
    moreover have "duplicate_checkpoint l' b = Inr (Some (sd_checkpoint d))"
      using st(9) by (simp add: duplicate_checkpoint_def w ledger_checkpoint_def)
    moreover have "reducer_set_version (cl_reducer l') = si_version (cl_state l')"
      using bl(5) st(5) by (simp add: st(1) image_commit_def)
    ultimately show ?thesis by (simp add: prepare_block_def)
  qed
  then have "apply_block derive b l' = (Inr (AlreadyApplied (sd_checkpoint d)), l')" by (simp add: apply_block_def)
  moreover have "unat (sd_event_count d) = length (b_events b)" unfolding st(8) using bl(4) by (simp add: unat_of_nat)
  moreover have "ck_state_hash (sd_checkpoint d) = cl_state_hash l'" unfolding st(4,10) ..
  ultimately show ?thesis unfolding r sum.case apply_outcome.case
    using st(1) [unfolded image_commit_def] st(2,4,7,9) bl(1,2) by blast
qed

text \<open>A reducer that counts nothing and stores one fixed entry per event.\<close>

definition sample_reducer :: event_reducer where
  "sample_reducer = \<lparr>reducer_set_version = ''v1'', supports = (\<lambda>_. True),
     reduce_event = (\<lambda>_ _ _. Inr [Put (StateKey ''a'' [1]) [7]]),
     validate_block_delta = (\<lambda>_ _ _. Inr ())\<rparr>"

definition sample_derive :: key_derivation where
  "sample_derive = (\<lambda>_ bs. bs)"

definition sample_ledger :: canonical_ledger where
  "sample_ledger = \<lparr>cl_reducer = sample_reducer, cl_limits = ledger_limits_production,
     cl_state = empty_image ''c'' 1 ''v1'', cl_state_hash = state_hash sample_derive (empty_image ''c'' 1 ''v1'')\<rparr>"

definition sample_ledger_block :: block_envelope where
  "sample_ledger_block = \<lparr>b_chain_id = ''c'', b_block_height = 1, b_block_time = 0,
     b_confirmation_class = CommittedPrimary, b_events = [sample_event], b_source_block_hashes = [(''s'', [3])],
     b_canonical_block_hash = replicate 32 2\<rparr>"

lemma sample_ledger_new: "ledger_new sample_derive ''c'' 1 sample_reducer ledger_limits_production = Inr sample_ledger"
  by (simp add: ledger_new_def sample_ledger_def sample_reducer_def valid_reducer_version_def is_ascii_alphanumeric_def
      is_ascii_lowercase_def is_digit_def code_def Let_def)

lemma sample_applied:
  "\<exists>d l'. apply_block sample_derive sample_ledger_block sample_ledger = (Inr (Applied d), l')
     \<and> sd_mutations d = [\<lparr>am_key = StateKey ''a'' [1], am_previous = None, am_current = Some [7]\<rparr>]"
  by (simp add: apply_block_def prepare_block_def sample_ledger_def sample_reducer_def sample_ledger_block_def
      empty_image_def validate_boundary_def require_committed_confirmation_def duplicate_checkpoint_def
      validate_next_height_def ledger_next_height_def ledger_limits_production_def apply_event_def
      validate_mutations_def encoded_len_def checked_add_usize_def usize_max_def option_len_def apply_mutations_def
      record_write_def tracker_new_def MAX_BLOCK_DELTA_ENTRIES_def MAX_BLOCK_DELTA_REFERENCED_BYTES_def
      commit_prepared_def Let_def)

theorem ledger_apply_atomic_witness:
  "\<exists>d l'. apply_block sample_derive sample_ledger_block sample_ledger = (Inr (Applied d), l')
     \<and> si_entries (cl_state l') = [(StateKey ''a'' [1], [7])]
     \<and> apply_block sample_derive sample_ledger_block l' = (Inr (AlreadyApplied (sd_checkpoint d)), l')"
proof -
  obtain d l' where app: "apply_block sample_derive sample_ledger_block sample_ledger = (Inr (Applied d), l')"
    and m: "sd_mutations d = [\<lparr>am_key = StateKey ''a'' [1], am_previous = None, am_current = Some [7]\<rparr>]"
    using sample_applied by blast
  have "bt_sorted (<) (si_entries (cl_state sample_ledger))" by (simp add: sample_ledger_def empty_image_def)
  from ledger_apply_atomic [OF this app] app show ?thesis
    by (auto simp: m replay_def redo_mutation_def sample_ledger_def empty_image_def)
qed

text \<open>The blocks and the mutations an outcome adds to the history.\<close>

definition applied_blocks :: "ledger_error + apply_outcome \<Rightarrow> block_envelope \<Rightarrow> block_envelope list" where
  "applied_blocks r b = (case r of Inr (Applied d) \<Rightarrow> [b] | _ \<Rightarrow> [])"

definition applied_changes :: "ledger_error + apply_outcome \<Rightarrow> applied_mutation list" where
  "applied_changes r = (case r of Inr (Applied d) \<Rightarrow> sd_mutations d | _ \<Rightarrow> [])"

inductive ledger_run ::
  "key_derivation \<Rightarrow> event_reducer \<Rightarrow> ledger_limits \<Rightarrow> chain_id \<Rightarrow> block_height
     \<Rightarrow> block_envelope list \<Rightarrow> applied_mutation list \<Rightarrow> canonical_ledger \<Rightarrow> bool"
  for derive reducer limits chain first where
  start: "ledger_new derive chain first reducer limits = Inr l
    \<Longrightarrow> ledger_run derive reducer limits chain first [] [] l"
| step: "ledger_run derive reducer limits chain first bs ms l \<Longrightarrow> apply_block derive b l = (r, l')
    \<Longrightarrow> ledger_run derive reducer limits chain first (bs @ applied_blocks r b) (ms @ applied_changes r) l'"

definition ledger_ok ::
  "key_derivation \<Rightarrow> event_reducer \<Rightarrow> ledger_limits \<Rightarrow> chain_id \<Rightarrow> block_height
     \<Rightarrow> block_envelope list \<Rightarrow> applied_mutation list \<Rightarrow> canonical_ledger \<Rightarrow> bool" where
  "ledger_ok derive reducer limits chain first bs ms l \<longleftrightarrow>
     cl_reducer l = reducer \<and> cl_limits l = limits \<and> si_chain_id (cl_state l) = chain
     \<and> si_first_height (cl_state l) = first \<and> si_version (cl_state l) = reducer_set_version reducer
     \<and> cl_state_hash l = state_hash derive (cl_state l) \<and> bt_sorted (<) (si_entries (cl_state l))
     \<and> si_entries (cl_state l) = replay ms []
     \<and> map (\<lambda>b. unat (b_block_height b)) bs = [unat first ..< unat first + length bs]
     \<and> si_watermark (cl_state l) = (if bs = [] then None else
          Some \<lparr>wm_block_height = b_block_height (last bs), wm_block_hash = b_canonical_block_hash (last bs)\<rparr>)
     \<and> (bs = [] \<longrightarrow> ms = [])
     \<and> (\<forall>b \<in> set bs. b_chain_id b = chain \<and> admit_confirmation (b_confirmation_class b) = AdmitCommitted)"

lemma ledger_new_ok:
  "ledger_new derive chain first reducer limits = Inr l \<Longrightarrow> ledger_ok derive reducer limits chain first [] [] l"
  by (auto simp: ledger_new_def ledger_ok_def empty_image_def replay_def Let_def split: if_splits)

lemma ledger_next_after:
  assumes "ledger_ok derive reducer limits chain first bs ms l" and "ledger_next_height l = Inr h"
  shows "unat h = unat first + length bs"
proof (cases bs rule: rev_cases)
  case Nil
  then show ?thesis using assms by (auto simp: ledger_ok_def ledger_next_height_def)
next
  case (snoc cs b)
  have "map (\<lambda>b. unat (b_block_height b)) (cs @ [b]) = [unat first ..< unat first + length cs] @ [unat first + length cs]"
    using assms(1) snoc by (simp add: ledger_ok_def)
  then have "unat (b_block_height b) = unat first + length cs" by simp
  moreover have "checked_succ (b_block_height b) = Some h"
    using assms snoc by (simp add: ledger_ok_def ledger_next_height_def ok_or_Inr_iff)
  ultimately show ?thesis using snoc by (simp add: unat_checked_succ)
qed

lemma ledger_ok_step:
  assumes ok: "ledger_ok derive reducer limits chain first bs ms l" and app: "apply_block derive b l = (r, l')"
  shows "ledger_ok derive reducer limits chain first (bs @ applied_blocks r b) (ms @ applied_changes r) l'"
proof (cases "\<exists>d. r = Inr (Applied d)")
  case True
  then obtain d where r: "r = Inr (Applied d)" by blast
  note app' = app [unfolded r]
  have sorted: "bt_sorted (<) (si_entries (cl_state l))" using ok unfolding ledger_ok_def by blast
  note st = applied_state [OF sorted app'] and bl = applied_block [OF app']
  have "unat (b_block_height b) = unat first + length bs" using ledger_next_after [OF ok bl(1)] .
  moreover have "replay (ms @ sd_mutations d) [] = replay (sd_mutations d) (si_entries (cl_state l))"
    using ok by (simp add: ledger_ok_def replay_append)
  ultimately show ?thesis
    using ok st(3-6) bl(2,3) unfolding ledger_ok_def
    by (auto simp: r applied_blocks_def applied_changes_def st(1) image_commit_def)
next
  case False
  then have "applied_blocks r b = []" "applied_changes r = []"
    by (auto simp: applied_blocks_def applied_changes_def split: sum.splits apply_outcome.splits)
  then show ?thesis using ok apply_not_Applied [OF app False] by simp
qed

lemma ledger_run_ok:
  "ledger_run derive reducer limits chain first bs ms l \<Longrightarrow> ledger_ok derive reducer limits chain first bs ms l"
  by (induction rule: ledger_run.induct) (rule ledger_new_ok, assumption, rule ledger_ok_step)

text \<open>
  C10. The ledger is event sourced. In every run of a fresh ledger, whatever blocks are
  offered, the applied blocks are consecutive from the first height and of the ledger's
  chain, the watermark is the last of them, the entries are the replay of all reported
  mutations from the empty map, and the stored state hash is the hash of the state.
\<close>

theorem ledger_event_sourced:
  assumes "ledger_run derive reducer limits chain first bs ms l"
  shows "map (\<lambda>b. unat (b_block_height b)) bs = [unat first ..< unat first + length bs]
    \<and> (\<forall>b. b \<in> set bs \<longrightarrow> b_chain_id b = chain)
    \<and> si_watermark (cl_state l) = (if bs = [] then None else
         Some \<lparr>wm_block_height = b_block_height (last bs), wm_block_hash = b_canonical_block_hash (last bs)\<rparr>)
    \<and> si_entries (cl_state l) = replay ms [] \<and> bt_sorted (<) (si_entries (cl_state l))
    \<and> cl_state_hash l = state_hash derive (cl_state l)
    \<and> si_chain_id (cl_state l) = chain \<and> si_version (cl_state l) = reducer_set_version reducer"
  using ledger_run_ok [OF assms] by (auto simp: ledger_ok_def)

theorem ledger_event_sourced_witness:
  "\<exists>ms l. ledger_run sample_derive sample_reducer ledger_limits_production ''c'' 1 [sample_ledger_block] ms l
     \<and> si_entries (cl_state l) = replay ms [] \<and> ms \<noteq> []"
proof -
  obtain d l' where app: "apply_block sample_derive sample_ledger_block sample_ledger = (Inr (Applied d), l')"
    and m: "sd_mutations d \<noteq> []" using sample_applied by force
  have run: "ledger_run sample_derive sample_reducer ledger_limits_production ''c'' 1 [sample_ledger_block] (sd_mutations d) l'"
    using ledger_run.step [OF ledger_run.start [OF sample_ledger_new] app]
    by (simp add: applied_blocks_def applied_changes_def)
  with m ledger_event_sourced [OF run] show ?thesis by blast
qed

lemma touched_iff: "touched k ms \<noteq> 0 \<longleftrightarrow> k \<in> am_key ` set ms"
  by (auto simp: touched_def filter_empty_conv)

lemma delta_keys:
  assumes ok: "working_ok start limits s"
  shows "map de_key (delta_entries (ws_tracker s) final) = map fst (bd_entries (ws_tracker s))"
    and "de_key ` set (delta_entries (ws_tracker s) final) = am_key ` set (ws_applied s)"
proof -
  show keys: "map de_key (delta_entries (ws_tracker s) final) = map fst (bd_entries (ws_tracker s))"
    by (simp add: delta_entries_def split_def comp_def)
  have sorted: "bt_sorted (<) (bd_entries (ws_tracker s))" using ok by (simp add: working_ok_def)
  have "k \<in> fst ` set (bd_entries (ws_tracker s)) \<longleftrightarrow> touched k (ws_applied s) \<noteq> 0" for k
  proof -
    have "k \<in> fst ` set (bd_entries (ws_tracker s)) \<longleftrightarrow> bt_get (<) k (bd_entries (ws_tracker s)) \<noteq> None"
      using bt_get_lin_Some_iff [OF sorted, of k] by force
    moreover have "bt_get (<) k (bd_entries (ws_tracker s)) = None \<longleftrightarrow> touched k (ws_applied s) = 0"
      using ok by (simp add: working_ok_def)
    ultimately show ?thesis by simp
  qed
  then show "de_key ` set (delta_entries (ws_tracker s) final) = am_key ` set (ws_applied s)"
    using keys touched_iff by (metis set_eqI set_map)
qed

lemma delta_entry:
  assumes ok: "working_ok start limits s" and e: "e \<in> set (delta_entries (ws_tracker s) (ws_candidate s))"
  shows "de_start e = bt_get (<) (de_key e) start" and "de_final e = bt_get (<) (de_key e) (ws_candidate s)"
    and "unat (de_writes e) = touched (de_key e) (ws_applied s)"
proof -
  obtain k t where kt: "(k, t) \<in> set (bd_entries (ws_tracker s))" "e = \<lparr>de_key = k, de_start = bt_get (<) k (bd_start (ws_tracker s)),
      de_final = bt_get (<) k (ws_candidate s), de_writes = td_writes t\<rparr>"
    using e by (auto simp: delta_entries_def)
  have sorted: "bt_sorted (<) (bd_entries (ws_tracker s))" using ok by (simp add: working_ok_def)
  have "bt_get (<) k (bd_entries (ws_tracker s)) = Some t" using lin.bt_get_in [OF sorted kt(1)] .
  then show "de_start e = bt_get (<) (de_key e) start" "de_final e = bt_get (<) (de_key e) (ws_candidate s)"
    "unat (de_writes e) = touched (de_key e) (ws_applied s)"
    using ok kt(2) by (simp_all add: working_ok_def)
qed

lemma delta_cost:
  assumes ok: "working_ok start limits s"
  shows "(\<Sum>e\<leftarrow>delta_entries (ws_tracker s) (ws_candidate s). key_len (de_key e) + option_len (de_start e) + option_len (de_final e))
    = bd_referenced (ws_tracker s)"
proof -
  have "key_len k + option_len (bt_get (<) k start) + option_len (bt_get (<) k (ws_candidate s)) = entry_cost start (k, t)"
    if "(k, t) \<in> set (bd_entries (ws_tracker s))" for k t
  proof -
    have sorted: "bt_sorted (<) (bd_entries (ws_tracker s))" using ok by (simp add: working_ok_def)
    have "bt_get (<) k (bd_entries (ws_tracker s)) = Some t" using lin.bt_get_in [OF sorted that] .
    then show ?thesis using ok by (simp add: working_ok_def entry_cost_def)
  qed
  moreover have "bd_start (ws_tracker s) = start" "bd_referenced (ws_tracker s) = sum_list (map (entry_cost start) (bd_entries (ws_tracker s)))"
    using ok by (simp_all add: working_ok_def)
  ultimately show ?thesis
    by (auto simp: delta_entries_def comp_def split_def intro!: arg_cong [where f = sum_list] map_cong)
qed

text \<open>
  C39. The block delta shown to the reducer is exact and bounded: it lists, in key order,
  precisely the keys that the events of the block have written, each with its value before
  the block, its value after all events and the number of writes; every other key has kept
  its value, and the number of keys and the bytes they refer to are within the limits.
\<close>

theorem block_delta_exact:
  assumes "bt_sorted (<) (si_entries (cl_state l))"
    and "rfold (apply_event l ctx) es (start_working l, 0) = Inr (s, n)"
    and "delta = delta_entries (ws_tracker s) (ws_candidate s)"
  shows "sorted_wrt (<) (map de_key delta)
    \<and> de_key ` set delta = am_key ` set (ws_applied s)
    \<and> (\<forall>e \<in> set delta. de_start e = bt_get (<) (de_key e) (si_entries (cl_state l))
        \<and> de_final e = bt_get (<) (de_key e) (ws_candidate s)
        \<and> unat (de_writes e) = length (filter (\<lambda>m. am_key m = de_key e) (ws_applied s)))
    \<and> (\<forall>k. k \<notin> de_key ` set delta \<longrightarrow> bt_get (<) k (ws_candidate s) = bt_get (<) k (si_entries (cl_state l)))
    \<and> length delta \<le> ll_delta_entries (cl_limits l)
    \<and> (\<Sum>e\<leftarrow>delta. key_len (de_key e) + option_len (de_start e) + option_len (de_final e)) \<le> ll_referenced_bytes (cl_limits l)"
proof -
  have ok: "working_ok (si_entries (cl_state l)) (cl_limits l) s"
    using apply_events_ok [OF start_working_ok [OF assms(1)] assms(2)] .
  note keys = delta_keys [OF ok, of "ws_candidate s", folded assms(3)]
  have "sorted_wrt (<) (map de_key delta)"
    using ok by (simp add: keys(1) working_ok_def bt_sorted_def sorted_wrt_map)
  moreover have "\<forall>k. k \<notin> de_key ` set delta \<longrightarrow> bt_get (<) k (ws_candidate s) = bt_get (<) k (si_entries (cl_state l))"
  proof (intro allI impI)
    fix k assume "k \<notin> de_key ` set delta"
    then have "touched k (ws_applied s) = 0" using touched_iff [of k "ws_applied s"] keys(2) by auto
    then show "bt_get (<) k (ws_candidate s) = bt_get (<) k (si_entries (cl_state l))" using ok by (simp add: working_ok_def)
  qed
  moreover have "length delta \<le> ll_delta_entries (cl_limits l)"
    using ok map_eq_imp_length_eq [OF keys(1)] by (simp add: working_ok_def)
  moreover have "bd_referenced (ws_tracker s) \<le> ll_referenced_bytes (cl_limits l)" using ok by (simp add: working_ok_def)
  ultimately show ?thesis
    using keys(2) delta_entry [OF ok] delta_cost [OF ok] unfolding assms(3) touched_def by simp
qed

theorem block_delta_exact_witness:
  "\<exists>s n. rfold (apply_event sample_ledger \<lparr>ac_chain_id = ''c'', ac_block_height = 1, ac_block_time = 0,
       ac_confirmation_class = CommittedPrimary\<rparr>) [sample_event, sample_event] (start_working sample_ledger, 0) = Inr (s, n)
     \<and> de_key ` set (delta_entries (ws_tracker s) (ws_candidate s)) = {StateKey ''a'' [1]}"
proof -
  let ?ctx = "\<lparr>ac_chain_id = ''c'', ac_block_height = 1, ac_block_time = 0, ac_confirmation_class = CommittedPrimary\<rparr>"
  have "\<exists>s n. rfold (apply_event sample_ledger ?ctx) [sample_event, sample_event] (start_working sample_ledger, 0) = Inr (s, n)
      \<and> am_key ` set (ws_applied s) = {StateKey ''a'' [1]}"
    by (simp add: sample_ledger_def sample_reducer_def start_working_def empty_image_def
      ledger_limits_production_def apply_event_def checked_sub_usize_def checked_succ_def
      validate_mutations_def encoded_len_def checked_add_usize_def usize_max_def option_len_def apply_mutations_def
      record_write_def tracker_new_def MAX_BLOCK_DELTA_ENTRIES_def MAX_BLOCK_DELTA_REFERENCED_BYTES_def Let_def)
  then obtain s n where s: "rfold (apply_event sample_ledger ?ctx) [sample_event, sample_event] (start_working sample_ledger, 0) = Inr (s, n)"
    "am_key ` set (ws_applied s) = {StateKey ''a'' [1]}" by blast
  have "bt_sorted (<) (si_entries (cl_state sample_ledger))" by (simp add: sample_ledger_def empty_image_def)
  from block_delta_exact [OF this s(1) refl, THEN conjunct2, THEN conjunct1] s(2)
  have "de_key ` set (delta_entries (ws_tracker s) (ws_candidate s)) = {StateKey ''a'' [1]}" by simp
  then show ?thesis using s(1) by blast
qed

section \<open>Restarting from an image\<close>

text \<open>
  Keys of the mutations come from \<^verbatim>\<open>StateKey::try_new\<close>; a reducer can build them in no other
  way, the fields are private.
\<close>

definition key_constructed :: "state_key \<Rightarrow> bool" where
  "key_constructed k \<longleftrightarrow> state_key_new (sk_namespace k) (sk_key k) = Inr k"

definition reducer_keys_ok :: "event_reducer \<Rightarrow> bool" where
  "reducer_keys_ok r \<longleftrightarrow>
     (\<forall>entries e ctx ms m. reduce_event r entries e ctx = Inr ms \<longrightarrow> m \<in> set ms \<longrightarrow> key_constructed (mutation_key m))"

definition entry_fits :: "ledger_limits \<Rightarrow> state_key \<times> bytes \<Rightarrow> bool" where
  "entry_fits limits = (\<lambda>(k, v). key_constructed k \<and> key_len k \<le> ll_key_bytes limits \<and> length v \<le> ll_value_bytes limits)"

definition change_fits :: "ledger_limits \<Rightarrow> applied_mutation \<Rightarrow> bool" where
  "change_fits limits m \<longleftrightarrow> (\<forall>v. am_current m = Some v \<longrightarrow> entry_fits limits (am_key m, v))"

lemma validated_fits:
  assumes "validate_mutation_list limits seen ms n = Inr k" and "m \<in> set ms"
  shows "key_len (mutation_key m) \<le> ll_key_bytes limits \<and> option_len (mutation_value m) \<le> ll_value_bytes limits"
  using assms
  by (induction ms arbitrary: seen n) (auto simp: Let_def rbind_Inr_iff encoded_len_Inr split: if_splits)

lemma applied_changes_fit:
  "apply_mutations ms s = Inr t \<Longrightarrow> \<forall>m \<in> set ms. key_constructed (mutation_key m)
      \<and> key_len (mutation_key m) \<le> ll_key_bytes limits \<and> option_len (mutation_value m) \<le> ll_value_bytes limits
   \<Longrightarrow> list_all (change_fits limits) (ws_applied s) \<Longrightarrow> list_all (change_fits limits) (ws_applied t)"
  unfolding apply_mutations_def
proof (induction ms arbitrary: s)
  case (Cons m ms)
  then obtain u where u: "apply_mutation m s = Inr u" "rfold apply_mutation ms u = Inr t"
    by (auto simp: rbind_Inr_iff)
  obtain a where "am_key a = mutation_key m" "am_current a = mutation_value m" "ws_applied u = ws_applied s @ [a]"
    using apply_mutation_Inr [OF u(1)] by blast
  then have "change_fits limits a" "ws_applied u = ws_applied s @ [a]"
    using Cons.prems(2) by (auto simp: change_fits_def entry_fits_def option_len_def)
  then have "list_all (change_fits limits) (ws_applied u)" using Cons.prems(3) by simp
  then show ?case using Cons.IH [OF u(2)] Cons.prems(2) by simp
qed simp

lemma events_changes_fit:
  assumes "reducer_keys_ok (cl_reducer l)" and "rfold (apply_event l ctx) es (s, n) = Inr (t, m)"
    and "list_all (change_fits (cl_limits l)) (ws_applied s)"
  shows "list_all (change_fits (cl_limits l)) (ws_applied t)"
  using assms(2,3)
proof (induction es arbitrary: s n)
  case (Cons e es)
  then obtain u k where u: "apply_event l ctx e (s, n) = Inr (u, k)" "rfold (apply_event l ctx) es (u, k) = Inr (t, m)"
    by (auto simp: rbind_Inr_iff)
  then obtain ms where ms: "reduce_event (cl_reducer l) (ws_candidate s) e ctx = Inr ms"
      "validate_mutations (cl_limits l) ms n = Inr k" "apply_mutations ms s = Inr u"
    by (auto simp: apply_event_def rbind_Inr_iff map_err_Inr_iff split: if_splits)
  have "\<forall>m \<in> set ms. key_constructed (mutation_key m) \<and> key_len (mutation_key m) \<le> ll_key_bytes (cl_limits l)
      \<and> option_len (mutation_value m) \<le> ll_value_bytes (cl_limits l)"
    using ms(1,2) assms(1) validated_fits
    by (fastforce simp: validate_mutations_def reducer_keys_ok_def split: if_splits)
  then show ?case using Cons.IH [OF u(2)] applied_changes_fit [OF ms(3)] Cons.prems(2) by blast
qed simp

lemma run_changes_fit:
  assumes "reducer_keys_ok reducer" and "ledger_run derive reducer limits chain first bs ms l"
  shows "list_all (change_fits limits) ms"
  using assms(2)
proof (induction rule: ledger_run.induct)
  case (step bs ms l b r l')
  have "list_all (change_fits limits) (applied_changes r)"
  proof (cases "\<exists>d. r = Inr (Applied d)")
    case True
    then obtain d where r: "r = Inr (Applied d)" by blast
    obtain p where p: "prepare_block derive l b = Inr (Ready p)" "d = pb_delta p"
      using apply_Applied [OF step.hyps(2) [unfolded r]] by blast
    obtain ctx s n where s: "rfold (apply_event l ctx) (b_events b) (start_working l, 0) = Inr (s, n)"
      "sd_mutations d = ws_applied s"
      using prepare_Ready(5) [OF p(1)] p(2) by (auto simp: Let_def)
    have "cl_reducer l = reducer" "cl_limits l = limits"
      using ledger_run_ok [OF step.hyps(1)] by (simp_all add: ledger_ok_def)
    then show ?thesis using events_changes_fit [OF _ s(1)] assms(1) s(2)
      by (simp add: r applied_changes_def start_working_def)
  qed (auto simp: applied_changes_def split: sum.splits apply_outcome.splits)
  then show ?case using step.IH by simp
qed simp

lemma set_bt_insert_subset: "set (bt_insert (<) k v m) \<subseteq> insert (k :: 'k::linorder, v) (set m)"
  by (induction m) (auto split: if_splits)

lemma replay_fits:
  "list_all (change_fits limits) ms \<Longrightarrow> list_all (entry_fits limits) m \<Longrightarrow> list_all (entry_fits limits) (replay ms m)"
proof (induction ms arbitrary: m)
  case (Cons a ms)
  have "list_all (entry_fits limits) (redo_mutation a m)"
  proof (cases "am_current a")
    case None
    have "set (bt_remove (<) k m) \<subseteq> set m" for k by (induction m) (auto split: if_splits)
    then show ?thesis using None Cons.prems(2) by (auto simp: redo_mutation_def list_all_iff)
  next
    case (Some v)
    have "set (bt_insert (<) (am_key a) v m) \<subseteq> insert (am_key a, v) (set m)"
      by (rule set_bt_insert_subset)
    then show ?thesis using Some Cons.prems by (auto simp: redo_mutation_def list_all_iff change_fits_def)
  qed
  then show ?case using Cons.IH Cons.prems(1) by (simp add: replay_def)
qed (simp add: replay_def)



end
