(* ===== verification/Commit_Pipeline.thy ===== *)
theory Commit_Pipeline
  imports Sequencer Ledger
begin

text \<open>
  The committed path of the system: the blocks that the sequencer of \<^verbatim>\<open>services/hl-capture\<close>
  commits are applied, in this order, by the ledger of \<^verbatim>\<open>crates/canonical-ledger\<close>. The two
  components check heights, chains and confirmations independently; this theory shows that
  their checks agree.
\<close>

section \<open>The ledger behind the sequencer\<close>

text \<open>The errors that concern the content of a block, not its place in the chain.\<close>

fun content_error :: "ledger_error \<Rightarrow> bool" where
  "content_error (UnsupportedEvent _ _) = True"
| "content_error (ReducerFailed _) = True"
| "content_error MutationLimitExceeded = True"
| "content_error (InvalidMutation _) = True"
| "content_error _ = False"

lemma encoded_len_Inl: "encoded_len k = Inl e \<Longrightarrow> content_error e"
  by (auto simp: encoded_len_def ok_or_Inl_iff)

lemma validate_list_Inl: "validate_mutation_list limits seen ms n = Inl e \<Longrightarrow> content_error e"
  by (induction ms arbitrary: seen n)
     (auto simp: Let_def rbind_Inl_iff ok_or_Inl_iff split: if_splits dest: encoded_len_Inl)

lemma record_write_Inl: "record_write k v t = Inl e \<Longrightarrow> content_error e"
  by (auto simp: record_write_def Let_def rbind_Inl_iff ok_or_Inl_iff split: option.splits if_splits dest: encoded_len_Inl)

lemma apply_mutation_Inl: "apply_mutation m s = Inl e \<Longrightarrow> content_error e"
  by (cases m) (auto simp: rbind_Inl_iff split: option.splits dest: record_write_Inl)

lemma apply_mutations_Inl: "apply_mutations ms s = Inl e \<Longrightarrow> content_error e"
  unfolding apply_mutations_def
  by (induction ms arbitrary: s) (auto simp: rbind_Inl_iff dest: apply_mutation_Inl)

lemma apply_event_Inl: "apply_event l ctx e sn = Inl err \<Longrightarrow> content_error err"
  by (cases sn) (auto simp: apply_event_def rbind_Inl_iff map_err_Inl_iff validate_mutations_def
      split: if_splits dest: validate_list_Inl apply_mutations_Inl)

lemma apply_events_Inl: "rfold (apply_event l ctx) es sn = Inl err \<Longrightarrow> content_error err"
proof (induction es arbitrary: sn)
  case (Cons e es)
  then show ?case by (cases "apply_event l ctx e sn") (auto dest: apply_event_Inl)
qed simp

lemma prepare_in_order:
  assumes "reducer_set_version (cl_reducer l) = si_version (cl_state l)"
    and "b_chain_id b = si_chain_id (cl_state l)" and "committed_class b"
    and "ledger_next_height l = Inr (b_block_height b)"
  shows "(\<exists>p. prepare_block derive l b = Inr (Ready p) \<and> sd_before_hash (pb_delta p) = cl_state_hash l)
    \<or> (\<exists>e. prepare_block derive l b = Inl e \<and> content_error e)"
proof -
  have "validate_boundary l b = Inr ()"
    using assms(2,3) by (auto simp: validate_boundary_def require_committed_confirmation_def committed_class_def)
  moreover have "duplicate_checkpoint l b = Inr None"
    using assms(4) by (auto simp: duplicate_checkpoint_def ledger_next_height_def ok_or_Inr_iff checked_succ_Some_iff
        split: option.splits)
  moreover have "validate_next_height l (b_block_height b) = Inr ()"
    using assms(4) by (simp add: validate_next_height_def)
  ultimately have facts: "validate_boundary l b = Inr ()" "duplicate_checkpoint l b = Inr None"
    "validate_next_height l (b_block_height b) = Inr ()" by simp_all
  show ?thesis
  proof (cases "prepare_block derive l b")
    case (Inl e)
    then have "content_error e" using facts assms(1)
      by (auto simp: prepare_block_def rbind_Inl_iff map_err_Inl_iff Let_def dest: apply_events_Inl split: if_splits)
    then show ?thesis using Inl by simp
  next
    case (Inr out)
    then show ?thesis using facts assms(1)
      by (auto simp: prepare_block_def rbind_Inr_iff Let_def split: if_splits)
  qed
qed

lemma prepare_empty_watermark_only:
  assumes "reducer_set_version (cl_reducer l) = si_version (cl_state l)"
    and "b_chain_id b = si_chain_id (cl_state l)" and "committed_class b"
    and "ledger_next_height l = Inr (b_block_height b)"
    and "cl_reducer l = watermark_only_reducer" and "b_events b = []"
  shows "\<exists>p. prepare_block derive l b = Inr (Ready p)"
proof (cases "prepare_block derive l b")
  case (Inl e)
  then have "\<exists>e. prepare_block derive l b = Inl e \<and> content_error e" using prepare_in_order [OF assms(1-4), of derive] by auto
  have "validate_boundary l b = Inr ()" "duplicate_checkpoint l b = Inr None" "validate_next_height l (b_block_height b) = Inr ()"
    using assms(2-4)
    by (auto simp: validate_boundary_def require_committed_confirmation_def committed_class_def duplicate_checkpoint_def
        ledger_next_height_def ok_or_Inr_iff checked_succ_Some_iff validate_next_height_def split: option.splits)
  then show ?thesis using assms(1,5,6)
    by (simp add: prepare_block_def Let_def watermark_only_reducer_def default_validate_block_def)
qed (use prepare_in_order [OF assms(1-4), of derive] in auto)

lemma checked_succ_unat: "unat v = Suc (unat w) \<Longrightarrow> checked_succ w = Some (v :: 'a::len word)"
proof -
  assume v: "unat v = Suc (unat w)"
  have "v = of_nat (unat v)" by simp
  also have "\<dots> = w + 1" unfolding v by simp
  finally have "v = w + 1" .
  moreover from this have "w \<noteq> - 1" using v by auto
  ultimately show ?thesis by (simp add: checked_succ_def)
qed

text \<open>The next block the sequencer has committed is the next block of a ledger fed with the earlier ones.\<close>

lemma next_committed_fits:
  assumes seq: "sequencer_run lib c ds s" and split: "committed_blocks ds = bs @ b # rest"
    and led: "ledger_run derive reducer limits (sc_chain_id c) (first_height c) bs ms l"
  shows "b_chain_id b = si_chain_id (cl_state l)" and "committed_class b"
    and "ledger_next_height l = Inr (b_block_height b)"
    and "reducer_set_version (cl_reducer l) = si_version (cl_state l)" and "cl_reducer l = reducer"
proof -
  have ok: "ledger_ok derive reducer limits (sc_chain_id c) (first_height c) bs ms l" using ledger_run_ok [OF led] .
  have h: "commit_history lib c (committed_blocks ds) s" using run_ok [OF seq] by simp
  show "b_chain_id b = si_chain_id (cl_state l)" using h ok by (simp add: commit_history_def split ledger_ok_def)
  show "committed_class b" using run_committed_class [OF seq] split by auto
  show "reducer_set_version (cl_reducer l) = si_version (cl_state l)" "cl_reducer l = reducer"
    using ok by (simp_all add: ledger_ok_def)
  have "blocks_from (unat (first_height c)) (bs @ b # rest)" using h split by (simp add: commit_history_def)
  then have height: "unat (b_block_height b) = unat (first_height c) + length bs"
    by (simp add: blocks_from_append blocks_from_Cons)
  show "ledger_next_height l = Inr (b_block_height b)"
  proof (cases bs rule: rev_cases)
    case Nil
    then show ?thesis using ok height by (simp add: ledger_ok_def ledger_next_height_def word_unat_eq_iff)
  next
    case (snoc cs a)
    have "map (\<lambda>b. unat (b_block_height b)) (cs @ [a]) =
        [unat (first_height c) ..< unat (first_height c) + length cs] @ [unat (first_height c) + length cs]"
      using ok snoc by (simp add: ledger_ok_def)
    then have a: "unat (b_block_height b) = Suc (unat (b_block_height a))" using height snoc by simp
    then have "checked_succ (b_block_height a) = Some (b_block_height b)" by (rule checked_succ_unat)
    then show ?thesis using ok snoc by (simp add: ledger_ok_def ledger_next_height_def)
  qed
qed

text \<open>
  C8. The ledger never rejects the place of a block the sequencer has committed. When a
  ledger for the same chain and first height has applied the first committed blocks of a
  sequencer run, offering it the next committed block applies it and leaves the ledger a
  step further in its run, or fails for the content of the block (an unsupported event, a
  failing reducer, a mutation that is invalid or over a limit) without changing the ledger;
  it is never taken for a block of another chain, an unconfirmed one, a gap, a duplicate or
  a divergence. With the watermark-only reducer, an empty block is always applied.
\<close>

theorem committed_blocks_apply:
  assumes seq: "sequencer_run lib c ds s" and split: "committed_blocks ds = bs @ b # rest"
    and led: "ledger_run derive reducer limits (sc_chain_id c) (first_height c) bs ms l"
    and app: "apply_block derive b l = (r, l')"
  shows "(\<exists>d. r = Inr (Applied d)
      \<and> ledger_run derive reducer limits (sc_chain_id c) (first_height c) (bs @ [b]) (ms @ sd_mutations d) l')
    \<or> (\<exists>e. r = Inl e \<and> content_error e \<and> l' = l
        \<and> \<not> (reducer = watermark_only_reducer \<and> b_events b = []))"
proof -
  note fits = next_committed_fits [OF seq split led]
  have run: "ledger_run derive reducer limits (sc_chain_id c) (first_height c) (bs @ applied_blocks r b) (ms @ applied_changes r) l'"
    using ledger_run.step [OF led app] .
  have "(\<exists>d. r = Inr (Applied d)) \<or> (\<exists>e. r = Inl e \<and> content_error e \<and> l' = l \<and> prepare_block derive l b = Inl e)"
    using prepare_in_order [OF fits(4,1,2,3), of derive] app
    by (auto simp: apply_block_def commit_prepared_def)
  moreover have "\<not> (reducer = watermark_only_reducer \<and> b_events b = [])" if "prepare_block derive l b = Inl e" for e
    using prepare_empty_watermark_only [OF fits(4,1,2,3)] fits(5) that by (metis sum.distinct(1))
  ultimately show ?thesis using run by (auto simp: applied_blocks_def applied_changes_def)
qed

theorem committed_blocks_apply_witness:
  "\<exists>ds s r l l'. sequencer_run sample_events sample_config ds s \<and> committed_blocks ds = [sample_block 5, sample_block 6]
     \<and> ledger_new sample_derive ''c'' 5 watermark_only_reducer ledger_limits_production = Inr l
     \<and> apply_block sample_derive (sample_block 5) l = (r, l') \<and> (\<exists>d. r = Inr (Applied d))"
proof -
  obtain r t where obs: "observe sample_events (sample_candidate 5) sample_waiting = (r, t)" by force
  have c: "committed_blocks (decisions_of r) = [sample_block 5, sample_block 6]"
    using obs sample_waiting_eq(2-5)
    by (auto simp: observe_def observe_committed_def sample_candidate_def sample_admission_def sample_block_def
        sample_config_def next_committed_height_def drain_contiguous.simps drain_step_def refresh_gap_def advance_def
        checked_succ_def committed_blocks_append Let_def split: prod.splits if_splits)
  have seq: "sequencer_run sample_events sample_config ([RequestGap ''inc_00'' 5 5] @ decisions_of r) t"
    using sequencer_run.step [OF sample_waiting_run sample_candidate_new sample_block_ok obs] by simp
  have split: "committed_blocks ([RequestGap ''inc_00'' 5 5] @ decisions_of r) = [] @ sample_block 5 # [sample_block 6]"
    using c by (simp add: committed_blocks_append)
  obtain l where new: "ledger_new sample_derive ''c'' 5 watermark_only_reducer ledger_limits_production = Inr l"
    by (simp add: ledger_new_def watermark_only_reducer_def valid_reducer_version_def is_ascii_alphanumeric_def
        is_ascii_lowercase_def is_ascii_uppercase_def is_digit_def code_def Let_def)
  obtain q l' where app: "apply_block sample_derive (sample_block 5) l = (q, l')" by force
  have led: "ledger_run sample_derive watermark_only_reducer ledger_limits_production (sc_chain_id sample_config) (first_height sample_config) [] [] l"
    using ledger_run.start [OF new] by (simp add: sample_config_def)
  have "b_events (sample_block 5) = []" by (simp add: sample_block_def)
  then have "\<exists>d. q = Inr (Applied d)" using committed_blocks_apply [OF seq split led app] by blast
  then show ?thesis using seq split new app by (metis append_Nil)
qed

end
