(* ===== verification/Record_Codec.thy ===== *)
theory Record_Codec
  imports Ledger Codec_Library
begin

text \<open>
  How the canonical reducers store their records, \<^verbatim>\<open>crates/canonical-ledger/src/record_codec.rs\<close>:
  bounded canonical JSON for the values and framed identities for the keys. Several modules
  repeat this code with an error type of their own, so the parts are stated once over the
  error values. The locale \<open>stored_record\<close> is the contract every stored record type keeps,
  and the locale \<open>reducer_history\<close> carries an invariant of one reducer through every run of
  the ledger.
\<close>

section \<open>Canonical JSON with a size bound\<close>

definition encode_bounded :: "'e \<Rightarrow> 'e \<Rightarrow> nat \<Rightarrow> 'w json \<Rightarrow> 'w \<Rightarrow> 'e + bytes" where
  "encode_bounded codec limit max_bytes j w =
     rbind (ok_or codec (to_vec j w)) (\<lambda>b.
     if length b > max_bytes then Inl limit else Inr b)"

definition decode_bounded :: "'e \<Rightarrow> 'e \<Rightarrow> 'e \<Rightarrow> nat \<Rightarrow> 'w json \<Rightarrow> bytes \<Rightarrow> 'e + 'w" where
  "decode_bounded codec limit noncanonical max_bytes j b =
     (if b = [] \<or> length b > max_bytes then Inl limit
      else
        rbind (ok_or codec (from_slice j b)) (\<lambda>w.
        rbind (encode_bounded codec limit max_bytes j w) (\<lambda>b'.
        if b' \<noteq> b then Inl noncanonical else Inr w)))"

lemma decode_encode_bounded:
  "json_law j \<Longrightarrow> encode_bounded c l n j w = Inr b \<Longrightarrow> decode_bounded c l x n j b = Inr w"
  by (auto simp: encode_bounded_def decode_bounded_def json_law_def result_simps split: if_splits)

lemma encode_decode_bounded: "decode_bounded c l x n j b = Inr w \<Longrightarrow> encode_bounded c l n j w = Inr b"
  by (auto simp: decode_bounded_def result_simps split: if_splits)

definition decode_hash_or :: "'e \<Rightarrow> (nat \<Rightarrow> string \<Rightarrow> bytes option) \<Rightarrow> string \<Rightarrow> 'e + hash" where
  "decode_hash_or e dec value =
     (if length value \<noteq> 64 \<or> list_ex is_ascii_uppercase value then Inl e
      else ok_or e (dec 32 value))"

lemma decode_hash_encode: "hex_law enc dec \<Longrightarrow> length h = 32 \<Longrightarrow> decode_hash_or e dec (enc h) = Inr h"
  by (auto simp: decode_hash_or_def hex_law_def dest!: spec [of _ h])

section \<open>Framed keys\<close>

text \<open>Every identity is written as a frame; an empty identity and an oversized key are refused.\<close>

fun framed_len :: "bytes list \<Rightarrow> nat \<Rightarrow> nat option" where
  "framed_len [] acc = Some acc"
| "framed_len (i # is) acc =
     (if i = [] then None
      else Option.bind (checked_add_usize acc 8) (\<lambda>n.
           Option.bind (checked_add_usize n (length i)) (framed_len is)))"

definition framed_key_or :: "'e \<Rightarrow> string \<Rightarrow> bytes list \<Rightarrow> 'e + state_key" where
  "framed_key_or e ns ids =
     rbind (ok_or e (framed_len ids 0)) (\<lambda>n.
     if n > MAX_ABSOLUTE_KEY_BYTES then Inl e
     else map_err (\<lambda>_. e) (state_key_new ns (concat (map frame ids))))"

lemma framed_len_Some:
  "framed_len ids acc = Some n \<Longrightarrow>
   n = acc + length (concat (map frame ids)) \<and> [] \<notin> set ids \<and> (ids = [] \<or> n \<le> usize_max)"
  by (induction ids arbitrary: acc)
    (fastforce simp: checked_add_usize_def split: if_splits bind_splits)+

lemma framed_key_Inr:
  assumes "framed_key_or e ns ids = Inr k"
  shows "k = StateKey ns (concat (map frame ids))" and "valid_namespace ns" and "[] \<notin> set ids"
    and "ids \<noteq> []" and "\<forall>i \<in> set ids. short i" and "key_constructed k"
proof -
  obtain n where n: "framed_len ids 0 = Some n" "n \<le> MAX_ABSOLUTE_KEY_BYTES"
    and k: "state_key_new ns (concat (map frame ids)) = Inr k"
    using assms by (auto simp: framed_key_or_def result_simps not_less split: if_splits)
  show "k = StateKey ns (concat (map frame ids))" "valid_namespace ns" "ids \<noteq> []" "key_constructed k"
    using k by (auto simp: state_key_new_def key_constructed_def split: if_splits)
  show "[] \<notin> set ids" using framed_len_Some [OF n(1)] by blast
  have len: "length (concat (map frame ids)) \<le> MAX_ABSOLUTE_KEY_BYTES"
    using framed_len_Some [OF n(1)] n(2) by simp
  show "\<forall>i \<in> set ids. short i"
  proof
    fix i assume "i \<in> set ids"
    then have "length (frame i) \<in> set (map length (map frame ids))" unfolding set_map by blast
    then have "length (frame i) \<le> length (concat (map frame ids))"
      unfolding length_concat by (rule member_le_sum_list) simp
    then show "short i" using len by (simp add: short_def MAX_ABSOLUTE_KEY_BYTES_def)
  qed
qed

lemma framed_key_inject:
  assumes "framed_key_or e ns ids = Inr k" and "framed_key_or e' ns' ids' = Inr k" and "length ids = length ids'"
  shows "ns = ns' \<and> ids = ids'"
  using framed_key_Inr [OF assms(1)] framed_key_Inr [OF assms(2)]
    concat_frames_cancel [OF assms(3), of "[]" "[]"] by simp

lemma framed_len_eval:
  "[] \<notin> set ids \<Longrightarrow> acc + length (concat (map frame ids)) \<le> 4096 \<Longrightarrow>
   framed_len ids acc = Some (acc + length (concat (map frame ids)))"
  by (induction ids arbitrary: acc) (auto simp: checked_add_usize_def usize_max_def)

lemma framed_key_eval:
  assumes "valid_namespace ns" and "[] \<notin> set ids" and "ids \<noteq> []" and "length (concat (map frame ids)) \<le> 4096"
  shows "framed_key_or e ns ids = Inr (StateKey ns (concat (map frame ids)))"
proof -
  have "length (concat (map frame ids)) \<noteq> 0" using assms(3) by (cases ids) simp_all
  then show ?thesis using assms framed_len_eval [of ids 0]
    by (simp add: framed_key_or_def state_key_new_def MAX_ABSOLUTE_KEY_BYTES_def)
qed

section \<open>The codec of the later reducers\<close>

datatype record_codec_error =
  RcInvalidKey | RcCodec | RcNonCanonical | RcInvalidRecord | RcKeyMismatch | RcLimitExceeded

definition RECORD_BYTES :: nat where
  "RECORD_BYTES = 16 * 1024"

definition framed_key :: "string \<Rightarrow> bytes list \<Rightarrow> record_codec_error + state_key" where
  "framed_key ns ids = framed_key_or RcInvalidKey ns ids"

definition encode_json :: "'w json \<Rightarrow> 'w \<Rightarrow> record_codec_error + bytes" where
  "encode_json j w = encode_bounded RcCodec RcLimitExceeded RECORD_BYTES j w"

definition decode_json :: "'w json \<Rightarrow> bytes \<Rightarrow> record_codec_error + 'w" where
  "decode_json j b = decode_bounded RcCodec RcLimitExceeded RcNonCanonical RECORD_BYTES j b"

lemma json_decode_encode: "json_law j \<Longrightarrow> encode_json j w = Inr b \<Longrightarrow> decode_json j b = Inr w"
  by (simp add: encode_json_def decode_json_def decode_encode_bounded)

text \<open>The check every \<^verbatim>\<open>decode_at\<close> ends with: the record belongs under the key it was read from.\<close>

definition decode_at_key ::
  "'e \<Rightarrow> ('r \<Rightarrow> 'e + state_key) \<Rightarrow> (bytes \<Rightarrow> 'e + 'r) \<Rightarrow> state_key \<Rightarrow> bytes \<Rightarrow> 'e + 'r" where
  "decode_at_key mismatch state_key_of decode key b =
     rbind (decode b) (\<lambda>r.
     rbind (state_key_of r) (\<lambda>k.
     if k \<noteq> key then Inl mismatch else Inr r))"

text \<open>Optional fields of the wire structures.\<close>

definition transpose_map :: "('a \<Rightarrow> 'e + 'b) \<Rightarrow> 'a option \<Rightarrow> 'e + 'b option" where
  "transpose_map f x = (case x of None \<Rightarrow> Inr None | Some a \<Rightarrow> rmap Some (f a))"

lemma transpose_map_simps [simp]:
  "transpose_map f None = Inr None" "transpose_map f (Some a) = rmap Some (f a)"
  by (simp_all add: transpose_map_def)

lemma transpose_map_ids [simp]:
  "(\<forall>s. x = Some s \<longrightarrow> id_ok s) \<Longrightarrow> transpose_map (\<lambda>v. map_err f (string_id_new v)) x = Inr x"
  by (cases x) simp_all

lemma decimal_display_parse [simp]:
  "decimal_ok d \<Longrightarrow> map_err f (decimal_from_str (decimal_display d)) = Inr d"
  by (simp add: decimal_from_str_display)

section \<open>The contract of a stored record\<close>

text \<open>
  A record type that is kept in the state: its bytes are read back to the record.
  \<open>storable\<close> is what the constructors of the source guarantee of its fields.
\<close>

locale stored_record =
  fixes mismatch :: 'e
    and storable :: "'r \<Rightarrow> bool"
    and state_key_of :: "'r \<Rightarrow> 'e + state_key"
    and encode :: "'r \<Rightarrow> 'e + bytes"
    and decode :: "bytes \<Rightarrow> 'e + 'r"
  assumes decode_encode: "storable r \<Longrightarrow> encode r = Inr b \<Longrightarrow> decode b = Inr r"
begin

lemma decode_at_Inr:
  "decode_at_key mismatch state_key_of decode k b = Inr r \<longleftrightarrow> decode b = Inr r \<and> state_key_of r = Inr k"
  by (auto simp: decode_at_key_def result_simps split: if_splits)

lemma decode_at_encode:
  "storable r \<Longrightarrow> encode r = Inr b \<Longrightarrow> state_key_of r = Inr k
   \<Longrightarrow> decode_at_key mismatch state_key_of decode k b = Inr r"
  by (simp add: decode_at_Inr decode_encode)

lemma encode_inject:
  "storable r \<Longrightarrow> storable s \<Longrightarrow> encode r = Inr b \<Longrightarrow> encode s = Inr b \<Longrightarrow> r = s"
  using decode_encode [of r b] decode_encode [of s b] by simp

end

text \<open>A record type whose decoder moreover refuses every other spelling of the record.\<close>

locale canonical_record = stored_record +
  assumes encode_decode: "decode b = Inr r \<Longrightarrow> encode r = Inr b"
begin

lemma decode_at_bytes:
  "decode_at_key mismatch state_key_of decode k b = Inr r \<Longrightarrow> encode r = Inr b \<and> state_key_of r = Inr k"
  by (simp add: decode_at_Inr encode_decode)

lemma decode_at_unique:
  "decode_at_key mismatch state_key_of decode k b = Inr r
   \<Longrightarrow> decode_at_key mismatch state_key_of decode k c = Inr r \<Longrightarrow> b = c"
  using decode_at_bytes [of k b r] decode_at_bytes [of k c r] by simp

end

section \<open>Invariants of a reducer along a run\<close>

fun mutate :: "state_mutation \<Rightarrow> state_entries \<Rightarrow> state_entries" where
  "mutate (Put k v) s = bt_insert (<) k v s"
| "mutate (Delete k) s = bt_remove (<) k s"

definition mutate_all :: "state_mutation list \<Rightarrow> state_entries \<Rightarrow> state_entries" where
  "mutate_all ms s = fold mutate ms s"

lemma mutate_sorted: "bt_sorted (<) s \<Longrightarrow> bt_sorted (<) (mutate m s)"
  by (cases m) (simp_all add: lin.bt_sorted_insert lin.bt_sorted_remove)

lemma mutate_all_sorted: "bt_sorted (<) s \<Longrightarrow> bt_sorted (<) (mutate_all ms s)"
  unfolding mutate_all_def by (induction ms arbitrary: s) (simp_all add: mutate_sorted)

lemma bt_get_mutate:
  "bt_sorted (<) s \<Longrightarrow> bt_get (<) k (mutate m s) = (if k = mutation_key m then mutation_value m else bt_get (<) k s)"
  by (cases m) (simp_all add: lin.bt_get_insert lin.bt_get_remove)

lemma bt_get_mutate_all_other:
  "bt_sorted (<) s \<Longrightarrow> k \<notin> mutation_key ` set ms \<Longrightarrow> bt_get (<) k (mutate_all ms s) = bt_get (<) k s"
  unfolding mutate_all_def
  by (induction ms arbitrary: s) (simp_all add: mutate_sorted bt_get_mutate)

lemma mutate_all_Nil [simp]: "mutate_all [] s = s"
  by (simp add: mutate_all_def)

lemma mutate_all_Cons [simp]: "mutate_all (m # ms) s = mutate_all ms (mutate m s)"
  by (simp add: mutate_all_def)

lemma bt_get_mutate_all:
  assumes "bt_sorted (<) s" and "distinct (map mutation_key ms)" and "m \<in> set ms"
  shows "bt_get (<) (mutation_key m) (mutate_all ms s) = mutation_value m"
  using assms
proof (induction ms arbitrary: s)
  case (Cons n ms)
  show ?case
  proof (cases "m = n")
    case True
    then have "mutation_key m \<notin> mutation_key ` set ms" using Cons.prems(2) by simp
    then show ?thesis using True Cons.prems(1)
      by (simp add: bt_get_mutate_all_other mutate_sorted bt_get_mutate)
  qed (use Cons mutate_sorted in auto)
qed simp

text \<open>A mutation the ledger applies changes the candidate entries by exactly that mutation.\<close>

lemma apply_mutations_candidate:
  "apply_mutations ms s = Inr t \<Longrightarrow> ws_candidate t = mutate_all ms (ws_candidate s)"
  unfolding apply_mutations_def mutate_all_def
proof (induction ms arbitrary: s)
  case (Cons m ms)
  then obtain u where u: "apply_mutation m s = Inr u" "rfold apply_mutation ms u = Inr t"
    by (auto simp: rbind_Inr_iff)
  have "ws_candidate u = mutate m (ws_candidate s)"
    using u(1) by (cases m) (auto simp: rbind_Inr_iff split: option.splits)
  then show ?case using Cons.IH [OF u(2)] by simp
qed simp

lemma validated_distinct:
  "validate_mutation_list limits seen ms n = Inr k \<Longrightarrow>
   distinct (map mutation_key ms) \<and> mutation_key ` set ms \<inter> set seen = {}"
  by (induction ms arbitrary: seen n) (fastforce simp: Let_def rbind_Inr_iff split: if_splits)+

lemma validate_mutations_distinct:
  "validate_mutations limits ms n = Inr k \<Longrightarrow> distinct (map mutation_key ms)"
  using validated_distinct by (auto simp: validate_mutations_def split: if_splits)

definition run_events :: "block_envelope list \<Rightarrow> canonical_event list" where
  "run_events bs = concat (map b_events bs)"

text \<open>
  \<open>inv es s\<close> relates the events applied so far to the entries. When it holds at the start and
  every accepted event keeps it, it holds for the applied blocks of every run.
\<close>

locale reducer_history =
  fixes reducer :: event_reducer
    and admissible :: "canonical_event \<Rightarrow> bool"
    and inv :: "canonical_event list \<Rightarrow> state_entries \<Rightarrow> bool"
  assumes inv_start: "inv [] []"
    and inv_step: "inv es s \<Longrightarrow> bt_sorted (<) s \<Longrightarrow> admissible e \<Longrightarrow> supports reducer e
      \<Longrightarrow> reduce_event reducer s e ctx = Inr ms \<Longrightarrow> distinct (map mutation_key ms)
      \<Longrightarrow> inv (es @ [e]) (mutate_all ms s)"
begin

lemma inv_events:
  assumes "cl_reducer l = reducer" and "rfold (apply_event l ctx) evs (s, n) = Inr (t, m)"
    and "inv es (ws_candidate s)" and "bt_sorted (<) (ws_candidate s)" and "\<forall>e \<in> set evs. admissible e"
  shows "inv (es @ evs) (ws_candidate t)"
  using assms(2-)
proof (induction evs arbitrary: s n es)
  case (Cons e evs)
  then obtain u k where u: "apply_event l ctx e (s, n) = Inr (u, k)"
      and rest: "rfold (apply_event l ctx) evs (u, k) = Inr (t, m)"
    by (auto simp: rbind_Inr_iff)
  then obtain ms j where ms: "supports reducer e" "reduce_event reducer (ws_candidate s) e ctx = Inr ms"
      "validate_mutations (cl_limits l) ms n = Inr j" "apply_mutations ms s = Inr u"
    using assms(1) by (auto simp: apply_event_def rbind_Inr_iff map_err_Inr_iff split: if_splits)
  have c: "ws_candidate u = mutate_all ms (ws_candidate s)" by (rule apply_mutations_candidate [OF ms(4)])
  have "inv (es @ [e]) (ws_candidate u)"
    unfolding c using Cons.prems ms validate_mutations_distinct by (intro inv_step) auto
  then show ?case using Cons.IH [OF rest] Cons.prems(3,4) mutate_all_sorted c by fastforce
qed simp

lemma inv_run:
  assumes "ledger_run derive reducer limits chain first bs ms l"
    and "\<forall>e \<in> set (run_events bs). admissible e"
  shows "inv (run_events bs) (si_entries (cl_state l))"
  using assms
proof (induction rule: ledger_run.induct)
  case (start l)
  then show ?case using ledger_new_ok [OF start(1)] inv_start
    by (simp add: run_events_def ledger_ok_def replay_def)
next
  case (step bs ms l b r l')
  have ok: "ledger_ok derive reducer limits chain first bs ms l" using ledger_run_ok [OF step.hyps(1)] .
  have IH: "inv (run_events bs) (si_entries (cl_state l))"
    using step.IH step.prems by (simp add: run_events_def)
  show ?case
  proof (cases "\<exists>d. r = Inr (Applied d)")
    case True
    then obtain d where r: "r = Inr (Applied d)" by blast
    obtain p where p: "prepare_block derive l b = Inr (Ready p)" "l' = l\<lparr>cl_state := pb_next_state p, cl_state_hash := ck_state_hash (sd_checkpoint d)\<rparr>"
      using apply_Applied [OF step.hyps(2) [unfolded r]] by blast
    obtain ctx s n where s: "rfold (apply_event l ctx) (b_events b) (start_working l, 0) = Inr (s, n)"
      "si_entries (cl_state l') = ws_candidate s"
      using prepare_Ready(5) [OF p(1)] by (auto simp: Let_def p(2) image_commit_def)
    have "cl_reducer l = reducer" "bt_sorted (<) (si_entries (cl_state l))"
      using ok unfolding ledger_ok_def by blast+
    then have "inv (run_events bs @ b_events b) (ws_candidate s)"
      using inv_events [OF _ s(1)] IH step.prems
      by (simp add: start_working_def r applied_blocks_def run_events_def)
    then show ?thesis by (simp add: s(2) r applied_blocks_def run_events_def)
  next
    case False
    then have "applied_blocks r b = []"
      by (auto simp: applied_blocks_def split: sum.splits apply_outcome.splits)
    then show ?thesis using IH apply_not_Applied [OF step.hyps(2) False] by simp
  qed
qed

end

text \<open>Runs of one block, for evaluation.\<close>

definition sample_context :: apply_context where
  "sample_context = \<lparr>ac_chain_id = ''c'', ac_block_height = 1, ac_block_time = 0,
     ac_confirmation_class = CommittedPrimary\<rparr>"

definition sample_fresh :: "event_reducer \<Rightarrow> canonical_ledger" where
  "sample_fresh r = \<lparr>cl_reducer = r, cl_limits = ledger_limits_production,
     cl_state = empty_image ''c'' 1 (reducer_set_version r),
     cl_state_hash = state_hash sample_derive (empty_image ''c'' 1 (reducer_set_version r))\<rparr>"

lemma one_block_run:
  assumes version: "valid_reducer_version (reducer_set_version r)"
    and events: "rfold (apply_event (sample_fresh r) sample_context) es (start_working (sample_fresh r), 0) = Inr (s, n)"
    and delta: "validate_block_delta r = (\<lambda>final _ ctx. default_validate_block final ctx)" and few: "length es \<le> 1000"
  shows "\<exists>ms l. ledger_run sample_derive r ledger_limits_production ''c'' 1 [sample_ledger_block\<lparr>b_events := es\<rparr>] ms l
    \<and> si_entries (cl_state l) = ws_candidate s"
proof -
  let ?b = "sample_ledger_block\<lparr>b_events := es\<rparr>"
  have new: "ledger_new sample_derive ''c'' 1 r ledger_limits_production = Inr (sample_fresh r)"
    using version by (simp add: ledger_new_def sample_fresh_def Let_def)
  obtain d l where app: "apply_block sample_derive ?b (sample_fresh r) = (Inr (Applied d), l)"
      and e: "si_entries (cl_state l) = ws_candidate s"
    using events few
    by (auto simp: apply_block_def prepare_block_def sample_ledger_block_def start_working_def sample_context_def
        empty_image_def validate_boundary_def require_committed_confirmation_def duplicate_checkpoint_def
        validate_next_height_def ledger_next_height_def ledger_limits_production_def sample_fresh_def
        commit_prepared_def delta default_validate_block_def image_commit_def Let_def)
  have "ledger_run sample_derive r ledger_limits_production ''c'' 1 [?b] (sd_mutations d) l"
    using ledger_run.step [OF ledger_run.start [OF new] app] by (simp add: applied_blocks_def applied_changes_def)
  then show ?thesis using e by blast
qed

definition small_put :: "state_mutation \<Rightarrow> bool" where
  "small_put m = (case m of Put k v \<Rightarrow> key_len k \<le> 4096 \<and> length v \<le> 4096 | Delete _ \<Rightarrow> False)"

lemma apply_small_puts:
  assumes "list_all small_put ms" and "distinct (map mutation_key ms)"
    and "bt_sorted (<) (bd_entries (ws_tracker s))" and "\<forall>m \<in> set ms. bt_get (<) (mutation_key m) (bd_entries (ws_tracker s)) = None"
    and "bd_limits (ws_tracker s) = ledger_limits_production" and "bd_start (ws_tracker s) = []"
    and "bd_referenced (ws_tracker s) + 8192 * length ms \<le> 1000000" and "length (bd_entries (ws_tracker s)) + length ms \<le> 1000"
  shows "\<exists>t. apply_mutations ms s = Inr t"
  using assms
proof (induction ms arbitrary: s)
  case (Cons m ms)
  obtain k v where m: "m = Put k v" "key_len k \<le> 4096" "length v \<le> 4096"
    using Cons.prems(1) by (auto simp: small_put_def split: state_mutation.splits)
  let ?t = "(ws_tracker s)\<lparr>bd_entries := bt_insert (<) k \<lparr>td_writes = 1, td_final_bytes = length v\<rparr> (bd_entries (ws_tracker s)),
      bd_referenced := bd_referenced (ws_tracker s) + key_len k + length v\<rparr>"
  have "record_write k (Some v) (ws_tracker s) = Inr ?t"
    using Cons.prems(4-) m
    by (simp add: record_write_def Let_def option_len_def ledger_limits_production_def MAX_BLOCK_DELTA_ENTRIES_def
        MAX_BLOCK_DELTA_REFERENCED_BYTES_def encoded_len_def checked_add_usize_def usize_max_def key_len_def)
  then obtain u where u: "apply_mutation m s = Inr u" "ws_tracker u = ?t" by (simp add: m(1))
  have "\<exists>t. apply_mutations ms u = Inr t"
    using Cons.prems m u(2)
    by (intro Cons.IH) (auto simp: lin.bt_sorted_insert lin.bt_get_insert lin.length_bt_insert)
  then show ?case using u(1) by (simp add: apply_mutations_def)
qed (simp add: apply_mutations_def)

lemma validate_small_puts:
  "list_all small_put ms \<Longrightarrow> distinct (map mutation_key ms) \<Longrightarrow> mutation_key ` set ms \<inter> set seen = {}
   \<Longrightarrow> n + 8192 * length ms \<le> 1000000 \<Longrightarrow> \<exists>k. validate_mutation_list ledger_limits_production seen ms n = Inr k"
proof (induction ms arbitrary: seen n)
  case (Cons m ms)
  obtain k v where m: "m = Put k v" "key_len k \<le> 4096" "length v \<le> 4096"
    using Cons.prems(1) by (auto simp: small_put_def split: state_mutation.splits)
  have "\<exists>j. validate_mutation_list ledger_limits_production (k # seen) ms (n + key_len k + length v) = Inr j"
    using Cons.prems m by (intro Cons.IH) auto
  then show ?case using Cons.prems m
    by (auto simp: Let_def encoded_len_def key_len_def ledger_limits_production_def checked_add_usize_def usize_max_def option_len_def)
qed simp

lemma one_event_run:
  assumes "valid_reducer_version (reducer_set_version r)"
    and "validate_block_delta r = (\<lambda>final _ ctx. default_validate_block final ctx)"
    and "supports r e" and "reduce_event r [] e sample_context = Inr ms"
    and "list_all small_put ms" and "distinct (map mutation_key ms)" and "length ms \<le> 100"
  shows "\<exists>cs l. ledger_run sample_derive r ledger_limits_production ''c'' 1 [sample_ledger_block\<lparr>b_events := [e]\<rparr>] cs l
    \<and> si_entries (cl_state l) = mutate_all ms []"
proof -
  let ?l = "sample_fresh r"
  have start: "ws_candidate (start_working ?l) = []" "bd_entries (ws_tracker (start_working ?l)) = []"
    "bd_referenced (ws_tracker (start_working ?l)) = 0" "bd_start (ws_tracker (start_working ?l)) = []"
    "bd_limits (ws_tracker (start_working ?l)) = ledger_limits_production"
    by (simp_all add: start_working_def sample_fresh_def empty_image_def tracker_new_def)
  obtain t where t: "apply_mutations ms (start_working ?l) = Inr t"
    using apply_small_puts [OF assms(5,6)] start assms(7) by fastforce
  obtain n where n: "validate_mutations ledger_limits_production ms 0 = Inr n"
    using validate_small_puts [OF assms(5,6), of "[]" 0] assms(7)
    by (auto simp: validate_mutations_def ledger_limits_production_def)
  have lr: "cl_reducer ?l = r" "cl_limits ?l = ledger_limits_production" by (simp_all add: sample_fresh_def)
  have "rfold (apply_event ?l sample_context) [e] (start_working ?l, 0) = Inr (t, n)"
    using assms(3,4) start(1) t n by (simp add: apply_event_def lr)
  from one_block_run [OF assms(1) this assms(2)] apply_mutations_candidate [OF t] start(1)
  show ?thesis by simp
qed

end
