(* ===== verification/Opaque_Payload.thy ===== *)
theory Opaque_Payload
  imports Record_Codec
begin

text \<open>
  The payloads of the version 1.1 catalogue, \<^verbatim>\<open>crates/canonical-ledger/src/opaque.rs\<close> over
  \<^verbatim>\<open>crates/api-contracts/src/v1_1.rs\<close>. An event carries them as bytes; the reducers read them
  through the generated protobuf messages, which are parameters here, and then check every
  text field. What is proved is that a field that passes has the shape the reducers rely on.
\<close>

section \<open>Wire structures\<close>

record wire_non_user_order_cancelled =
  wn_order_id :: string
  wn_reason :: string
  wn_remaining_quantity :: string

record wire_internal_transfer =
  wi_from_account_id :: string
  wi_to_account_id :: string
  wi_amount :: string
  wi_fee :: string

record wire_account_class_transfer =
  wa_account_id :: string
  wa_amount :: string
  wa_to_perp :: bool

record wire_vault_created =
  wv_vault_id :: string
  wv_amount :: string
  wv_fee :: string

record wire_vault_distribution =
  wd_vault_id :: string
  wd_amount :: string

text \<open>\<^verbatim>\<open>RewardClaimed\<close>, \<^verbatim>\<open>StakingDeposit\<close> and the two staking withdrawals have the same two fields.\<close>

record wire_account_amount =
  ws_account_id :: string
  ws_amount :: string

record wire_spot_genesis =
  wg_token :: string
  wg_amount :: string

record wire_staking_delegation =
  wl_account_id :: string
  wl_validator :: string
  wl_amount :: string

record wire_validator_reward =
  wr_validator :: string
  wr_amount :: string

text \<open>
  The libraries: the hex crate, the keyed hash, and \<^verbatim>\<open>prost\<close> decoding of the generated
  messages, first of the envelope (event kind and message bytes), then of each message.
\<close>

record payload_library =
  lib_hex_encode :: "bytes \<Rightarrow> string"
  lib_hex_decode :: "nat \<Rightarrow> string \<Rightarrow> bytes option"
  lib_derive_key :: "string \<Rightarrow> bytes \<Rightarrow> hash"
  typed_payload_envelope :: "bytes \<Rightarrow> (string \<times> bytes) option"
  message_non_user_order_cancelled :: "bytes \<Rightarrow> wire_non_user_order_cancelled option"
  message_internal_transfer :: "bytes \<Rightarrow> wire_internal_transfer option"
  message_account_class_transfer :: "bytes \<Rightarrow> wire_account_class_transfer option"
  message_vault_created :: "bytes \<Rightarrow> wire_vault_created option"
  message_vault_distribution :: "bytes \<Rightarrow> wire_vault_distribution option"
  message_account_amount :: "event_kind \<Rightarrow> bytes \<Rightarrow> wire_account_amount option"
  message_spot_genesis :: "bytes \<Rightarrow> wire_spot_genesis option"
  message_staking_delegation :: "event_kind \<Rightarrow> bytes \<Rightarrow> wire_staking_delegation option"
  message_validator_reward :: "bytes \<Rightarrow> wire_validator_reward option"

definition payload_library_ok :: "('a payload_library_scheme) \<Rightarrow> bool" where
  "payload_library_ok lib \<longleftrightarrow>
     hex_law (lib_hex_encode lib) (lib_hex_decode lib) \<and> (\<forall>c b. length (lib_derive_key lib c b) = 32)
     \<and> (\<forall>s b n. lib_hex_decode lib n s = Some b \<longrightarrow> length b = n)"

datatype payload_codec_error =
    PayloadKindMismatch string string
  | PayloadDecode string

definition unwrap_payload ::
  "('a payload_library_scheme) \<Rightarrow> string \<Rightarrow> bytes \<Rightarrow> payload_codec_error + bytes" where
  "unwrap_payload lib kind b =
     rbind (ok_or (PayloadDecode ''TypedPayloadEnvelope'') (typed_payload_envelope lib b)) (\<lambda>(actual, msg).
     if actual \<noteq> kind then Inl (PayloadKindMismatch kind actual) else Inr msg)"

text \<open>The decoder the macro \<^verbatim>\<open>string_payload!\<close> writes for each message.\<close>

definition decode_string_payload ::
  "('a payload_library_scheme) \<Rightarrow> string \<Rightarrow> (bytes \<Rightarrow> 'w option) \<Rightarrow> bytes \<Rightarrow> payload_codec_error + 'w" where
  "decode_string_payload lib kind msg b =
     rbind (unwrap_payload lib kind b) (\<lambda>inner. ok_or (PayloadDecode kind) (msg inner))"

section \<open>Checked fields\<close>

definition from_static :: "string \<Rightarrow> string \<Rightarrow> reducer_error" where
  "from_static reason_code msg = \<lparr>re_reason_code = reason_code, re_message = msg\<rparr>"

definition payload_error :: reducer_error where
  "payload_error = from_static ''canonical_state.invalid_payload''
     ''v1.1 payload fields are missing, empty, or not canonical''"

definition empty_amount :: reducer_error where
  "empty_amount = from_static ''canonical_state.empty_amount''
     ''v1.1 amount fields must be nonempty canonical decimals''"

definition parse_account :: "('a payload_library_scheme) \<Rightarrow> string \<Rightarrow> reducer_error + address" where
  "parse_account lib value = map_err (\<lambda>_. payload_error) (parse_api (lib_hex_decode lib) value)"

text \<open>\<^verbatim>\<open>Quantity\<close> and \<^verbatim>\<open>QuoteAmount\<close> read the same decimal text.\<close>

definition parse_quantity :: "string \<Rightarrow> reducer_error + decimal" where
  "parse_quantity value = map_err (\<lambda>_. empty_amount) (decimal_from_str value)"

definition parse_positive_quantity :: "string \<Rightarrow> reducer_error + decimal" where
  "parse_positive_quantity value =
     rbind (parse_quantity value) (\<lambda>q. if raw q \<le> 0 then Inl empty_amount else Inr q)"

definition parse_quote :: "string \<Rightarrow> reducer_error + decimal" where
  "parse_quote value = map_err (\<lambda>_. empty_amount) (decimal_from_str value)"

definition parse_positive_quote :: "string \<Rightarrow> reducer_error + decimal" where
  "parse_positive_quote value =
     rbind (parse_quote value) (\<lambda>a. if raw a \<le> 0 then Inl empty_amount else Inr a)"

definition parse_nonnegative_quote :: "string \<Rightarrow> reducer_error + decimal" where
  "parse_nonnegative_quote value =
     rbind (parse_quote value) (\<lambda>a. if raw a < 0 then Inl empty_amount else Inr a)"

definition require_identity :: "string \<Rightarrow> reducer_error + string" where
  "require_identity value =
     (if value = [] \<or> \<not> is_trimmed value \<or> has_control value then Inl payload_error else Inr value)"

definition invalid_text :: "string \<Rightarrow> nat \<Rightarrow> bool" where
  "invalid_text value max_bytes \<longleftrightarrow>
     value = [] \<or> length value > max_bytes \<or> \<not> is_trimmed value \<or> has_control value"

definition payload_id :: "string \<Rightarrow> reducer_error + string" where
  "payload_id value = map_err (\<lambda>_. payload_error) (string_id_new value)"

section \<open>Decoders\<close>

record decoded_non_user_cancel =
  dn_order_id :: order_id
  dn_remaining_quantity :: decimal

definition decode_non_user_cancel ::
  "('a payload_library_scheme) \<Rightarrow> bytes \<Rightarrow> reducer_error + decoded_non_user_cancel" where
  "decode_non_user_cancel lib payload =
     rbind (map_err (\<lambda>_. payload_error)
       (decode_string_payload lib ''NonUserOrderCancelled'' (message_non_user_order_cancelled lib) payload)) (\<lambda>w.
     rbind (parse_quantity (wn_remaining_quantity w)) (\<lambda>q.
     if raw q < 0
     then Inl (from_static ''order_state.invalid_quantity'' ''order quantity must be nonnegative'')
     else if invalid_text (wn_reason w) 1024
     then Inl (from_static ''order_state.invalid_cancellation''
                 ''system cancellation reason contract is invalid'')
     else rbind (payload_id (wn_order_id w)) (\<lambda>i.
          Inr \<lparr>dn_order_id = i, dn_remaining_quantity = q\<rparr>)))"

record decoded_internal_transfer =
  di_from_account_id :: address
  di_to_account_id :: address
  di_amount :: decimal
  di_fee :: decimal

definition decode_internal ::
  "('a payload_library_scheme) \<Rightarrow> bytes \<Rightarrow> reducer_error + decoded_internal_transfer" where
  "decode_internal lib payload =
     rbind (map_err (\<lambda>_. payload_error)
       (decode_string_payload lib ''InternalTransfer'' (message_internal_transfer lib) payload)) (\<lambda>w.
     rbind (parse_account lib (wi_from_account_id w)) (\<lambda>a.
     rbind (parse_account lib (wi_to_account_id w)) (\<lambda>b.
     rbind (parse_positive_quote (wi_amount w)) (\<lambda>q.
     rbind (parse_nonnegative_quote (wi_fee w)) (\<lambda>f.
     Inr \<lparr>di_from_account_id = a, di_to_account_id = b, di_amount = q, di_fee = f\<rparr>)))))"

record decoded_class_transfer =
  dc_account_id :: address
  dc_amount :: decimal
  dc_to_perp :: bool

definition decode_class_transfer ::
  "('a payload_library_scheme) \<Rightarrow> bytes \<Rightarrow> reducer_error + decoded_class_transfer" where
  "decode_class_transfer lib payload =
     rbind (map_err (\<lambda>_. payload_error)
       (decode_string_payload lib ''AccountClassTransfer'' (message_account_class_transfer lib) payload)) (\<lambda>w.
     rbind (parse_account lib (wa_account_id w)) (\<lambda>a.
     rbind (parse_positive_quote (wa_amount w)) (\<lambda>q.
     Inr \<lparr>dc_account_id = a, dc_amount = q, dc_to_perp = wa_to_perp w\<rparr>)))"

record decoded_vault_created =
  dv_vault_id :: string
  dv_amount :: decimal
  dv_fee :: decimal

definition decode_vault_create ::
  "('a payload_library_scheme) \<Rightarrow> bytes \<Rightarrow> reducer_error + decoded_vault_created" where
  "decode_vault_create lib payload =
     rbind (map_err (\<lambda>_. payload_error)
       (decode_string_payload lib ''VaultCreated'' (message_vault_created lib) payload)) (\<lambda>w.
     rbind (payload_id (wv_vault_id w)) (\<lambda>v.
     rbind (parse_positive_quote (wv_amount w)) (\<lambda>q.
     rbind (parse_nonnegative_quote (wv_fee w)) (\<lambda>f.
     Inr \<lparr>dv_vault_id = v, dv_amount = q, dv_fee = f\<rparr>))))"

record decoded_vault_distribution =
  dd_vault_id :: string
  dd_amount :: decimal

definition decode_vault_dist ::
  "('a payload_library_scheme) \<Rightarrow> bytes \<Rightarrow> reducer_error + decoded_vault_distribution" where
  "decode_vault_dist lib payload =
     rbind (map_err (\<lambda>_. payload_error)
       (decode_string_payload lib ''VaultDistribution'' (message_vault_distribution lib) payload)) (\<lambda>w.
     rbind (payload_id (wd_vault_id w)) (\<lambda>v.
     rbind (parse_positive_quote (wd_amount w)) (\<lambda>q.
     Inr \<lparr>dd_vault_id = v, dd_amount = q\<rparr>)))"

record decoded_account_amount =
  da_account_id :: address
  da_amount :: decimal

definition decode_reward ::
  "('a payload_library_scheme) \<Rightarrow> bytes \<Rightarrow> reducer_error + decoded_account_amount" where
  "decode_reward lib payload =
     rbind (map_err (\<lambda>_. payload_error)
       (decode_string_payload lib ''RewardClaimed'' (message_account_amount lib RewardClaimed) payload)) (\<lambda>w.
     rbind (parse_account lib (ws_account_id w)) (\<lambda>a.
     rbind (parse_positive_quote (ws_amount w)) (\<lambda>q.
     Inr \<lparr>da_account_id = a, da_amount = q\<rparr>)))"

record decoded_spot_genesis =
  dg_token :: string
  dg_amount :: decimal

definition decode_spot_genesis ::
  "('a payload_library_scheme) \<Rightarrow> bytes \<Rightarrow> reducer_error + decoded_spot_genesis" where
  "decode_spot_genesis lib payload =
     rbind (map_err (\<lambda>_. payload_error)
       (decode_string_payload lib ''SpotGenesisApplied'' (message_spot_genesis lib) payload)) (\<lambda>w.
     rbind (payload_id (wg_token w)) (\<lambda>t.
     rbind (parse_positive_quantity (wg_amount w)) (\<lambda>q.
     Inr \<lparr>dg_token = t, dg_amount = q\<rparr>)))"

definition staking_amount ::
  "('a payload_library_scheme) \<Rightarrow> string \<Rightarrow> string \<Rightarrow> reducer_error + decoded_account_amount" where
  "staking_amount lib account amount =
     rbind (parse_account lib account) (\<lambda>a.
     rbind (parse_positive_quantity amount) (\<lambda>q.
     Inr \<lparr>da_account_id = a, da_amount = q\<rparr>))"

text \<open>
  \<^verbatim>\<open>decode_staking_deposit_amount\<close>, \<^verbatim>\<open>decode_staking_withdraw_queued\<close> and
  \<^verbatim>\<open>decode_staking_withdraw_completed\<close> differ in the message they read.
\<close>

definition decode_staking_amount ::
  "('a payload_library_scheme) \<Rightarrow> event_kind \<Rightarrow> bytes \<Rightarrow> reducer_error + decoded_account_amount" where
  "decode_staking_amount lib kind payload =
     rbind (map_err (\<lambda>_. payload_error)
       (decode_string_payload lib (kind_wire_name kind) (message_account_amount lib kind) payload)) (\<lambda>w.
     staking_amount lib (ws_account_id w) (ws_amount w))"

record decoded_staking_delegation =
  dl_account_id :: address
  dl_validator :: string
  dl_amount :: decimal

definition staking_delegation ::
  "('a payload_library_scheme) \<Rightarrow> string \<Rightarrow> string \<Rightarrow> string \<Rightarrow> reducer_error + decoded_staking_delegation" where
  "staking_delegation lib account validator amount =
     rbind (parse_account lib account) (\<lambda>a.
     rbind (require_identity validator) (\<lambda>v.
     rbind (parse_positive_quantity amount) (\<lambda>q.
     Inr \<lparr>dl_account_id = a, dl_validator = v, dl_amount = q\<rparr>)))"

text \<open>\<^verbatim>\<open>decode_staking_delegate\<close> and \<^verbatim>\<open>decode_staking_undelegate\<close>.\<close>

definition decode_staking_delegation ::
  "('a payload_library_scheme) \<Rightarrow> event_kind \<Rightarrow> bytes \<Rightarrow> reducer_error + decoded_staking_delegation" where
  "decode_staking_delegation lib kind payload =
     rbind (map_err (\<lambda>_. payload_error)
       (decode_string_payload lib (kind_wire_name kind) (message_staking_delegation lib kind) payload)) (\<lambda>w.
     staking_delegation lib (wl_account_id w) (wl_validator w) (wl_amount w))"

record decoded_validator_reward =
  dr_validator :: string
  dr_amount :: decimal

definition decode_validator_reward ::
  "('a payload_library_scheme) \<Rightarrow> bytes \<Rightarrow> reducer_error + decoded_validator_reward" where
  "decode_validator_reward lib payload =
     rbind (map_err (\<lambda>_. payload_error)
       (decode_string_payload lib ''ValidatorRewardPaid'' (message_validator_reward lib) payload)) (\<lambda>w.
     rbind (require_identity (wr_validator w)) (\<lambda>v.
     rbind (parse_positive_quantity (wr_amount w)) (\<lambda>q.
     Inr \<lparr>dr_validator = v, dr_amount = q\<rparr>)))"

section \<open>What a field that passes looks like\<close>

lemma decimal_from_str_ok: "decimal_from_str s = Inr d \<Longrightarrow> decimal_ok d"
  by (auto simp: decimal_from_str_iff decimal_ok_def)

lemma positive_quantity_ok: "parse_positive_quantity s = Inr q \<Longrightarrow> decimal_ok q \<and> 0 < raw q"
  by (auto simp: parse_positive_quantity_def parse_quantity_def result_simps not_le
      intro: decimal_from_str_ok split: if_splits)

lemma positive_quote_ok: "parse_positive_quote s = Inr q \<Longrightarrow> decimal_ok q \<and> 0 < raw q"
  by (auto simp: parse_positive_quote_def parse_quote_def result_simps not_le
      intro: decimal_from_str_ok split: if_splits)

lemma nonnegative_quote_ok: "parse_nonnegative_quote s = Inr q \<Longrightarrow> decimal_ok q \<and> 0 \<le> raw q"
  by (auto simp: parse_nonnegative_quote_def parse_quote_def result_simps not_less
      intro: decimal_from_str_ok split: if_splits)

lemma parse_account_ok: "payload_library_ok lib \<Longrightarrow> parse_account lib s = Inr a \<Longrightarrow> length a = 20"
  by (auto simp: parse_account_def parse_api_def result_simps payload_library_ok_def split: if_splits)

lemma payload_id_ok: "payload_id s = Inr i \<Longrightarrow> id_ok i"
  by (auto simp: payload_id_def result_simps id_ok_def)

lemma require_identity_ok: "require_identity s = Inr v \<Longrightarrow> id_ok v \<and> \<not> has_control v"
  by (auto simp: require_identity_def id_ok_def split: if_splits)

lemma decode_non_user_cancel_ok:
  "decode_non_user_cancel lib b = Inr d \<Longrightarrow>
   id_ok (dn_order_id d) \<and> decimal_ok (dn_remaining_quantity d) \<and> 0 \<le> raw (dn_remaining_quantity d)"
  by (auto simp: decode_non_user_cancel_def result_simps parse_quantity_def
      intro: payload_id_ok decimal_from_str_ok split: if_splits)

lemma decode_staking_amount_ok:
  "payload_library_ok lib \<Longrightarrow> decode_staking_amount lib k b = Inr d \<Longrightarrow>
   length (da_account_id d) = 20 \<and> decimal_ok (da_amount d) \<and> 0 < raw (da_amount d)"
  by (auto simp: decode_staking_amount_def staking_amount_def result_simps
      dest: positive_quantity_ok parse_account_ok)

lemma decode_staking_delegation_ok:
  "payload_library_ok lib \<Longrightarrow> decode_staking_delegation lib k b = Inr d \<Longrightarrow>
   length (dl_account_id d) = 20 \<and> id_ok (dl_validator d) \<and> decimal_ok (dl_amount d) \<and> 0 < raw (dl_amount d)"
  by (auto simp: decode_staking_delegation_def staking_delegation_def result_simps
      dest: positive_quantity_ok parse_account_ok require_identity_ok)

lemma decode_validator_reward_ok:
  "decode_validator_reward lib b = Inr d \<Longrightarrow>
   id_ok (dr_validator d) \<and> decimal_ok (dr_amount d) \<and> 0 < raw (dr_amount d)"
  by (auto simp: decode_validator_reward_def result_simps dest: positive_quantity_ok require_identity_ok)

lemma decode_vault_create_ok:
  "decode_vault_create lib b = Inr d \<Longrightarrow>
   id_ok (dv_vault_id d) \<and> decimal_ok (dv_amount d) \<and> 0 < raw (dv_amount d)
   \<and> decimal_ok (dv_fee d) \<and> 0 \<le> raw (dv_fee d)"
  by (auto simp: decode_vault_create_def result_simps
      dest: positive_quote_ok nonnegative_quote_ok payload_id_ok)

lemma decode_vault_dist_ok:
  "decode_vault_dist lib b = Inr d \<Longrightarrow>
   id_ok (dd_vault_id d) \<and> decimal_ok (dd_amount d) \<and> 0 < raw (dd_amount d)"
  by (auto simp: decode_vault_dist_def result_simps dest: positive_quote_ok payload_id_ok)

text \<open>What the types of an event guarantee of the fields the reducers copy.\<close>

definition event_typed :: "canonical_event \<Rightarrow> bool" where
  "event_typed e \<longleftrightarrow> id_ok (e_event_id e) \<and> length (e_payload_hash e) = 32
     \<and> (\<forall>m \<in> set (e_market_ids e). id_ok m) \<and> (\<forall>a \<in> set (e_account_ids e). length a = 20)"

section \<open>An instance of the libraries\<close>

lemma length_sample_hex_pairs: "length (sample_hex_pairs s) = length s div 2"
  by (induction s rule: sample_hex_pairs.induct) auto

definition sample_payload_library :: payload_library where
  "sample_payload_library =
     \<lparr>lib_hex_encode = sample_hex_encode, lib_hex_decode = sample_hex_decode,
      lib_derive_key = (\<lambda>_ _. replicate 32 2),
      typed_payload_envelope = (\<lambda>b. map_option (\<lambda>p. (kind_wire_name (fst p), [snd p]))
        (map_of [(1, (StakingDeposit, 1)), (2, (ValidatorRewardPaid, 1)), (3, (VaultCreated, 1)),
                 (4, (StakingDelegated, 1))] (hd b))),
      message_non_user_order_cancelled = (\<lambda>_. None), message_internal_transfer = (\<lambda>_. None),
      message_account_class_transfer = (\<lambda>_. None),
      message_vault_created = (\<lambda>_. Some \<lparr>wv_vault_id = ''v'', wv_amount = ''5'', wv_fee = ''1''\<rparr>),
      message_vault_distribution = (\<lambda>_. None),
      message_account_amount = (\<lambda>_ _. Some \<lparr>ws_account_id = to_api_string sample_hex_encode (replicate 20 7), ws_amount = ''5''\<rparr>),
      message_spot_genesis = (\<lambda>_. None),
      message_staking_delegation = (\<lambda>_ _. Some \<lparr>wl_account_id = to_api_string sample_hex_encode (replicate 20 7),
        wl_validator = ''val'', wl_amount = ''5''\<rparr>),
      message_validator_reward = (\<lambda>_. Some \<lparr>wr_validator = ''val'', wr_amount = ''5''\<rparr>)\<rparr>"

lemma sample_payload_library_ok: "payload_library_ok sample_payload_library"
  using sample_hex_law
  by (auto simp: payload_library_ok_def sample_payload_library_def sample_hex_decode_def length_sample_hex_pairs split: if_splits)

end
