(* ===== verification/Order_Records.thy ===== *)
theory Order_Records
  imports Opaque_Payload
begin

text \<open>
  The records the canonical order reducer keeps, \<^verbatim>\<open>crates/canonical-ledger/src/order.rs\<close>: one
  fact per event, the current state of each order, and one transition per event, with their
  keys, their wire form and their validation.
\<close>

section \<open>Names and errors\<close>

definition ORDER_FACT_NAMESPACE :: string where
  "ORDER_FACT_NAMESPACE = ''order-fact.v1''"

definition ORDER_CURRENT_NAMESPACE :: string where
  "ORDER_CURRENT_NAMESPACE = ''order-current.v1''"

definition ORDER_TRANSITION_NAMESPACE :: string where
  "ORDER_TRANSITION_NAMESPACE = ''order-transition.v1''"

definition ORDER_FACT_SCHEMA :: string where
  "ORDER_FACT_SCHEMA = ''hyperliquid-alpha-desk/order-fact/v1''"

definition ORDER_CURRENT_SCHEMA :: string where
  "ORDER_CURRENT_SCHEMA = ''hyperliquid-alpha-desk/order-current/v1''"

definition ORDER_TRANSITION_SCHEMA :: string where
  "ORDER_TRANSITION_SCHEMA = ''hyperliquid-alpha-desk/order-transition/v1''"

definition ORDER_CURRENT_HASH_CONTEXT :: string where
  "ORDER_CURRENT_HASH_CONTEXT = ''hyperliquid-alpha-desk/order-current-hash/v1''"

definition ORDER_REDUCER_VERSION :: string where
  "ORDER_REDUCER_VERSION = ''hyperliquid-alpha-desk-canonical-order@1.0.0''"

definition ORDER_RECORD_BYTES :: nat where
  "ORDER_RECORD_BYTES = 16 * 1024"

datatype order_state_error =
  OsInvalidKey | OsCodec | OsNonCanonical | OsInvalidRecord | OsKeyMismatch | OsLimitExceeded

datatype order_lifecycle =
  LifeAccepted | LifeRested | LifeModified | LifePartiallyFilled | LifeFilled | LifeCancelled

fun lifecycle_wire_name :: "order_lifecycle \<Rightarrow> string" where
  "lifecycle_wire_name LifeAccepted = ''accepted''"
| "lifecycle_wire_name LifeRested = ''rested''"
| "lifecycle_wire_name LifeModified = ''modified''"
| "lifecycle_wire_name LifePartiallyFilled = ''partially_filled''"
| "lifecycle_wire_name LifeFilled = ''filled''"
| "lifecycle_wire_name LifeCancelled = ''cancelled''"

definition lifecycle_parse :: "string \<Rightarrow> order_state_error + order_lifecycle" where
  "lifecycle_parse value =
     (if value = ''accepted'' then Inr LifeAccepted
      else if value = ''rested'' then Inr LifeRested
      else if value = ''modified'' then Inr LifeModified
      else if value = ''partially_filled'' then Inr LifePartiallyFilled
      else if value = ''filled'' then Inr LifeFilled
      else if value = ''cancelled'' then Inr LifeCancelled
      else Inl OsInvalidRecord)"

definition is_terminal :: "order_lifecycle \<Rightarrow> bool" where
  "is_terminal l \<longleftrightarrow> l = LifeFilled \<or> l = LifeCancelled"

definition rests_on_book :: "order_lifecycle \<Rightarrow> bool" where
  "rests_on_book l \<longleftrightarrow> \<not> is_terminal l"

datatype order_transition_status = StatusApplied | StatusRecordedRejection

fun status_wire_name :: "order_transition_status \<Rightarrow> string" where
  "status_wire_name StatusApplied = ''applied''"
| "status_wire_name StatusRecordedRejection = ''recorded_rejection''"

definition status_parse :: "string \<Rightarrow> order_state_error + order_transition_status" where
  "status_parse value =
     (if value = ''applied'' then Inr StatusApplied
      else if value = ''recorded_rejection'' then Inr StatusRecordedRejection
      else Inl OsInvalidRecord)"

definition is_order_kind :: "event_kind \<Rightarrow> bool" where
  "is_order_kind k \<longleftrightarrow>
     k \<in> {OrderAccepted, OrderRested, OrderModified, OrderPartiallyFilled, OrderFilled, OrderCancelled,
          NonUserOrderCancelled, OrderRejected}"

definition parse_order_kind :: "string \<Rightarrow> order_state_error + event_kind" where
  "parse_order_kind value =
     rbind (map_err (\<lambda>_. OsInvalidRecord) (kind_from_wire value)) (\<lambda>k.
     if is_order_kind k then Inr k else Inl OsInvalidRecord)"

section \<open>Keys\<close>

definition extend_frame :: "bytes \<Rightarrow> bytes \<Rightarrow> order_state_error + bytes" where
  "extend_frame target value =
     (if length value \<ge> 2 ^ 64 then Inl OsInvalidKey else Inr (target @ frame value))"

definition current_identity_key :: "market_id \<Rightarrow> order_id \<Rightarrow> order_state_error + bytes" where
  "current_identity_key market order =
     rbind (extend_frame [0] (str_bytes market)) (\<lambda>k. extend_frame k (str_bytes order))"

definition order_identity_key :: "market_id \<Rightarrow> order_id \<Rightarrow> string \<Rightarrow> order_state_error + bytes" where
  "order_identity_key market order event =
     rbind (current_identity_key market order) (\<lambda>k. extend_frame k (str_bytes event))"

definition rejection_identity_key ::
  "address \<Rightarrow> client_order_id \<Rightarrow> string \<Rightarrow> order_state_error + bytes" where
  "rejection_identity_key account client event =
     rbind (extend_frame [1] account) (\<lambda>k.
     rbind (extend_frame k (str_bytes client)) (\<lambda>k.
     extend_frame k (str_bytes event)))"

definition order_state_key :: "string \<Rightarrow> bytes \<Rightarrow> order_state_error + state_key" where
  "order_state_key ns k = map_err (\<lambda>_. OsInvalidKey) (state_key_new ns k)"

text \<open>
  \<^verbatim>\<open>state_key_for_order\<close> and \<^verbatim>\<open>state_key_for_rejection\<close> are the same for facts and transitions,
  apart from the namespace.
\<close>

definition state_key_for_order ::
  "string \<Rightarrow> market_id \<Rightarrow> order_id \<Rightarrow> string \<Rightarrow> order_state_error + state_key" where
  "state_key_for_order ns market order event =
     rbind (order_identity_key market order event) (order_state_key ns)"

definition state_key_for_rejection ::
  "string \<Rightarrow> address \<Rightarrow> client_order_id \<Rightarrow> string \<Rightarrow> order_state_error + state_key" where
  "state_key_for_rejection ns account client event =
     rbind (rejection_identity_key account client event) (order_state_key ns)"

definition current_state_key :: "market_id \<Rightarrow> order_id \<Rightarrow> order_state_error + state_key" where
  "current_state_key market order =
     rbind (current_identity_key market order) (order_state_key ORDER_CURRENT_NAMESPACE)"

section \<open>Records and their wire form\<close>

record order_fact_record =
  ofr_event_id :: string
  ofr_event_kind :: event_kind
  ofr_order_id :: "order_id option"
  ofr_client_order_id :: "client_order_id option"
  ofr_account_id :: address
  ofr_market_id :: "market_id option"
  ofr_block_height :: block_height
  ofr_payload_hash :: hash

record order_current_record =
  ocr_order_id :: order_id
  ocr_account_id :: address
  ocr_market_id :: market_id
  ocr_side :: order_side
  ocr_lifecycle :: order_lifecycle
  ocr_limit_price :: decimal
  ocr_accepted_quantity :: decimal
  ocr_filled_quantity :: decimal
  ocr_remaining_quantity :: decimal
  ocr_accepted_event_id :: string
  ocr_last_event_id :: string
  ocr_last_block_height :: block_height

record order_transition_record =
  otr_event_id :: string
  otr_event_kind :: event_kind
  otr_order_id :: "order_id option"
  otr_client_order_id :: "client_order_id option"
  otr_account_id :: address
  otr_market_id :: "market_id option"
  otr_block_height :: block_height
  otr_payload_hash :: hash
  otr_prior_state_hash :: "hash option"
  otr_result_state_hash :: "hash option"
  otr_rule_version :: string
  otr_status :: order_transition_status

record order_fact_wire =
  ofw_schema :: string
  ofw_event_id :: string
  ofw_event_kind :: string
  ofw_order_id :: "string option"
  ofw_client_order_id :: "string option"
  ofw_account_id :: string
  ofw_market_id :: "string option"
  ofw_block_height :: u64
  ofw_payload_blake3 :: string

record order_current_wire =
  ocw_schema :: string
  ocw_order_id :: string
  ocw_account_id :: string
  ocw_market_id :: string
  ocw_side :: string
  ocw_lifecycle :: string
  ocw_limit_price :: string
  ocw_accepted_quantity :: string
  ocw_filled_quantity :: string
  ocw_remaining_quantity :: string
  ocw_accepted_event_id :: string
  ocw_last_event_id :: string
  ocw_last_block_height :: u64

record order_transition_wire =
  otw_schema :: string
  otw_event_id :: string
  otw_event_kind :: string
  otw_order_id :: "string option"
  otw_client_order_id :: "string option"
  otw_account_id :: string
  otw_market_id :: "string option"
  otw_block_height :: u64
  otw_payload_blake3 :: string
  otw_prior_state_blake3 :: "string option"
  otw_result_state_blake3 :: "string option"
  otw_rule_version :: string
  otw_status :: string

record order_library = payload_library +
  order_fact_json :: "order_fact_wire json"
  order_current_json :: "order_current_wire json"
  order_transition_json :: "order_transition_wire json"

definition order_library_ok :: "order_library \<Rightarrow> bool" where
  "order_library_ok lib \<longleftrightarrow> payload_library_ok lib \<and> json_law (order_fact_json lib)
     \<and> json_law (order_current_json lib) \<and> json_law (order_transition_json lib)"

definition order_encode_canonical :: "'w json \<Rightarrow> 'w \<Rightarrow> order_state_error + bytes" where
  "order_encode_canonical j w = encode_bounded OsCodec OsLimitExceeded ORDER_RECORD_BYTES j w"

definition order_decode_canonical :: "'w json \<Rightarrow> bytes \<Rightarrow> order_state_error + 'w" where
  "order_decode_canonical j b =
     decode_bounded OsCodec OsLimitExceeded OsNonCanonical ORDER_RECORD_BYTES j b"

definition order_decode_hash :: "order_library \<Rightarrow> string \<Rightarrow> order_state_error + hash" where
  "order_decode_hash lib value = decode_hash_or OsInvalidRecord (lib_hex_decode lib) value"

definition hash_current :: "order_library \<Rightarrow> bytes \<Rightarrow> hash" where
  "hash_current lib b = lib_derive_key lib ORDER_CURRENT_HASH_CONTEXT b"

definition order_id_field :: "string \<Rightarrow> order_state_error + string" where
  "order_id_field value = map_err (\<lambda>_. OsInvalidRecord) (string_id_new value)"

definition order_account_field :: "order_library \<Rightarrow> string \<Rightarrow> order_state_error + address" where
  "order_account_field lib value = map_err (\<lambda>_. OsInvalidRecord) (parse_api (lib_hex_decode lib) value)"

definition order_decimal_field :: "string \<Rightarrow> order_state_error + decimal" where
  "order_decimal_field value = map_err (\<lambda>_. OsInvalidRecord) (decimal_from_str value)"

subsection \<open>Facts\<close>

definition fact_state_key :: "order_fact_record \<Rightarrow> order_state_error + state_key" where
  "fact_state_key r =
     (case (ofr_market_id r, ofr_order_id r, ofr_client_order_id r) of
        (Some market, Some order, None) \<Rightarrow>
          state_key_for_order ORDER_FACT_NAMESPACE market order (ofr_event_id r)
      | (None, None, Some client) \<Rightarrow>
          state_key_for_rejection ORDER_FACT_NAMESPACE (ofr_account_id r) client (ofr_event_id r)
      | _ \<Rightarrow> Inl OsInvalidRecord)"

definition valid_identity_shape :: "order_fact_record \<Rightarrow> bool" where
  "valid_identity_shape r \<longleftrightarrow>
     (if ofr_event_kind r = OrderRejected
      then ofr_order_id r = None \<and> ofr_market_id r = None \<and> ofr_client_order_id r \<noteq> None
      else is_order_kind (ofr_event_kind r) \<and> ofr_order_id r \<noteq> None \<and> ofr_market_id r \<noteq> None
        \<and> ofr_client_order_id r = None)"

definition fact_encode :: "order_library \<Rightarrow> order_fact_record \<Rightarrow> order_state_error + bytes" where
  "fact_encode lib r =
     (if \<not> valid_identity_shape r then Inl OsInvalidRecord
      else order_encode_canonical (order_fact_json lib)
        \<lparr>ofw_schema = ORDER_FACT_SCHEMA, ofw_event_id = ofr_event_id r,
         ofw_event_kind = kind_wire_name (ofr_event_kind r), ofw_order_id = ofr_order_id r,
         ofw_client_order_id = ofr_client_order_id r,
         ofw_account_id = to_api_string (lib_hex_encode lib) (ofr_account_id r),
         ofw_market_id = ofr_market_id r, ofw_block_height = ofr_block_height r,
         ofw_payload_blake3 = lib_hex_encode lib (ofr_payload_hash r)\<rparr>)"

definition fact_decode :: "order_library \<Rightarrow> bytes \<Rightarrow> order_state_error + order_fact_record" where
  "fact_decode lib b =
     rbind (order_decode_canonical (order_fact_json lib) b) (\<lambda>w.
     if ofw_schema w \<noteq> ORDER_FACT_SCHEMA then Inl OsInvalidRecord
     else
       rbind (parse_order_kind (ofw_event_kind w)) (\<lambda>kind.
       rbind (order_id_field (ofw_event_id w)) (\<lambda>event.
       rbind (transpose_map order_id_field (ofw_order_id w)) (\<lambda>order.
       rbind (transpose_map order_id_field (ofw_client_order_id w)) (\<lambda>client.
       rbind (order_account_field lib (ofw_account_id w)) (\<lambda>account.
       rbind (transpose_map order_id_field (ofw_market_id w)) (\<lambda>market.
       rbind (order_decode_hash lib (ofw_payload_blake3 w)) (\<lambda>hash.
       let r = \<lparr>ofr_event_id = event, ofr_event_kind = kind, ofr_order_id = order,
                ofr_client_order_id = client, ofr_account_id = account, ofr_market_id = market,
                ofr_block_height = ofw_block_height w, ofr_payload_hash = hash\<rparr> in
       if \<not> valid_identity_shape r then Inl OsInvalidRecord else Inr r))))))))"

definition fact_decode_at ::
  "order_library \<Rightarrow> state_key \<Rightarrow> bytes \<Rightarrow> order_state_error + order_fact_record" where
  "fact_decode_at lib key b = decode_at_key OsKeyMismatch fact_state_key (fact_decode lib) key b"

subsection \<open>Current orders\<close>

definition current_validate :: "order_current_record \<Rightarrow> order_state_error + unit" where
  "current_validate r =
     (if raw (ocr_limit_price r) \<le> 0 \<or> raw (ocr_accepted_quantity r) \<le> 0
         \<or> raw (ocr_filled_quantity r) < 0 \<or> raw (ocr_remaining_quantity r) < 0
      then Inl OsInvalidRecord
      else
        rbind (map_err (\<lambda>_. OsInvalidRecord)
                 (checked_add (ocr_filled_quantity r) (ocr_remaining_quantity r))) (\<lambda>sum.
        if \<not> decimal_eq sum (ocr_accepted_quantity r)
           \<or> (ocr_lifecycle r = LifeFilled \<and> raw (ocr_remaining_quantity r) \<noteq> 0)
           \<or> (\<not> is_terminal (ocr_lifecycle r) \<and> raw (ocr_remaining_quantity r) \<le> 0)
        then Inl OsInvalidRecord else Inr ()))"

definition current_encode :: "order_library \<Rightarrow> order_current_record \<Rightarrow> order_state_error + bytes" where
  "current_encode lib r =
     rbind (current_validate r) (\<lambda>_.
     order_encode_canonical (order_current_json lib)
       \<lparr>ocw_schema = ORDER_CURRENT_SCHEMA, ocw_order_id = ocr_order_id r,
        ocw_account_id = to_api_string (lib_hex_encode lib) (ocr_account_id r),
        ocw_market_id = ocr_market_id r, ocw_side = as_wire_name (ocr_side r),
        ocw_lifecycle = lifecycle_wire_name (ocr_lifecycle r),
        ocw_limit_price = decimal_display (ocr_limit_price r),
        ocw_accepted_quantity = decimal_display (ocr_accepted_quantity r),
        ocw_filled_quantity = decimal_display (ocr_filled_quantity r),
        ocw_remaining_quantity = decimal_display (ocr_remaining_quantity r),
        ocw_accepted_event_id = ocr_accepted_event_id r, ocw_last_event_id = ocr_last_event_id r,
        ocw_last_block_height = ocr_last_block_height r\<rparr>)"

definition current_decode :: "order_library \<Rightarrow> bytes \<Rightarrow> order_state_error + order_current_record" where
  "current_decode lib b =
     rbind (order_decode_canonical (order_current_json lib) b) (\<lambda>w.
     if ocw_schema w \<noteq> ORDER_CURRENT_SCHEMA then Inl OsInvalidRecord
     else
       rbind (order_id_field (ocw_order_id w)) (\<lambda>order.
       rbind (order_account_field lib (ocw_account_id w)) (\<lambda>account.
       rbind (order_id_field (ocw_market_id w)) (\<lambda>market.
       rbind (map_err (\<lambda>_. OsInvalidRecord) (parse_wire (ocw_side w))) (\<lambda>side.
       rbind (lifecycle_parse (ocw_lifecycle w)) (\<lambda>lifecycle.
       rbind (order_decimal_field (ocw_limit_price w)) (\<lambda>limit.
       rbind (order_decimal_field (ocw_accepted_quantity w)) (\<lambda>accepted.
       rbind (order_decimal_field (ocw_filled_quantity w)) (\<lambda>filled.
       rbind (order_decimal_field (ocw_remaining_quantity w)) (\<lambda>remaining.
       rbind (order_id_field (ocw_accepted_event_id w)) (\<lambda>accepted_event.
       rbind (order_id_field (ocw_last_event_id w)) (\<lambda>last_event.
       let r = \<lparr>ocr_order_id = order, ocr_account_id = account, ocr_market_id = market,
                ocr_side = side, ocr_lifecycle = lifecycle, ocr_limit_price = limit,
                ocr_accepted_quantity = accepted, ocr_filled_quantity = filled,
                ocr_remaining_quantity = remaining, ocr_accepted_event_id = accepted_event,
                ocr_last_event_id = last_event, ocr_last_block_height = ocw_last_block_height w\<rparr> in
       rbind (current_validate r) (\<lambda>_. Inr r)))))))))))))"

definition current_key_of :: "order_current_record \<Rightarrow> order_state_error + state_key" where
  "current_key_of r = current_state_key (ocr_market_id r) (ocr_order_id r)"

definition current_decode_at ::
  "order_library \<Rightarrow> state_key \<Rightarrow> bytes \<Rightarrow> order_state_error + order_current_record" where
  "current_decode_at lib key b = decode_at_key OsKeyMismatch current_key_of (current_decode lib) key b"

subsection \<open>Transitions\<close>

definition transition_state_key :: "order_transition_record \<Rightarrow> order_state_error + state_key" where
  "transition_state_key r =
     (case (otr_market_id r, otr_order_id r, otr_client_order_id r) of
        (Some market, Some order, None) \<Rightarrow>
          state_key_for_order ORDER_TRANSITION_NAMESPACE market order (otr_event_id r)
      | (None, None, Some client) \<Rightarrow>
          state_key_for_rejection ORDER_TRANSITION_NAMESPACE (otr_account_id r) client (otr_event_id r)
      | _ \<Rightarrow> Inl OsInvalidRecord)"

definition transition_validate :: "order_transition_record \<Rightarrow> order_state_error + unit" where
  "transition_validate r =
     (if otr_rule_version r \<noteq> ORDER_REDUCER_VERSION then Inl OsInvalidRecord
      else case otr_status r of
        StatusApplied \<Rightarrow>
          if otr_event_kind r = OrderRejected \<or> otr_order_id r = None \<or> otr_market_id r = None
             \<or> otr_client_order_id r \<noteq> None \<or> otr_result_state_hash r = None
             \<or> (otr_event_kind r = OrderAccepted \<and> otr_prior_state_hash r \<noteq> None)
             \<or> (otr_event_kind r \<noteq> OrderAccepted \<and> otr_prior_state_hash r = None)
          then Inl OsInvalidRecord else Inr ()
      | StatusRecordedRejection \<Rightarrow>
          if otr_event_kind r \<noteq> OrderRejected \<or> otr_order_id r \<noteq> None \<or> otr_market_id r \<noteq> None
             \<or> otr_client_order_id r = None \<or> otr_prior_state_hash r \<noteq> None
             \<or> otr_result_state_hash r \<noteq> None
          then Inl OsInvalidRecord else Inr ())"

definition transition_encode :: "order_library \<Rightarrow> order_transition_record \<Rightarrow> order_state_error + bytes" where
  "transition_encode lib r =
     rbind (transition_validate r) (\<lambda>_.
     order_encode_canonical (order_transition_json lib)
       \<lparr>otw_schema = ORDER_TRANSITION_SCHEMA, otw_event_id = otr_event_id r,
        otw_event_kind = kind_wire_name (otr_event_kind r), otw_order_id = otr_order_id r,
        otw_client_order_id = otr_client_order_id r,
        otw_account_id = to_api_string (lib_hex_encode lib) (otr_account_id r),
        otw_market_id = otr_market_id r, otw_block_height = otr_block_height r,
        otw_payload_blake3 = lib_hex_encode lib (otr_payload_hash r),
        otw_prior_state_blake3 = map_option (lib_hex_encode lib) (otr_prior_state_hash r),
        otw_result_state_blake3 = map_option (lib_hex_encode lib) (otr_result_state_hash r),
        otw_rule_version = otr_rule_version r, otw_status = status_wire_name (otr_status r)\<rparr>)"

definition transition_decode :: "order_library \<Rightarrow> bytes \<Rightarrow> order_state_error + order_transition_record" where
  "transition_decode lib b =
     rbind (order_decode_canonical (order_transition_json lib) b) (\<lambda>w.
     if otw_schema w \<noteq> ORDER_TRANSITION_SCHEMA then Inl OsInvalidRecord
     else
       rbind (order_id_field (otw_event_id w)) (\<lambda>event.
       rbind (parse_order_kind (otw_event_kind w)) (\<lambda>kind.
       rbind (transpose_map order_id_field (otw_order_id w)) (\<lambda>order.
       rbind (transpose_map order_id_field (otw_client_order_id w)) (\<lambda>client.
       rbind (order_account_field lib (otw_account_id w)) (\<lambda>account.
       rbind (transpose_map order_id_field (otw_market_id w)) (\<lambda>market.
       rbind (order_decode_hash lib (otw_payload_blake3 w)) (\<lambda>hash.
       rbind (transpose_map (order_decode_hash lib) (otw_prior_state_blake3 w)) (\<lambda>prior.
       rbind (transpose_map (order_decode_hash lib) (otw_result_state_blake3 w)) (\<lambda>result.
       rbind (status_parse (otw_status w)) (\<lambda>status.
       let r = \<lparr>otr_event_id = event, otr_event_kind = kind, otr_order_id = order,
                otr_client_order_id = client, otr_account_id = account, otr_market_id = market,
                otr_block_height = otw_block_height w, otr_payload_hash = hash,
                otr_prior_state_hash = prior, otr_result_state_hash = result,
                otr_rule_version = otw_rule_version w, otr_status = status\<rparr> in
       rbind (transition_validate r) (\<lambda>_. Inr r))))))))))))"

definition transition_decode_at ::
  "order_library \<Rightarrow> state_key \<Rightarrow> bytes \<Rightarrow> order_state_error + order_transition_record" where
  "transition_decode_at lib key b =
     decode_at_key OsKeyMismatch transition_state_key (transition_decode lib) key b"

section \<open>Records are read back as they were written\<close>

lemma lifecycle_roundtrip [simp]: "lifecycle_parse (lifecycle_wire_name l) = Inr l"
  by (cases l) (simp_all add: lifecycle_parse_def)

lemma status_roundtrip [simp]: "status_parse (status_wire_name s) = Inr s"
  by (cases s) (simp_all add: status_parse_def)

lemma parse_order_kind_roundtrip: "is_order_kind k \<Longrightarrow> parse_order_kind (kind_wire_name k) = Inr k"
  by (simp add: parse_order_kind_def kind_roundtrip)

lemma order_fields [simp]:
  "id_ok s \<Longrightarrow> order_id_field s = Inr s"
  "decimal_ok d \<Longrightarrow> order_decimal_field (decimal_display d) = Inr d"
  "\<forall>s. x = Some s \<longrightarrow> id_ok s \<Longrightarrow> transpose_map order_id_field x = Inr x"
  by (simp_all add: order_id_field_def order_decimal_field_def) (cases x; simp add: order_id_field_def)

lemma order_hex_fields:
  assumes "payload_library_ok lib"
  shows "length a = 20 \<Longrightarrow> order_account_field lib (to_api_string (lib_hex_encode lib) a) = Inr a"
    and "length h = 32 \<Longrightarrow> order_decode_hash lib (lib_hex_encode lib h) = Inr h"
    and "\<forall>h. x = Some h \<longrightarrow> length h = 32 \<Longrightarrow>
      transpose_map (order_decode_hash lib) (map_option (lib_hex_encode lib) x) = Inr x"
proof -
  have hex: "hex_law (lib_hex_encode lib) (lib_hex_decode lib)"
    using assms by (simp add: payload_library_ok_def)
  show "length a = 20 \<Longrightarrow> order_account_field lib (to_api_string (lib_hex_encode lib) a) = Inr a"
    by (simp add: order_account_field_def parse_api_to_api_string [OF hex])
  have h: "order_decode_hash lib (lib_hex_encode lib h) = Inr h" if "length h = 32" for h
    by (simp add: order_decode_hash_def decode_hash_encode [OF hex that])
  then show "length h = 32 \<Longrightarrow> order_decode_hash lib (lib_hex_encode lib h) = Inr h" .
  show "\<forall>h. x = Some h \<longrightarrow> length h = 32 \<Longrightarrow>
      transpose_map (order_decode_hash lib) (map_option (lib_hex_encode lib) x) = Inr x"
    by (cases x) (simp_all add: h)
qed

definition fact_storable :: "order_library \<Rightarrow> order_fact_record \<Rightarrow> bool" where
  "fact_storable lib r \<longleftrightarrow> order_library_ok lib \<and> id_ok (ofr_event_id r)
     \<and> (\<forall>s. ofr_order_id r = Some s \<longrightarrow> id_ok s) \<and> (\<forall>s. ofr_client_order_id r = Some s \<longrightarrow> id_ok s)
     \<and> (\<forall>s. ofr_market_id r = Some s \<longrightarrow> id_ok s) \<and> length (ofr_account_id r) = 20
     \<and> length (ofr_payload_hash r) = 32"

definition current_storable :: "order_library \<Rightarrow> order_current_record \<Rightarrow> bool" where
  "current_storable lib r \<longleftrightarrow> order_library_ok lib \<and> id_ok (ocr_order_id r) \<and> id_ok (ocr_market_id r)
     \<and> length (ocr_account_id r) = 20 \<and> decimal_ok (ocr_limit_price r)
     \<and> decimal_ok (ocr_accepted_quantity r) \<and> decimal_ok (ocr_filled_quantity r)
     \<and> decimal_ok (ocr_remaining_quantity r) \<and> id_ok (ocr_accepted_event_id r) \<and> id_ok (ocr_last_event_id r)"

definition transition_storable :: "order_library \<Rightarrow> order_transition_record \<Rightarrow> bool" where
  "transition_storable lib r \<longleftrightarrow> order_library_ok lib \<and> id_ok (otr_event_id r) \<and> is_order_kind (otr_event_kind r)
     \<and> (\<forall>s. otr_order_id r = Some s \<longrightarrow> id_ok s) \<and> (\<forall>s. otr_client_order_id r = Some s \<longrightarrow> id_ok s)
     \<and> (\<forall>s. otr_market_id r = Some s \<longrightarrow> id_ok s) \<and> length (otr_account_id r) = 20
     \<and> length (otr_payload_hash r) = 32 \<and> (\<forall>h. otr_prior_state_hash r = Some h \<longrightarrow> length h = 32)
     \<and> (\<forall>h. otr_result_state_hash r = Some h \<longrightarrow> length h = 32)"

lemma order_decode_encode_canonical:
  "json_law j \<Longrightarrow> order_encode_canonical j w = Inr b \<Longrightarrow> order_decode_canonical j b = Inr w"
  by (simp add: order_encode_canonical_def order_decode_canonical_def decode_encode_bounded)

lemma fact_decode_encode:
  assumes s: "fact_storable lib r" and e: "fact_encode lib r = Inr b"
  shows "fact_decode lib b = Inr r"
proof -
  have v: "valid_identity_shape r" using e by (auto simp: fact_encode_def split: if_splits)
  then have k: "parse_order_kind (kind_wire_name (ofr_event_kind r)) = Inr (ofr_event_kind r)"
    by (intro parse_order_kind_roundtrip) (auto simp: valid_identity_shape_def is_order_kind_def split: if_splits)
  note d = order_decode_encode_canonical [OF _ e [unfolded fact_encode_def, simplified v, simplified]]
  have self: "\<lparr>ofr_event_id = ofr_event_id r, ofr_event_kind = ofr_event_kind r, ofr_order_id =
      ofr_order_id r, ofr_client_order_id = ofr_client_order_id r, ofr_account_id =
      ofr_account_id r, ofr_market_id = ofr_market_id r, ofr_block_height = ofr_block_height r,
      ofr_payload_hash = ofr_payload_hash r\<rparr> = r"
    by simp
  show ?thesis using s v k
    by (simp add: fact_decode_def d self fact_storable_def order_library_ok_def order_hex_fields Let_def)
qed

lemma current_decode_encode:
  assumes s: "current_storable lib r" and e: "current_encode lib r = Inr b"
  shows "current_decode lib b = Inr r"
proof -
  have v: "current_validate r = Inr ()" using e by (auto simp: current_encode_def result_simps)
  note d = order_decode_encode_canonical [OF _ e [unfolded current_encode_def, simplified v, simplified]]
  have self: "\<lparr>ocr_order_id = ocr_order_id r, ocr_account_id = ocr_account_id r, ocr_market_id =
      ocr_market_id r, ocr_side = ocr_side r, ocr_lifecycle = ocr_lifecycle r, ocr_limit_price =
      ocr_limit_price r, ocr_accepted_quantity = ocr_accepted_quantity r, ocr_filled_quantity =
      ocr_filled_quantity r, ocr_remaining_quantity = ocr_remaining_quantity r,
      ocr_accepted_event_id = ocr_accepted_event_id r, ocr_last_event_id = ocr_last_event_id r,
      ocr_last_block_height = ocr_last_block_height r\<rparr> = r"
    by simp
  show ?thesis using s v
    by (simp add: current_decode_def d self current_storable_def order_library_ok_def order_hex_fields Let_def
        parse_wire_Inr [THEN iffD2])
qed

lemma transition_decode_encode:
  assumes s: "transition_storable lib r" and e: "transition_encode lib r = Inr b"
  shows "transition_decode lib b = Inr r"
proof -
  have v: "transition_validate r = Inr ()" using e by (auto simp: transition_encode_def result_simps)
  note d = order_decode_encode_canonical [OF _ e [unfolded transition_encode_def, simplified v, simplified]]
  have self: "\<lparr>otr_event_id = otr_event_id r, otr_event_kind = otr_event_kind r, otr_order_id =
      otr_order_id r, otr_client_order_id = otr_client_order_id r, otr_account_id =
      otr_account_id r, otr_market_id = otr_market_id r, otr_block_height = otr_block_height r,
      otr_payload_hash = otr_payload_hash r, otr_prior_state_hash = otr_prior_state_hash r,
      otr_result_state_hash = otr_result_state_hash r, otr_rule_version = otr_rule_version r,
      otr_status = otr_status r\<rparr> = r"
    by simp
  show ?thesis using s v
    by (simp add: transition_decode_def d self transition_storable_def order_library_ok_def order_hex_fields Let_def
        parse_order_kind_roundtrip)
qed

interpretation fact: stored_record OsKeyMismatch "fact_storable lib" fact_state_key
  "fact_encode lib" "fact_decode lib" for lib
  by unfold_locales (rule fact_decode_encode)

interpretation current: stored_record OsKeyMismatch "current_storable lib" current_key_of
  "current_encode lib" "current_decode lib" for lib
  by unfold_locales (rule current_decode_encode)

interpretation transition: stored_record OsKeyMismatch "transition_storable lib" transition_state_key
  "transition_encode lib" "transition_decode lib" for lib
  by unfold_locales (rule transition_decode_encode)

section \<open>Keys identify records\<close>

lemma extend_frame_Inr [simp]: "extend_frame t v = Inr k \<longleftrightarrow> short v \<and> k = t @ frame v"
  by (auto simp: extend_frame_def short_def)

lemma order_state_key_Inr [simp]:
  "order_state_key ns b = Inr k \<longleftrightarrow> state_key_new ns b = Inr k"
  by (simp add: order_state_key_def result_simps)

lemma state_key_new_Inr: "state_key_new ns b = Inr k \<Longrightarrow> k = StateKey ns b \<and> key_constructed k"
  by (auto simp: state_key_new_def key_constructed_def split: if_splits)

lemma current_state_key_Inr:
  assumes "current_state_key m i = Inr k"
  shows "k = StateKey ORDER_CURRENT_NAMESPACE (0 # frame (str_bytes m) @ frame (str_bytes i))"
    and "short m" and "short i" and "key_constructed k"
  using assms by (auto simp: current_state_key_def current_identity_key_def result_simps dest: state_key_new_Inr)

lemma state_key_for_order_Inr:
  assumes "state_key_for_order ns m i e = Inr k"
  shows "k = StateKey ns (0 # frame (str_bytes m) @ frame (str_bytes i) @ frame (str_bytes e))"
    and "short m" and "short i" and "short e" and "key_constructed k"
  using assms
  by (auto simp: state_key_for_order_def order_identity_key_def current_identity_key_def result_simps
      dest: state_key_new_Inr)

lemma state_key_for_rejection_Inr:
  assumes "state_key_for_rejection ns a c e = Inr k"
  shows "k = StateKey ns (1 # frame a @ frame (str_bytes c) @ frame (str_bytes e))"
    and "short a" and "short c" and "short e" and "key_constructed k"
  using assms
  by (auto simp: state_key_for_rejection_def rejection_identity_key_def result_simps dest: state_key_new_Inr)

lemma current_state_key_inject:
  "current_state_key m i = Inr k \<Longrightarrow> current_state_key n j = Inr k \<Longrightarrow> m = n \<and> i = j"
  using current_state_key_Inr [of m i k] current_state_key_Inr [of n j k]
  by (simp add: frame_cancel frame_inject)

end
