(* ===== verification/Order_Reducer.thy ===== *)
theory Order_Reducer
  imports Order_Records
begin

text \<open>
  The canonical order reducer, \<^verbatim>\<open>crates/canonical-ledger/src/order.rs\<close>: the semantic checks of
  a payload, the life cycle of an order, and the mutations one event gives rise to. The
  abstract view of the state is a map from market and order to the current record; the
  reducer implements the abstract step on it, and keeps one fact and one transition of every
  event.
\<close>

section \<open>Errors and checks\<close>

definition order_error :: "string \<Rightarrow> string \<Rightarrow> reducer_error + 'a" where
  "order_error reason_code msg = Inl (from_static reason_code msg)"

definition arithmetic_error :: reducer_error where
  "arithmetic_error = from_static ''order_state.arithmetic_overflow''
     ''order quantity arithmetic overflowed''"

fun codec_reducer_error :: "order_state_error \<Rightarrow> reducer_error" where
  "codec_reducer_error OsInvalidKey =
     from_static ''order_state.codec_invalid_key'' ''order state key encoding failed''"
| "codec_reducer_error OsLimitExceeded =
     from_static ''order_state.codec_limit_exceeded'' ''order state record exceeds its deterministic bound''"
| "codec_reducer_error e =
     from_static ''order_state.codec_failed'' ''order state record encoding failed''"

definition positive_price :: "decimal \<Rightarrow> reducer_error + unit" where
  "positive_price value =
     (if raw value \<le> 0 then order_error ''order_state.invalid_price'' ''order price must be positive''
      else Inr ())"

definition positive_quantity :: "decimal \<Rightarrow> reducer_error + unit" where
  "positive_quantity value =
     (if raw value \<le> 0 then order_error ''order_state.invalid_quantity'' ''order quantity must be positive''
      else Inr ())"

definition validate_payload_semantics ::
  "order_library \<Rightarrow> event_payload \<Rightarrow> reducer_error + unit" where
  "validate_payload_semantics lib payload =
     (case payload of
        OrderAcceptedPayload v \<Rightarrow>
          rbind (positive_price (oa_limit_price v)) (\<lambda>_. positive_quantity (oa_quantity v))
      | OrderRestedPayload v \<Rightarrow>
          rbind (positive_price (or_limit_price v)) (\<lambda>_. positive_quantity (or_remaining_quantity v))
      | OrderModifiedPayload v \<Rightarrow>
          rbind (positive_price (om_previous_price v)) (\<lambda>_.
          rbind (positive_price (om_new_price v)) (\<lambda>_.
          rbind (positive_quantity (om_previous_quantity v)) (\<lambda>_.
          rbind (positive_quantity (om_new_quantity v)) (\<lambda>_.
          if decimal_eq (om_previous_price v) (om_new_price v)
             \<and> decimal_eq (om_previous_quantity v) (om_new_quantity v)
          then order_error ''order_state.invalid_modification''
                 ''order modification must change price or quantity''
          else Inr ()))))
      | OrderPartiallyFilledPayload v \<Rightarrow>
          rbind (positive_price (op_fill_price v)) (\<lambda>_.
          rbind (positive_quantity (op_fill_quantity v)) (\<lambda>_.
          positive_quantity (op_remaining_quantity v)))
      | OrderFilledPayload v \<Rightarrow>
          rbind (positive_price (of_fill_price v)) (\<lambda>_. positive_quantity (of_fill_quantity v))
      | OrderCancelledPayload v \<Rightarrow>
          if raw (oc_remaining_quantity v) < 0
          then order_error ''order_state.invalid_quantity'' ''order quantity must be nonnegative''
          else Inr ()
      | OrderRejectedPayload v \<Rightarrow>
          if invalid_text (oj_reason_code v) 128 \<or> invalid_text (oj_reason v) 1024
          then order_error ''order_state.invalid_rejection'' ''order rejection reason contract is invalid''
          else Inr ()
      | EncodedPayload k b \<Rightarrow>
          if k = NonUserOrderCancelled then rmap (\<lambda>_. ()) (decode_non_user_cancel lib b)
          else order_error ''order_state.invalid_event'' ''order reducer received a non-order payload''
      | TradeMatchedPayload v \<Rightarrow>
          order_error ''order_state.invalid_event'' ''order reducer received a non-order payload'')"

definition transition_allowed :: "order_lifecycle \<Rightarrow> event_kind \<Rightarrow> bool" where
  "transition_allowed l k =
     (if k = OrderRested then l \<in> {LifeAccepted, LifeModified}
      else if k = OrderModified then l \<in> {LifeAccepted, LifeRested, LifeModified, LifePartiallyFilled}
      else if k \<in> {OrderPartiallyFilled, OrderFilled, OrderCancelled, NonUserOrderCancelled}
      then \<not> is_terminal l
      else False)"

section \<open>Transitions of an order\<close>

definition order_touched :: "canonical_event \<Rightarrow> order_current_record \<Rightarrow> order_current_record" where
  "order_touched event r =
     r\<lparr>ocr_last_event_id := e_event_id event, ocr_last_block_height := e_block_height event\<rparr>"

definition cancel_current ::
  "order_id \<Rightarrow> decimal \<Rightarrow> order_current_record \<Rightarrow> reducer_error + order_current_record" where
  "cancel_current order left current =
     (if order \<noteq> ocr_order_id current
      then order_error ''order_state.identity_mismatch'' ''cancelled order identity must match current state''
      else if \<not> decimal_eq left (ocr_remaining_quantity current)
      then order_error ''order_state.remaining_mismatch'' ''cancellation remainder must match current state''
      else Inr (current\<lparr>ocr_lifecycle := LifeCancelled\<rparr>))"

definition transition_body ::
  "order_library \<Rightarrow> order_current_record \<Rightarrow> event_payload \<Rightarrow> reducer_error + order_current_record" where
  "transition_body lib current payload =
     (case payload of
        OrderRestedPayload v \<Rightarrow>
          if or_order_id v \<noteq> ocr_order_id current \<or> or_market_id v \<noteq> ocr_market_id current
          then order_error ''order_state.identity_mismatch'' ''rested order identity must match current state''
          else if \<not> decimal_eq (or_limit_price v) (ocr_limit_price current)
                  \<or> \<not> decimal_eq (or_remaining_quantity v) (ocr_remaining_quantity current)
          then order_error ''order_state.remaining_mismatch'' ''rested payload must match the exact current order''
          else Inr (current\<lparr>ocr_lifecycle := LifeRested\<rparr>)
      | OrderModifiedPayload v \<Rightarrow>
          if om_order_id v \<noteq> ocr_order_id current
          then order_error ''order_state.identity_mismatch'' ''modified order identity must match current state''
          else if \<not> decimal_eq (om_previous_price v) (ocr_limit_price current)
                  \<or> \<not> decimal_eq (om_previous_quantity v) (ocr_remaining_quantity current)
          then order_error ''order_state.previous_state_mismatch''
                 ''modification previous values must match current state''
          else
            rbind (map_err (\<lambda>_. arithmetic_error)
                     (checked_add (ocr_filled_quantity current) (om_new_quantity v))) (\<lambda>accepted.
            Inr (current\<lparr>ocr_accepted_quantity := accepted, ocr_remaining_quantity := om_new_quantity v,
                          ocr_limit_price := om_new_price v, ocr_lifecycle := LifeModified\<rparr>))
      | OrderPartiallyFilledPayload v \<Rightarrow>
          if op_order_id v \<noteq> ocr_order_id current
          then order_error ''order_state.identity_mismatch'' ''partial fill identity must match current state''
          else
            rbind (map_err (\<lambda>_. arithmetic_error)
                     (checked_sub (ocr_remaining_quantity current) (op_fill_quantity v))) (\<lambda>left.
            if raw left < 0
            then order_error ''order_state.overfill'' ''partial fill exceeds remaining quantity''
            else if \<not> decimal_eq left (op_remaining_quantity v)
            then order_error ''order_state.remaining_mismatch''
                   ''partial fill remainder does not match checked arithmetic''
            else if raw left = 0
            then order_error ''order_state.remaining_mismatch''
                   ''partial fill must leave positive remaining quantity''
            else
              rbind (map_err (\<lambda>_. arithmetic_error)
                       (checked_add (ocr_filled_quantity current) (op_fill_quantity v))) (\<lambda>filled.
              Inr (current\<lparr>ocr_filled_quantity := filled, ocr_remaining_quantity := left,
                            ocr_lifecycle := LifePartiallyFilled\<rparr>)))
      | OrderFilledPayload v \<Rightarrow>
          if of_order_id v \<noteq> ocr_order_id current
          then order_error ''order_state.identity_mismatch'' ''terminal fill identity must match current state''
          else if decimal_lt (ocr_remaining_quantity current) (of_fill_quantity v)
          then order_error ''order_state.overfill'' ''terminal fill exceeds remaining quantity''
          else if \<not> decimal_eq (of_fill_quantity v) (ocr_remaining_quantity current)
          then order_error ''order_state.remaining_mismatch''
                 ''terminal fill must consume exact remaining quantity''
          else
            rbind (map_err (\<lambda>_. arithmetic_error)
                     (checked_add (ocr_filled_quantity current) (of_fill_quantity v))) (\<lambda>filled.
            rbind (map_err (\<lambda>_. arithmetic_error)
                     (checked_sub (ocr_remaining_quantity current) (ocr_remaining_quantity current))) (\<lambda>left.
            Inr (current\<lparr>ocr_filled_quantity := filled, ocr_remaining_quantity := left,
                          ocr_lifecycle := LifeFilled\<rparr>)))
      | OrderCancelledPayload v \<Rightarrow> cancel_current (oc_order_id v) (oc_remaining_quantity v) current
      | EncodedPayload k b \<Rightarrow>
          if k = NonUserOrderCancelled
          then rbind (decode_non_user_cancel lib b) (\<lambda>d.
               cancel_current (dn_order_id d) (dn_remaining_quantity d) current)
          else order_error ''order_state.invalid_event'' ''order reducer received a non-order payload''
      | OrderAcceptedPayload v \<Rightarrow>
          order_error ''order_state.invalid_event'' ''invalid order transition payload''
      | OrderRejectedPayload v \<Rightarrow>
          order_error ''order_state.invalid_event'' ''invalid order transition payload''
      | TradeMatchedPayload v \<Rightarrow>
          order_error ''order_state.invalid_event'' ''order reducer received a non-order payload'')"

definition apply_transition ::
  "order_library \<Rightarrow> order_current_record \<Rightarrow> event_payload \<Rightarrow> canonical_event
     \<Rightarrow> reducer_error + order_current_record" where
  "apply_transition lib current payload event =
     (if \<not> transition_allowed (ocr_lifecycle current) (payload_kind payload)
      then order_error ''order_state.invalid_transition'' ''order lifecycle transition is not allowed''
      else rmap (order_touched event) (transition_body lib current payload))"

section \<open>The reducer\<close>

fun payload_order_id :: "event_payload \<Rightarrow> order_id option" where
  "payload_order_id (OrderAcceptedPayload v) = Some (oa_order_id v)"
| "payload_order_id (OrderRestedPayload v) = Some (or_order_id v)"
| "payload_order_id (OrderModifiedPayload v) = Some (om_order_id v)"
| "payload_order_id (OrderPartiallyFilledPayload v) = Some (op_order_id v)"
| "payload_order_id (OrderFilledPayload v) = Some (of_order_id v)"
| "payload_order_id (OrderCancelledPayload v) = Some (oc_order_id v)"
| "payload_order_id _ = None"

definition order_identity :: "order_library \<Rightarrow> event_payload \<Rightarrow> reducer_error + order_id" where
  "order_identity lib payload =
     (case payload of
        EncodedPayload NonUserOrderCancelled b \<Rightarrow> rmap dn_order_id (decode_non_user_cancel lib b)
      | other \<Rightarrow>
          ok_or (from_static ''order_state.invalid_event'' ''order reducer received a non-order payload'')
            (payload_order_id other))"

definition reject_collision ::
  "state_entries \<Rightarrow> state_key \<Rightarrow> state_key \<Rightarrow> reducer_error + unit" where
  "reject_collision state fact_key transition_key =
     (if bt_get (<) fact_key state \<noteq> None \<or> bt_get (<) transition_key state \<noteq> None
      then order_error ''order_state.event_id_collision''
             ''order event identity is already present in canonical state''
      else Inr ())"

definition rejection_fact :: "canonical_event \<Rightarrow> order_rejected \<Rightarrow> order_fact_record" where
  "rejection_fact event v =
     \<lparr>ofr_event_id = e_event_id event, ofr_event_kind = OrderRejected, ofr_order_id = None,
      ofr_client_order_id = Some (oj_client_order_id v), ofr_account_id = oj_account_id v,
      ofr_market_id = None, ofr_block_height = e_block_height event,
      ofr_payload_hash = e_payload_hash event\<rparr>"

definition rejection_transition :: "canonical_event \<Rightarrow> order_rejected \<Rightarrow> order_transition_record" where
  "rejection_transition event v =
     \<lparr>otr_event_id = e_event_id event, otr_event_kind = OrderRejected, otr_order_id = None,
      otr_client_order_id = Some (oj_client_order_id v), otr_account_id = oj_account_id v,
      otr_market_id = None, otr_block_height = e_block_height event,
      otr_payload_hash = e_payload_hash event, otr_prior_state_hash = None,
      otr_result_state_hash = None, otr_rule_version = ORDER_REDUCER_VERSION,
      otr_status = StatusRecordedRejection\<rparr>"

definition reduce_rejection ::
  "order_library \<Rightarrow> state_entries \<Rightarrow> canonical_event \<Rightarrow> order_rejected
     \<Rightarrow> reducer_error + state_mutation list" where
  "reduce_rejection lib state event v =
     (if e_market_ids event \<noteq> [] \<or> e_account_ids event \<noteq> [oj_account_id v]
      then order_error ''order_state.identity_mismatch''
             ''rejection payload and envelope identities must match exactly''
      else
        let fact = rejection_fact event v; transition = rejection_transition event v in
        rbind (map_err codec_reducer_error (fact_state_key fact)) (\<lambda>fact_key.
        rbind (map_err codec_reducer_error (transition_state_key transition)) (\<lambda>transition_key.
        rbind (reject_collision state fact_key transition_key) (\<lambda>_.
        rbind (map_err codec_reducer_error (fact_encode lib fact)) (\<lambda>fact_bytes.
        rbind (map_err codec_reducer_error (transition_encode lib transition)) (\<lambda>transition_bytes.
        Inr [Put fact_key fact_bytes, Put transition_key transition_bytes]))))))"

definition accepted_current :: "canonical_event \<Rightarrow> order_accepted \<Rightarrow> reducer_error + order_current_record" where
  "accepted_current event v =
     rbind (map_err (\<lambda>_. arithmetic_error) (checked_sub (oa_quantity v) (oa_quantity v))) (\<lambda>zero.
     Inr \<lparr>ocr_order_id = oa_order_id v, ocr_account_id = oa_account_id v, ocr_market_id = oa_market_id v,
          ocr_side = oa_side v, ocr_lifecycle = LifeAccepted, ocr_limit_price = oa_limit_price v,
          ocr_accepted_quantity = oa_quantity v, ocr_filled_quantity = zero,
          ocr_remaining_quantity = oa_quantity v, ocr_accepted_event_id = e_event_id event,
          ocr_last_event_id = e_event_id event, ocr_last_block_height = e_block_height event\<rparr>)"

text \<open>The hash of the state before and the current record after the event.\<close>

definition next_current ::
  "order_library \<Rightarrow> canonical_event \<Rightarrow> order_id \<Rightarrow> market_id \<Rightarrow> address \<Rightarrow> order_current_record option
     \<Rightarrow> reducer_error + hash option \<times> order_current_record" where
  "next_current lib event order market account existing =
     (case e_payload event of
        OrderAcceptedPayload v \<Rightarrow>
          if existing \<noteq> None
          then order_error ''order_state.order_id_collision''
                 ''order identity is already present in canonical state''
          else if oa_order_id v \<noteq> order \<or> oa_market_id v \<noteq> market \<or> oa_account_id v \<noteq> account
          then order_error ''order_state.identity_mismatch''
                 ''accepted payload and envelope identities must match exactly''
          else rmap (Pair None) (accepted_current event v)
      | payload \<Rightarrow>
          (case existing of
             None \<Rightarrow> order_error ''order_state.order_not_found'' ''order transition requires an accepted order''
           | Some previous \<Rightarrow>
               if ocr_account_id previous \<noteq> account \<or> ocr_market_id previous \<noteq> market
               then order_error ''order_state.identity_mismatch''
                      ''order payload and envelope identities must match current state''
               else if is_terminal (ocr_lifecycle previous)
               then order_error ''order_state.terminal_order'' ''terminal order state cannot transition''
               else
                 rbind (map_err codec_reducer_error (current_encode lib previous)) (\<lambda>prior_bytes.
                 rmap (Pair (Some (hash_current lib prior_bytes)))
                   (apply_transition lib previous payload event))))"

definition order_fact ::
  "canonical_event \<Rightarrow> order_id \<Rightarrow> market_id \<Rightarrow> address \<Rightarrow> order_fact_record" where
  "order_fact event order market account =
     \<lparr>ofr_event_id = e_event_id event, ofr_event_kind = payload_kind (e_payload event),
      ofr_order_id = Some order, ofr_client_order_id = None, ofr_account_id = account,
      ofr_market_id = Some market, ofr_block_height = e_block_height event,
      ofr_payload_hash = e_payload_hash event\<rparr>"

definition order_transition ::
  "canonical_event \<Rightarrow> order_id \<Rightarrow> market_id \<Rightarrow> address \<Rightarrow> hash option \<Rightarrow> hash \<Rightarrow> order_transition_record" where
  "order_transition event order market account prior result =
     \<lparr>otr_event_id = e_event_id event, otr_event_kind = payload_kind (e_payload event),
      otr_order_id = Some order, otr_client_order_id = None, otr_account_id = account,
      otr_market_id = Some market, otr_block_height = e_block_height event,
      otr_payload_hash = e_payload_hash event, otr_prior_state_hash = prior,
      otr_result_state_hash = Some result, otr_rule_version = ORDER_REDUCER_VERSION,
      otr_status = StatusApplied\<rparr>"

definition load_order ::
  "order_library \<Rightarrow> state_entries \<Rightarrow> state_key \<Rightarrow> reducer_error + order_current_record option" where
  "load_order lib state key =
     transpose_map (\<lambda>b. map_err codec_reducer_error (current_decode_at lib key b)) (bt_get (<) key state)"

definition reduce_order_event ::
  "order_library \<Rightarrow> state_entries \<Rightarrow> canonical_event \<Rightarrow> reducer_error + state_mutation list" where
  "reduce_order_event lib state event =
     rbind (order_identity lib (e_payload event)) (\<lambda>order.
     case e_market_ids event of
       [market] \<Rightarrow>
         (case e_account_ids event of
            [account] \<Rightarrow>
              rbind (map_err codec_reducer_error (current_state_key market order)) (\<lambda>current_key.
              rbind (load_order lib state current_key) (\<lambda>existing.
              rbind (next_current lib event order market account existing) (\<lambda>(prior, current).
              rbind (map_err codec_reducer_error (current_encode lib current)) (\<lambda>current_bytes.
              let fact = order_fact event order market account in
              rbind (map_err codec_reducer_error (fact_state_key fact)) (\<lambda>fact_key.
              let transition = order_transition event order market account prior (hash_current lib current_bytes) in
              rbind (map_err codec_reducer_error (transition_state_key transition)) (\<lambda>transition_key.
              rbind (reject_collision state fact_key transition_key) (\<lambda>_.
              rbind (map_err codec_reducer_error (fact_encode lib fact)) (\<lambda>fact_bytes.
              rbind (map_err codec_reducer_error (transition_encode lib transition)) (\<lambda>transition_bytes.
              Inr [Put fact_key fact_bytes, Put current_key current_bytes,
                   Put transition_key transition_bytes])))))))))
          | _ \<Rightarrow> order_error ''order_state.identity_mismatch''
                   ''order event requires exactly one envelope account'')
     | _ \<Rightarrow> order_error ''order_state.identity_mismatch'' ''order event requires exactly one envelope market'')"

definition order_reduce ::
  "order_library \<Rightarrow> state_entries \<Rightarrow> canonical_event \<Rightarrow> apply_context
     \<Rightarrow> reducer_error + state_mutation list" where
  "order_reduce lib state event ctx =
     rbind (validate_payload_semantics lib (e_payload event)) (\<lambda>_.
     case e_payload event of
       OrderRejectedPayload v \<Rightarrow> reduce_rejection lib state event v
     | _ \<Rightarrow> reduce_order_event lib state event)"

definition order_supports :: "canonical_event \<Rightarrow> bool" where
  "order_supports event \<longleftrightarrow>
     e_schema_version event = ''1.0.0'' \<and> is_order_kind (payload_kind (e_payload event))"

definition order_reducer :: "order_library \<Rightarrow> event_reducer" where
  "order_reducer lib =
     \<lparr>reducer_set_version = ORDER_REDUCER_VERSION, supports = order_supports,
      reduce_event = order_reduce lib,
      validate_block_delta = (\<lambda>final _ ctx. default_validate_block final ctx)\<rparr>"

section \<open>The life cycle conserves quantities\<close>

lemma current_validate_iff:
  "current_validate r = Inr () \<longleftrightarrow>
     0 < raw (ocr_limit_price r) \<and> 0 < raw (ocr_accepted_quantity r)
     \<and> 0 \<le> raw (ocr_filled_quantity r) \<and> 0 \<le> raw (ocr_remaining_quantity r)
     \<and> scale (ocr_filled_quantity r) = scale (ocr_remaining_quantity r)
     \<and> scale (ocr_filled_quantity r) \<le> MAX_DECIMAL_SCALE
     \<and> in_i128 (raw (ocr_filled_quantity r) + raw (ocr_remaining_quantity r))
     \<and> dec_value (ocr_accepted_quantity r) = dec_value (ocr_filled_quantity r) + dec_value (ocr_remaining_quantity r)
     \<and> (ocr_lifecycle r = LifeFilled \<longrightarrow> raw (ocr_remaining_quantity r) = 0)
     \<and> (\<not> is_terminal (ocr_lifecycle r) \<longrightarrow> 0 < raw (ocr_remaining_quantity r))"
  by (auto simp: current_validate_def result_simps checked_add_exact decimal_eq_value dec_value_def
      add_divide_distrib not_le not_less split: if_splits)

definition fill_of :: "event_payload \<Rightarrow> rat" where
  "fill_of p =
     (case p of
        OrderPartiallyFilledPayload v \<Rightarrow> dec_value (op_fill_quantity v)
      | OrderFilledPayload v \<Rightarrow> dec_value (of_fill_quantity v)
      | _ \<Rightarrow> 0)"

fun lifecycle_after :: "event_kind \<Rightarrow> order_lifecycle" where
  "lifecycle_after OrderRested = LifeRested"
| "lifecycle_after OrderModified = LifeModified"
| "lifecycle_after OrderPartiallyFilled = LifePartiallyFilled"
| "lifecycle_after OrderFilled = LifeFilled"
| "lifecycle_after OrderCancelled = LifeCancelled"
| "lifecycle_after NonUserOrderCancelled = LifeCancelled"
| "lifecycle_after _ = LifeAccepted"

definition same_order :: "order_current_record \<Rightarrow> order_current_record \<Rightarrow> bool" where
  "same_order c d \<longleftrightarrow>
     ocr_order_id d = ocr_order_id c \<and> ocr_account_id d = ocr_account_id c
     \<and> ocr_market_id d = ocr_market_id c \<and> ocr_side d = ocr_side c
     \<and> ocr_accepted_event_id d = ocr_accepted_event_id c"

lemmas order_check_defs = validate_payload_semantics_def positive_price_def positive_quantity_def order_error_def

lemma transition_not_terminal:
  "apply_transition lib c p e = Inr d \<Longrightarrow> \<not> is_terminal (ocr_lifecycle c)"
  by (auto simp: apply_transition_def transition_allowed_def is_terminal_def order_error_def split: if_splits)

lemma body_rested:
  assumes "transition_body lib c (OrderRestedPayload v) = Inr d"
  shows "d = c\<lparr>ocr_lifecycle := LifeRested\<rparr>"
  using assms by (auto simp: transition_body_def order_error_def split: if_splits)

lemma body_modified:
  assumes "transition_body lib c (OrderModifiedPayload v) = Inr d"
  shows "scale (ocr_filled_quantity c) = scale (om_new_quantity v)"
    and "in_i128 (raw (ocr_filled_quantity c) + raw (om_new_quantity v))"
    and "scale (ocr_filled_quantity c) \<le> MAX_DECIMAL_SCALE"
    and "d = c\<lparr>ocr_accepted_quantity := \<lparr>raw = raw (ocr_filled_quantity c) + raw (om_new_quantity v),
        scale = scale (ocr_filled_quantity c)\<rparr>, ocr_remaining_quantity := om_new_quantity v,
        ocr_limit_price := om_new_price v, ocr_lifecycle := LifeModified\<rparr>"
  using assms
  by (auto simp: transition_body_def order_error_def result_simps checked_add_exact split: if_splits)

lemma body_partial:
  assumes "transition_body lib c (OrderPartiallyFilledPayload v) = Inr d"
  shows "scale (ocr_remaining_quantity c) = scale (op_fill_quantity v)"
    and "scale (ocr_filled_quantity c) = scale (op_fill_quantity v)"
    and "raw (op_fill_quantity v) < raw (ocr_remaining_quantity c)"
    and "d = c\<lparr>ocr_filled_quantity := \<lparr>raw = raw (ocr_filled_quantity c) + raw (op_fill_quantity v),
        scale = scale (ocr_filled_quantity c)\<rparr>,
        ocr_remaining_quantity := \<lparr>raw = raw (ocr_remaining_quantity c) - raw (op_fill_quantity v),
        scale = scale (ocr_remaining_quantity c)\<rparr>, ocr_lifecycle := LifePartiallyFilled\<rparr>"
  using assms
  by (auto simp: transition_body_def order_error_def result_simps checked_add_exact checked_sub_exact split: if_splits)

lemma body_filled:
  assumes "transition_body lib c (OrderFilledPayload v) = Inr d"
  shows "scale (ocr_filled_quantity c) = scale (of_fill_quantity v)"
    and "dec_value (of_fill_quantity v) = dec_value (ocr_remaining_quantity c)"
    and "in_i128 (raw (ocr_filled_quantity c) + raw (of_fill_quantity v))"
    and "d = c\<lparr>ocr_filled_quantity := \<lparr>raw = raw (ocr_filled_quantity c) + raw (of_fill_quantity v),
        scale = scale (ocr_filled_quantity c)\<rparr>,
        ocr_remaining_quantity := \<lparr>raw = 0, scale = scale (ocr_remaining_quantity c)\<rparr>,
        ocr_lifecycle := LifeFilled\<rparr>"
  using assms
  by (auto simp: transition_body_def order_error_def result_simps checked_add_exact checked_sub_exact
      decimal_eq_value split: if_splits)

lemma body_cancelled:
  assumes "transition_body lib c p = Inr d" and "payload_kind p = OrderCancelled \<or> payload_kind p = NonUserOrderCancelled"
  shows "d = c\<lparr>ocr_lifecycle := LifeCancelled\<rparr>"
  using assms
  by (cases p) (auto simp: transition_body_def cancel_current_def order_error_def result_simps split: if_splits)

text \<open>The payloads \<open>transition_body\<close> accepts.\<close>

lemma body_cases:
  assumes "transition_body lib c p = Inr d"
  obtains (Rested) v where "p = OrderRestedPayload v"
    | (Modified) v where "p = OrderModifiedPayload v"
    | (Partial) v where "p = OrderPartiallyFilledPayload v"
    | (Filled) v where "p = OrderFilledPayload v"
    | (Cancelled) "payload_kind p = OrderCancelled \<or> payload_kind p = NonUserOrderCancelled"
      "fill_of p = 0"
  using assms
  by (cases p) (auto simp: transition_body_def order_error_def fill_of_def split: if_splits)

lemma body_conserves:
  assumes body: "transition_body lib c p = Inr d" and valid: "current_validate c = Inr ()"
    and nt: "\<not> is_terminal (ocr_lifecycle c)" and sem: "validate_payload_semantics lib p = Inr ()"
  shows "current_validate d = Inr () \<and> same_order c d
    \<and> dec_value (ocr_filled_quantity d) = dec_value (ocr_filled_quantity c) + fill_of p
    \<and> (payload_kind p \<noteq> OrderModified \<longrightarrow>
         ocr_accepted_quantity d = ocr_accepted_quantity c \<and> ocr_limit_price d = ocr_limit_price c)
    \<and> ocr_lifecycle d = lifecycle_after (payload_kind p)"
  using body
proof (cases rule: body_cases)
  case (Rested v)
  show ?thesis using body_rested [OF body [unfolded Rested]] valid nt
    by (simp add: Rested current_validate_iff same_order_def fill_of_def is_terminal_def)
next
  case (Modified v)
  note m = body_modified [OF body [unfolded Modified]]
  have "0 < raw (om_new_quantity v)" "0 < raw (om_new_price v)"
    using sem by (auto simp: Modified order_check_defs result_simps split: if_splits)
  then show ?thesis using m(1-3) valid
    by (simp add: Modified m(4) current_validate_iff same_order_def fill_of_def is_terminal_def dec_value_def add_divide_distrib add_nonneg_pos)
next
  case (Partial v)
  note m = body_partial [OF body [unfolded Partial]]
  have pos: "0 < raw (op_fill_quantity v)"
    using sem by (auto simp: Partial order_check_defs result_simps split: if_splits)
  then show ?thesis using m(1-3) valid
    by (simp add: Partial m(4) current_validate_iff same_order_def fill_of_def is_terminal_def dec_value_def
        add_divide_distrib diff_divide_distrib)
next
  case (Filled v)
  note m = body_filled [OF body [unfolded Filled]]
  have pos: "0 < raw (of_fill_quantity v)"
    using sem by (auto simp: Filled order_check_defs result_simps split: if_splits)
  show ?thesis using m(1-3) valid pos
    by (simp add: Filled m(4) current_validate_iff same_order_def fill_of_def is_terminal_def dec_value_def add_divide_distrib)
next
  case Cancelled
  show ?thesis using body_cancelled [OF body Cancelled(1)] valid Cancelled
    by (auto simp: current_validate_iff same_order_def is_terminal_def)
qed

section \<open>What an accepted event does to the entries\<close>

lemma reduce_order_Inr:
  assumes "reduce_order_event lib s e = Inr ms"
  obtains i m a ck old prior nw cb fk fb tk tb where
    "order_identity lib (e_payload e) = Inr i" and "e_market_ids e = [m]" and "e_account_ids e = [a]"
    and "current_state_key m i = Inr ck" and "load_order lib s ck = Inr old"
    and "next_current lib e i m a old = Inr (prior, nw)" and "current_encode lib nw = Inr cb"
    and "fact_state_key (order_fact e i m a) = Inr fk"
    and "transition_state_key (order_transition e i m a prior (hash_current lib cb)) = Inr tk"
    and "bt_get (<) fk s = None" and "bt_get (<) tk s = None"
    and "fact_encode lib (order_fact e i m a) = Inr fb"
    and "transition_encode lib (order_transition e i m a prior (hash_current lib cb)) = Inr tb"
    and "ms = [Put fk fb, Put ck cb, Put tk tb]"
proof -
  obtain i where i: "order_identity lib (e_payload e) = Inr i"
    using assms by (auto simp: reduce_order_event_def rbind_Inr_iff)
  obtain m where m: "e_market_ids e = [m]"
    using assms i by (auto simp: reduce_order_event_def order_error_def split: list.splits)
  obtain a where a: "e_account_ids e = [a]"
    using assms i m by (auto simp: reduce_order_event_def order_error_def split: list.splits)
  show ?thesis using assms i m a
    by (auto simp: reduce_order_event_def rbind_Inr_iff map_err_Inr_iff Let_def order_error_def
        reject_collision_def intro: that split: if_splits)
qed

lemma next_current_Inr:
  assumes "next_current lib e i m a old = Inr (prior, nw)"
  obtains (Accepted) v where "e_payload e = OrderAcceptedPayload v" and "old = None" and "oa_order_id v = i"
      and "oa_market_id v = m" and "oa_account_id v = a" and "accepted_current e v = Inr nw" and "prior = None"
    | (Transition) c pb where "old = Some c" and "\<forall>v. e_payload e \<noteq> OrderAcceptedPayload v"
      and "ocr_account_id c = a" and "ocr_market_id c = m" and "current_encode lib c = Inr pb"
      and "prior = Some (hash_current lib pb)" and "apply_transition lib c (e_payload e) e = Inr nw"
  using assms
  by (cases "e_payload e"; cases old)
    (auto simp: next_current_def order_error_def rbind_Inr_iff rmap_Inr_iff map_err_Inr_iff split: if_splits)

lemma reduce_rejection_Inr:
  assumes "reduce_rejection lib s e v = Inr ms"
  obtains fk fb tk tb where "e_market_ids e = []" and "e_account_ids e = [oj_account_id v]"
    and "fact_state_key (rejection_fact e v) = Inr fk"
    and "transition_state_key (rejection_transition e v) = Inr tk"
    and "bt_get (<) fk s = None" and "bt_get (<) tk s = None"
    and "fact_encode lib (rejection_fact e v) = Inr fb"
    and "transition_encode lib (rejection_transition e v) = Inr tb"
    and "ms = [Put fk fb, Put tk tb]"
  using assms
  by (auto simp: reduce_rejection_def rbind_Inr_iff map_err_Inr_iff Let_def order_error_def reject_collision_def
      split: if_splits)

text \<open>The parts of a payload that Rust's types check before an event exists.\<close>

definition order_payload_typed :: "event_payload \<Rightarrow> bool" where
  "order_payload_typed p =
     (case p of
        OrderAcceptedPayload v \<Rightarrow> id_ok (oa_order_id v) \<and> id_ok (oa_market_id v) \<and> length (oa_account_id v) = 20
          \<and> decimal_ok (oa_limit_price v) \<and> decimal_ok (oa_quantity v)
      | OrderModifiedPayload v \<Rightarrow> id_ok (om_order_id v) \<and> decimal_ok (om_new_price v) \<and> decimal_ok (om_new_quantity v)
      | OrderRestedPayload v \<Rightarrow> id_ok (or_order_id v)
      | OrderPartiallyFilledPayload v \<Rightarrow> id_ok (op_order_id v)
      | OrderFilledPayload v \<Rightarrow> id_ok (of_order_id v)
      | OrderCancelledPayload v \<Rightarrow> id_ok (oc_order_id v)
      | OrderRejectedPayload v \<Rightarrow> id_ok (oj_client_order_id v) \<and> length (oj_account_id v) = 20
      | _ \<Rightarrow> True)"

definition order_event_typed :: "canonical_event \<Rightarrow> bool" where
  "order_event_typed e \<longleftrightarrow> event_typed e \<and> order_payload_typed (e_payload e)"

lemma order_identity_ok:
  assumes "order_identity lib p = Inr i" and "order_payload_typed p"
  shows "id_ok i"
proof (cases "\<exists>b. p = EncodedPayload NonUserOrderCancelled b")
  case True
  then show ?thesis using assms decode_non_user_cancel_ok by (fastforce simp: order_identity_def rmap_Inr_iff)
next
  case False
  then have "payload_order_id p = Some i"
    using assms(1) by (auto simp: order_identity_def ok_or_Inr_iff split: event_payload.splits event_kind.splits)
  then show ?thesis using assms(2) by (cases p) (auto simp: order_payload_typed_def)
qed

lemma current_decode_storable:
  assumes "order_library_ok lib" and "current_decode lib b = Inr r"
  shows "current_storable lib r" and "current_validate r = Inr ()"
proof -
  have hex: "length a = 20" if "parse_api (lib_hex_decode lib) x = Inr a" for x a
    using assms(1) that
    by (auto simp: order_library_ok_def payload_library_ok_def parse_api_def result_simps split: if_splits)
  show "current_storable lib r"
    using assms hex decimal_from_str_ok
    by (auto simp: current_decode_def current_storable_def rbind_Inr_iff map_err_Inr_iff order_id_field_def
        string_id_new_Inr order_account_field_def order_decimal_field_def id_ok_def Let_def split: if_splits)
  show "current_validate r = Inr ()"
    using assms(2) by (auto simp: current_decode_def rbind_Inr_iff Let_def split: if_splits)
qed

lemma body_storable:
  "transition_body lib c p = Inr d \<Longrightarrow> current_storable lib c \<Longrightarrow> order_payload_typed p \<Longrightarrow> current_storable lib d"
  by (cases p)
    (auto simp: transition_body_def cancel_current_def order_error_def result_simps checked_add_exact
      checked_sub_exact current_storable_def decimal_ok_def order_payload_typed_def split: if_splits)

lemma transition_storable_next:
  assumes "apply_transition lib c (e_payload e) e = Inr d" and "current_storable lib c" and "order_event_typed e"
  shows "current_storable lib d"
  using assms body_storable [of lib c "e_payload e"]
  by (auto simp: apply_transition_def order_touched_def order_error_def rmap_Inr_iff current_storable_def
      order_event_typed_def event_typed_def split: if_splits)

lemma accepted_storable:
  "accepted_current e v = Inr r \<Longrightarrow> e_payload e = OrderAcceptedPayload v \<Longrightarrow> order_event_typed e
   \<Longrightarrow> order_library_ok lib \<Longrightarrow> current_storable lib r"
  by (auto simp: accepted_current_def rbind_Inr_iff map_err_Inr_iff checked_sub_exact current_storable_def
      order_event_typed_def event_typed_def order_payload_typed_def decimal_ok_def)

end
