(* ===== verification/Order_History.thy ===== *)
theory Order_History
  imports Order_Reducer
begin

text \<open>
  The order reducer against its abstract view, and what it keeps along every run of the
  ledger: the stored orders are the fold of the abstract step over the applied events, every
  event has exactly one fact, and the transitions of an order form a chain of hashes.
\<close>

section \<open>The abstract view of the orders\<close>

type_synonym order_view = "market_id \<times> order_id \<Rightarrow> order_current_record option"

definition orders_of :: "order_library \<Rightarrow> state_entries \<Rightarrow> order_view" where
  "orders_of lib s = (\<lambda>(m, i).
     (case current_state_key m i of
        Inl _ \<Rightarrow> None
      | Inr k \<Rightarrow>
          (case bt_get (<) k s of
             None \<Rightarrow> None
           | Some b \<Rightarrow> (case current_decode_at lib k b of Inl _ \<Rightarrow> None | Inr r \<Rightarrow> Some r))))"

definition order_step :: "order_library \<Rightarrow> canonical_event \<Rightarrow> order_view \<Rightarrow> order_view" where
  "order_step lib e v =
     (case order_identity lib (e_payload e) of
        Inl _ \<Rightarrow> v
      | Inr i \<Rightarrow>
          let m = hd (e_market_ids e) in
          (case (case e_payload e of
                   OrderAcceptedPayload a \<Rightarrow> accepted_current e a
                 | p \<Rightarrow> rbind (ok_or arithmetic_error (v (m, i))) (\<lambda>c. apply_transition lib c p e)) of
             Inl _ \<Rightarrow> v
           | Inr r \<Rightarrow> v((m, i) \<mapsto> r)))"

lemma orders_of_put:
  assumes "bt_sorted (<) s" and "current_state_key m i = Inr k" and "current_decode_at lib k b = Inr r"
  shows "orders_of lib (bt_insert (<) k b s) = (orders_of lib s)((m, i) \<mapsto> r)"
proof
  fix x :: "market_id \<times> order_id"
  obtain n j where x: "x = (n, j)" by (cases x)
  show "orders_of lib (bt_insert (<) k b s) x = ((orders_of lib s)((m, i) \<mapsto> r)) x"
  proof (cases "current_state_key n j")
    case (Inr l)
    have "l = k \<longleftrightarrow> (n, j) = (m, i)"
    proof
      assume "l = k"
      then show "(n, j) = (m, i)" using current_state_key_inject [OF assms(2)] Inr by blast
    qed (use Inr assms(2) in simp)
    then show ?thesis using assms(3) Inr
      by (cases "l = k") (auto simp: orders_of_def x lin.bt_get_insert [OF assms(1)])
  next
    case (Inl y)
    then have "(n, j) \<noteq> (m, i)" using assms(2) by auto
    then show ?thesis using Inl by (simp add: orders_of_def x)
  qed
qed

lemma orders_of_other:
  assumes "bt_sorted (<) s" and "sk_namespace k \<noteq> ORDER_CURRENT_NAMESPACE"
  shows "orders_of lib (bt_insert (<) k b s) = orders_of lib s"
proof
  fix x :: "market_id \<times> order_id"
  obtain n j where x: "x = (n, j)" by (cases x)
  show "orders_of lib (bt_insert (<) k b s) x = orders_of lib s x"
  proof (cases "current_state_key n j")
    case (Inr l)
    have "l \<noteq> k" using current_state_key_Inr(1) [OF Inr] assms(2) by auto
    then show ?thesis using Inr by (simp add: orders_of_def x lin.bt_get_insert [OF assms(1)])
  qed (simp add: orders_of_def x)
qed

lemma namespaces_differ:
  "ORDER_FACT_NAMESPACE \<noteq> ORDER_CURRENT_NAMESPACE" "ORDER_TRANSITION_NAMESPACE \<noteq> ORDER_CURRENT_NAMESPACE"
  "ORDER_FACT_NAMESPACE \<noteq> ORDER_TRANSITION_NAMESPACE"
  by (simp_all add: ORDER_FACT_NAMESPACE_def ORDER_CURRENT_NAMESPACE_def ORDER_TRANSITION_NAMESPACE_def)

lemma fact_key_namespace:
  assumes "fact_state_key r = Inr k"
  shows "sk_namespace k = ORDER_FACT_NAMESPACE" and "key_constructed k"
  using assms
  by (auto simp: fact_state_key_def dest: state_key_for_order_Inr(1,5) state_key_for_rejection_Inr(1,5) split: option.splits)

lemma transition_key_namespace:
  assumes "transition_state_key r = Inr k"
  shows "sk_namespace k = ORDER_TRANSITION_NAMESPACE" and "key_constructed k"
  using assms
  by (auto simp: transition_state_key_def dest: state_key_for_order_Inr(1,5) state_key_for_rejection_Inr(1,5) split: option.splits)

lemma current_key_namespace: "current_state_key m i = Inr k \<Longrightarrow> sk_namespace k = ORDER_CURRENT_NAMESPACE"
  by (auto dest: current_state_key_Inr(1))

lemma load_order_view:
  assumes "load_order lib s k = Inr x" and "current_state_key m i = Inr k"
  shows "orders_of lib s (m, i) = x"
  using assms
  by (cases "bt_get (<) k s") (auto simp: load_order_def orders_of_def rmap_Inr_iff map_err_Inr_iff)

lemma orders_of_Some:
  assumes "orders_of lib s (m, i) = Some r"
  obtains k b where "current_state_key m i = Inr k" and "bt_get (<) k s = Some b"
    and "current_decode lib b = Inr r" and "ocr_market_id r = m" and "ocr_order_id r = i"
proof -
  obtain k b where k: "current_state_key m i = Inr k" "bt_get (<) k s = Some b" "current_decode_at lib k b = Inr r"
    using assms by (auto simp: orders_of_def split: sum.splits option.splits)
  then have d: "current_decode lib b = Inr r" "current_state_key (ocr_market_id r) (ocr_order_id r) = Inr k"
    by (simp_all add: current_decode_at_def current.decode_at_Inr current_key_of_def)
  then show ?thesis using that k current_state_key_inject [OF d(2) k(1)] by blast
qed

lemma next_current_view:
  assumes "next_current lib e i m a x = Inr (prior, nw)" and "order_identity lib (e_payload e) = Inr i"
    and "e_market_ids e = [m]" and "v (m, i) = x"
  shows "order_step lib e v = v((m, i) \<mapsto> nw)"
  using assms(1)
proof (cases rule: next_current_Inr)
  case (Accepted a)
  then show ?thesis using assms(2,3) by (simp add: order_step_def)
next
  case (Transition c pb)
  then show ?thesis using assms(2-)
    by (cases "e_payload e") (simp_all add: order_step_def)
qed

lemma next_current_storable:
  assumes "next_current lib e i m a x = Inr (prior, nw)" and "order_library_ok lib" and "order_event_typed e"
    and "\<And>c. x = Some c \<Longrightarrow> current_storable lib c"
  shows "current_storable lib nw"
  using assms(1)
proof (cases rule: next_current_Inr)
  case (Accepted v)
  then show ?thesis using assms(2,3) accepted_storable by blast
next
  case (Transition c pb)
  then show ?thesis using assms(3,4) transition_storable_next by blast
qed

lemma body_same:
  assumes "transition_body lib c p = Inr d"
  shows "same_order c d"
  using assms
proof (cases rule: body_cases)
  case (Rested v)
  then show ?thesis using body_rested [OF assms [unfolded Rested]] by (simp add: same_order_def)
next
  case (Modified v)
  then show ?thesis using body_modified(4) [OF assms [unfolded Modified]] by (simp add: same_order_def)
next
  case (Partial v)
  then show ?thesis using body_partial(4) [OF assms [unfolded Partial]] by (simp add: same_order_def)
next
  case (Filled v)
  then show ?thesis using body_filled(4) [OF assms [unfolded Filled]] by (simp add: same_order_def)
next
  case Cancelled
  then show ?thesis using body_cancelled [OF assms] by (simp add: same_order_def)
qed

lemma next_current_identity:
  assumes "next_current lib e i m a x = Inr (prior, nw)" and "\<And>c. x = Some c \<Longrightarrow> ocr_order_id c = i"
  shows "ocr_order_id nw = i" and "ocr_market_id nw = m" and "ocr_account_id nw = a"
    and "ocr_last_event_id nw = e_event_id e"
proof -
  have "ocr_order_id nw = i \<and> ocr_market_id nw = m \<and> ocr_account_id nw = a \<and> ocr_last_event_id nw = e_event_id e"
    using assms(1)
  proof (cases rule: next_current_Inr)
    case (Accepted v)
    then show ?thesis by (auto simp: accepted_current_def rbind_Inr_iff)
  next
    case (Transition c pb)
    then obtain d where d: "transition_body lib c (e_payload e) = Inr d" "nw = order_touched e d"
      by (auto simp: apply_transition_def order_error_def rmap_Inr_iff split: if_splits)
    then show ?thesis using body_same [OF d(1)] assms(2) Transition(1,3,4)
      by (simp add: same_order_def order_touched_def)
  qed
  then show "ocr_order_id nw = i" "ocr_market_id nw = m" "ocr_account_id nw = a" "ocr_last_event_id nw = e_event_id e"
    by auto
qed

section \<open>The reducer implements the abstract step\<close>

lemma stored_order_storable:
  assumes "order_library_ok lib" and "orders_of lib s (m, i) = Some c"
  shows "current_storable lib c" and "ocr_order_id c = i" and "current_validate c = Inr ()"
  using orders_of_Some [OF assms(2)] current_decode_storable [OF assms(1)] by metis+

lemma order_put_sim:
  assumes lib: "order_library_ok lib" and s: "bt_sorted (<) s" and typed: "order_event_typed e"
    and red: "reduce_order_event lib s e = Inr ms"
  shows "orders_of lib (mutate_all ms s) = order_step lib e (orders_of lib s)"
  using red
proof (cases rule: reduce_order_Inr)
  case (1 i m a ck old prior nw cb fk fb tk tb)
  have old: "orders_of lib s (m, i) = old" by (rule load_order_view [OF 1(5,4)])
  have st: "current_storable lib nw"
    using next_current_storable [OF 1(6) lib typed] stored_order_storable [OF lib] old by blast
  have "ocr_order_id nw = i" "ocr_market_id nw = m"
    using next_current_identity [OF 1(6)] stored_order_storable [OF lib] old by blast+
  then have dec: "current_decode_at lib ck cb = Inr nw"
    using current.decode_at_encode [OF st 1(7)] 1(4) by (simp add: current_decode_at_def current_key_of_def)
  have ns: "sk_namespace fk \<noteq> ORDER_CURRENT_NAMESPACE" "sk_namespace tk \<noteq> ORDER_CURRENT_NAMESPACE"
    using fact_key_namespace(1) [OF 1(8)] transition_key_namespace(1) [OF 1(9)] namespaces_differ by auto
  have "orders_of lib (mutate_all ms s) = (orders_of lib s)((m, i) \<mapsto> nw)"
    using s ns orders_of_put [OF _ 1(4) dec] orders_of_other
    by (simp add: 1(14) lin.bt_sorted_insert)
  then show ?thesis using next_current_view [OF 1(6,1,2), of "orders_of lib s"] old by simp
qed

lemma order_reject_sim:
  assumes s: "bt_sorted (<) s" and red: "reduce_rejection lib s e v = Inr ms"
  shows "orders_of lib (mutate_all ms s) = orders_of lib s"
  using red
proof (cases rule: reduce_rejection_Inr)
  case (1 fk fb tk tb)
  have "sk_namespace fk \<noteq> ORDER_CURRENT_NAMESPACE" "sk_namespace tk \<noteq> ORDER_CURRENT_NAMESPACE"
    using fact_key_namespace(1) [OF 1(3)] transition_key_namespace(1) [OF 1(4)] namespaces_differ by auto
  then show ?thesis using s orders_of_other by (simp add: 1(9) lin.bt_sorted_insert)
qed

lemma order_reduce_sim:
  assumes "order_library_ok lib" and "bt_sorted (<) s" and "order_event_typed e" and "order_reduce lib s e ctx = Inr ms"
  shows "orders_of lib (mutate_all ms s) = order_step lib e (orders_of lib s)"
proof (cases "\<exists>v. e_payload e = OrderRejectedPayload v")
  case True
  then obtain v where v: "e_payload e = OrderRejectedPayload v" by blast
  then have "reduce_rejection lib s e v = Inr ms" using assms(4) by (simp add: order_reduce_def rbind_Inr_iff)
  then show ?thesis using order_reject_sim [OF assms(2)] v by (simp add: order_step_def order_identity_def)
next
  case False
  then have "reduce_order_event lib s e = Inr ms"
    using assms(4) by (cases "e_payload e") (auto simp: order_reduce_def rbind_Inr_iff)
  then show ?thesis using order_put_sim assms(1-3) by blast
qed

section \<open>Facts, transitions and hashes\<close>

text \<open>The record of an event under its key, read back from the entries.\<close>

definition fact_recorded :: "order_library \<Rightarrow> state_entries \<Rightarrow> canonical_event \<Rightarrow> order_fact_record \<Rightarrow> bool" where
  "fact_recorded lib s e f \<longleftrightarrow>
     ofr_event_id f = e_event_id e \<and> ofr_event_kind f = payload_kind (e_payload e)
     \<and> ofr_block_height f = e_block_height e \<and> ofr_payload_hash f = e_payload_hash e
     \<and> (\<exists>k b. fact_state_key f = Inr k \<and> bt_get (<) k s = Some b \<and> fact_decode_at lib k b = Inr f)"

definition transition_at ::
  "order_library \<Rightarrow> state_entries \<Rightarrow> market_id \<Rightarrow> order_id \<Rightarrow> string \<Rightarrow> order_transition_record \<Rightarrow> bool" where
  "transition_at lib s m i event t \<longleftrightarrow>
     (\<exists>k b. state_key_for_order ORDER_TRANSITION_NAMESPACE m i event = Inr k
        \<and> bt_get (<) k s = Some b \<and> transition_decode_at lib k b = Inr t)"

text \<open>
  Every order's bytes are the ones its last transition reports, and a transition that names a
  prior state continues another transition of the same order.
\<close>

definition hashes_chained :: "order_library \<Rightarrow> state_entries \<Rightarrow> bool" where
  "hashes_chained lib s \<longleftrightarrow>
     (\<forall>m i r. orders_of lib s (m, i) = Some r \<longrightarrow>
        (\<exists>b t. current_encode lib r = Inr b \<and> transition_at lib s m i (ocr_last_event_id r) t
           \<and> otr_result_state_hash t = Some (hash_current lib b)))
     \<and> (\<forall>m i event t h. transition_at lib s m i event t \<and> otr_prior_state_hash t = Some h \<longrightarrow>
        (\<exists>earlier u. transition_at lib s m i earlier u \<and> otr_result_state_hash u = Some h))"

lemma transition_at_insert:
  assumes "bt_sorted (<) s" and "transition_at lib s m i ev t"
    and "bt_get (<) k s = None \<or> sk_namespace k \<noteq> ORDER_TRANSITION_NAMESPACE"
  shows "transition_at lib (bt_insert (<) k b s) m i ev t"
proof -
  obtain l c where l: "state_key_for_order ORDER_TRANSITION_NAMESPACE m i ev = Inr l" "bt_get (<) l s = Some c"
      "transition_decode_at lib l c = Inr t"
    using assms(2) by (auto simp: transition_at_def)
  have "l \<noteq> k" using assms(3) l(2) state_key_for_order_Inr(1) [OF l(1)] by auto
  then have "bt_get (<) l (bt_insert (<) k b s) = Some c" using l(2) by (simp add: lin.bt_get_insert [OF assms(1)])
  then show ?thesis using l(1,3) by (auto simp: transition_at_def)
qed

text \<open>A transition found after a write was there before, or is the one written.\<close>

lemma transition_at_inserted:
  assumes "bt_sorted (<) s" and "transition_at lib (bt_insert (<) k b s) m i ev t"
  shows "transition_at lib s m i ev t
    \<or> (state_key_for_order ORDER_TRANSITION_NAMESPACE m i ev = Inr k \<and> transition_decode_at lib k b = Inr t)"
proof -
  obtain l c where l: "state_key_for_order ORDER_TRANSITION_NAMESPACE m i ev = Inr l"
      "bt_get (<) l (bt_insert (<) k b s) = Some c" "transition_decode_at lib l c = Inr t"
    using assms(2) by (auto simp: transition_at_def)
  then show ?thesis
    by (cases "l = k") (auto simp: transition_at_def lin.bt_get_insert [OF assms(1)])
qed

lemma state_key_for_order_inject:
  "state_key_for_order ns m i e = Inr k \<Longrightarrow> state_key_for_order ns n j f = Inr k \<Longrightarrow> m = n \<and> i = j \<and> e = f"
  using state_key_for_order_Inr [of ns m i e k] state_key_for_order_Inr [of ns n j f k]
  by (simp add: frame_cancel frame_inject)

lemma state_key_order_rejection:
  "state_key_for_order ns m i e = Inr k \<Longrightarrow> state_key_for_rejection ns' a c f \<noteq> Inr k"
  using state_key_for_order_Inr(1) [of ns m i e k] state_key_for_rejection_Inr(1) [of ns' a c f k] by fastforce

lemma transition_at_write:
  assumes s: "bt_sorted (<) s" and new: "bt_get (<) tk s = None" and ns: "sk_namespace ck \<noteq> ORDER_TRANSITION_NAMESPACE"
    "sk_namespace tk = ORDER_TRANSITION_NAMESPACE"
  shows "transition_at lib (bt_insert (<) tk tb (bt_insert (<) ck cb s)) m i ev t \<longleftrightarrow>
    transition_at lib s m i ev t
    \<or> (state_key_for_order ORDER_TRANSITION_NAMESPACE m i ev = Inr tk \<and> transition_decode_at lib tk tb = Inr t)"
    (is "transition_at lib ?u m i ev t \<longleftrightarrow> _ \<or> ?new")
proof
  have s1: "bt_sorted (<) (bt_insert (<) ck cb s)" using s by (simp add: lin.bt_sorted_insert)
  have none: "bt_get (<) tk (bt_insert (<) ck cb s) = None" using new ns by (auto simp: lin.bt_get_insert [OF s])
  {
    assume "transition_at lib ?u m i ev t"
    from transition_at_inserted [OF s1 this] show "transition_at lib s m i ev t \<or> ?new"
    proof
      assume "transition_at lib (bt_insert (<) ck cb s) m i ev t"
      from transition_at_inserted [OF s this] show ?thesis
        using state_key_for_order_Inr(1) ns(1) by fastforce
    qed simp
  next
    assume "transition_at lib s m i ev t \<or> ?new"
    then show "transition_at lib ?u m i ev t"
    proof
      assume "transition_at lib s m i ev t"
      then show ?thesis using transition_at_insert [OF s] transition_at_insert [OF s1] ns(1) none by blast
    next
      assume ?new
      then show ?thesis using lin.bt_get_insert [OF s1, of tk tk tb] by (auto simp: transition_at_def)
    qed
  }
qed

lemma order_transition_storable:
  assumes "order_library_ok lib" and "order_event_typed e" and "order_supports e" and "id_ok i" and "e_market_ids e = [m]"
    and "e_account_ids e = [a]" and "\<And>h. prior = Some h \<Longrightarrow> length h = 32" and "length h = 32"
  shows "transition_storable lib (order_transition e i m a prior h)" and "fact_storable lib (order_fact e i m a)"
  using assms
  by (simp_all add: transition_storable_def fact_storable_def order_transition_def order_fact_def
      order_event_typed_def event_typed_def order_supports_def)

lemma hash_current_length: "order_library_ok lib \<Longrightarrow> length (hash_current lib b) = 32"
  by (simp add: order_library_ok_def payload_library_ok_def hash_current_def)

lemma chained_put:
  assumes lib: "order_library_ok lib" and s: "bt_sorted (<) s" and ch: "hashes_chained lib s"
    and sim: "orders_of lib u = (orders_of lib s)((m, i) \<mapsto> nw)"
    and u: "u = bt_insert (<) tk tb (bt_insert (<) ck cb (bt_insert (<) fk fb s))"
    and new: "bt_get (<) tk s = None" and enc: "current_encode lib nw = Inr cb"
    and ns: "sk_namespace fk = ORDER_FACT_NAMESPACE" "sk_namespace ck = ORDER_CURRENT_NAMESPACE"
    and key: "state_key_for_order ORDER_TRANSITION_NAMESPACE m i (ocr_last_event_id nw) = Inr tk"
    and dec: "transition_decode_at lib tk tb = Inr t" and res: "otr_result_state_hash t = Some (hash_current lib cb)"
    and prior: "\<And>h. otr_prior_state_hash t = Some h \<Longrightarrow>
      \<exists>c pb. orders_of lib s (m, i) = Some c \<and> current_encode lib c = Inr pb \<and> h = hash_current lib pb"
  shows "hashes_chained lib u"
proof -
  have nsk: "sk_namespace tk = ORDER_TRANSITION_NAMESPACE" using state_key_for_order_Inr(1) [OF key] by simp
  have s1: "bt_sorted (<) (bt_insert (<) fk fb s)" using s by (simp add: lin.bt_sorted_insert)
  have new1: "bt_get (<) tk (bt_insert (<) fk fb s) = None"
    using new ns(1) nsk namespaces_differ(3) by (auto simp: lin.bt_get_insert [OF s])
  have fact_only: "transition_at lib (bt_insert (<) fk fb s) n j ev w = transition_at lib s n j ev w" for n j ev w
    using transition_at_insert [OF s, of lib n j ev w fk fb] transition_at_inserted [OF s, of lib fk fb n j ev w]
      ns(1) namespaces_differ(3) state_key_for_order_Inr(1) [of ORDER_TRANSITION_NAMESPACE n j ev fk] by fastforce
  have at: "transition_at lib u n j ev w \<longleftrightarrow> transition_at lib s n j ev w
      \<or> (state_key_for_order ORDER_TRANSITION_NAMESPACE n j ev = Inr tk \<and> w = t)" for n j ev w
    using transition_at_write [OF s1 new1 _ nsk, of ck lib tb cb n j ev w] ns(2) namespaces_differ(2) dec
    by (auto simp: u fact_only)
  have here: "transition_at lib u m i (ocr_last_event_id nw) t" using key at by blast
  show ?thesis unfolding hashes_chained_def
  proof (intro conjI allI impI)
    fix n j r assume r: "orders_of lib u (n, j) = Some r"
    show "\<exists>b t. current_encode lib r = Inr b \<and> transition_at lib u n j (ocr_last_event_id r) t
        \<and> otr_result_state_hash t = Some (hash_current lib b)"
    proof (cases "(n, j) = (m, i)")
      case True
      then show ?thesis using r here enc res by (auto simp: sim)
    next
      case False
      then have "orders_of lib s (n, j) = Some r" using r by (simp add: sim split: if_splits)
      then obtain b w where "current_encode lib r = Inr b" "transition_at lib s n j (ocr_last_event_id r) w"
          "otr_result_state_hash w = Some (hash_current lib b)"
        using ch unfolding hashes_chained_def by blast
      then show ?thesis using at by blast
    qed
  next
    fix n j ev w h assume a: "transition_at lib u n j ev w \<and> otr_prior_state_hash w = Some h"
    show "\<exists>earlier v. transition_at lib u n j earlier v \<and> otr_result_state_hash v = Some h"
    proof (cases "transition_at lib s n j ev w")
      case True
      then show ?thesis using ch a at unfolding hashes_chained_def by blast
    next
      case False
      then have w: "state_key_for_order ORDER_TRANSITION_NAMESPACE n j ev = Inr tk" "w = t" using a at by auto
      have nj: "n = m" "j = i" using state_key_for_order_inject [OF w(1) key] by auto
      obtain c pb where c: "orders_of lib s (m, i) = Some c" "current_encode lib c = Inr pb" "h = hash_current lib pb"
        using prior a w(2) by blast
      obtain v where "transition_at lib s m i (ocr_last_event_id c) v" "otr_result_state_hash v = Some h"
        using ch c unfolding hashes_chained_def by (metis Inr_inject)
      then show ?thesis using at nj by blast
    qed
  qed
qed

section \<open>Runs\<close>

definition facts_complete :: "order_library \<Rightarrow> canonical_event list \<Rightarrow> state_entries \<Rightarrow> bool" where
  "facts_complete lib es s \<longleftrightarrow>
     (\<exists>fs. list_all2 (fact_recorded lib s) es fs \<and> distinct (map fact_state_key fs))"

definition currents_readable :: "order_library \<Rightarrow> state_entries \<Rightarrow> bool" where
  "currents_readable lib s \<longleftrightarrow>
     (\<forall>k b. bt_get (<) k s = Some b \<and> sk_namespace k = ORDER_CURRENT_NAMESPACE \<longrightarrow>
        (\<exists>r. current_decode_at lib k b = Inr r))"

lemma facts_complete_step:
  assumes "facts_complete lib es s" and "fact_recorded lib u e f"
    and "fact_state_key f = Inr k" and "bt_get (<) k s = None"
    and keep: "\<And>l b. bt_get (<) l s = Some b \<Longrightarrow> sk_namespace l = ORDER_FACT_NAMESPACE \<Longrightarrow> bt_get (<) l u = Some b"
  shows "facts_complete lib (es @ [e]) u"
proof -
  obtain fs where fs: "list_all2 (fact_recorded lib s) es fs" "distinct (map fact_state_key fs)"
    using assms(1) by (auto simp: facts_complete_def)
  have mono: "fact_recorded lib u x g" if "fact_recorded lib s x g" for x g
    using that keep fact_key_namespace(1) unfolding fact_recorded_def by blast
  have "list_all2 (fact_recorded lib u) (es @ [e]) (fs @ [f])"
    using fs(1) assms(2) mono by (auto intro!: list_all2_appendI elim: list_all2_mono)
  moreover have "Inr k \<notin> set (map fact_state_key fs)"
  proof
    assume "Inr k \<in> set (map fact_state_key fs)"
    then obtain g where "g \<in> set fs" "fact_state_key g = Inr k" by auto
    then obtain x where "fact_recorded lib s x g" using fs(1) by (metis in_set_conv_nth list_all2_conv_all_nth)
    then show False using \<open>fact_state_key g = Inr k\<close> assms(4) by (auto simp: fact_recorded_def)
  qed
  ultimately show ?thesis using fs(2) assms(3) unfolding facts_complete_def
    by (intro exI [of _ "fs @ [f]"]) simp
qed

definition order_inv :: "order_library \<Rightarrow> canonical_event list \<Rightarrow> state_entries \<Rightarrow> bool" where
  "order_inv lib es s \<longleftrightarrow>
     orders_of lib s = fold (order_step lib) es Map.empty \<and> facts_complete lib es s
     \<and> hashes_chained lib s \<and> currents_readable lib s"

lemma order_inv_start: "order_inv lib [] []"
proof -
  have none: "orders_of lib [] = Map.empty"
    by (auto simp: orders_of_def fun_eq_iff split: sum.splits)
  moreover have "\<not> transition_at lib [] m i e t" for m i e t by (simp add: transition_at_def)
  ultimately have "hashes_chained lib []" unfolding hashes_chained_def none by simp
  then show ?thesis using none by (simp add: order_inv_def facts_complete_def currents_readable_def)
qed

lemma reduce_rejection_inv:
  assumes lib: "order_library_ok lib" and s: "bt_sorted (<) s" and inv: "order_inv lib es s" and typed: "order_event_typed e"
    and v: "e_payload e = OrderRejectedPayload v" and red: "reduce_rejection lib s e v = Inr ms"
  shows "order_inv lib (es @ [e]) (mutate_all ms s)"
  using red
proof (cases rule: reduce_rejection_Inr)
  case (1 fk fb tk tb)
  let ?u = "mutate_all ms s"
  have ns: "sk_namespace fk = ORDER_FACT_NAMESPACE" "sk_namespace tk = ORDER_TRANSITION_NAMESPACE"
    using fact_key_namespace(1) [OF 1(3)] transition_key_namespace(1) [OF 1(4)] by auto
  have keys: "mutation_key ` set ms = {fk, tk}" "fk \<noteq> tk" using ns namespaces_differ by (auto simp: 1(9))
  have get: "bt_get (<) k ?u = (if k = fk then Some fb else if k = tk then Some tb else bt_get (<) k s)" for k
    using keys(2) by (simp add: 1(9) lin.bt_get_insert s lin.bt_sorted_insert)
  have view: "orders_of lib ?u = orders_of lib s" by (rule order_reject_sim [OF s red])
  have "fact_storable lib (rejection_fact e v)"
    using lib typed v by (simp add: fact_storable_def rejection_fact_def order_event_typed_def event_typed_def order_payload_typed_def)
  then have "fact_decode_at lib fk fb = Inr (rejection_fact e v)"
    using fact.decode_at_encode 1(3,7) by (simp add: fact_decode_at_def)
  then have "fact_recorded lib ?u e (rejection_fact e v)"
    using 1(3) get v by (auto simp: fact_recorded_def rejection_fact_def)
  then have "facts_complete lib (es @ [e]) ?u"
    using inv 1(3,5) get 1(6) by (intro facts_complete_step) (auto simp: order_inv_def)
  moreover have at: "transition_at lib ?u m i ev t = transition_at lib s m i ev t" for m i ev t
  proof -
    have "k \<noteq> fk \<and> k \<noteq> tk" if "state_key_for_order ORDER_TRANSITION_NAMESPACE m i ev = Inr k" for k
      using state_key_for_order_Inr(1) [OF that] ns(1) namespaces_differ(3) state_key_order_rejection [OF that] 1(4)
      by (auto simp: transition_state_key_def rejection_transition_def)
    then show ?thesis by (auto simp: transition_at_def get)
  qed
  have "hashes_chained lib ?u" using inv unfolding order_inv_def hashes_chained_def view at by blast
  moreover have "currents_readable lib ?u"
    using inv ns namespaces_differ by (auto simp: order_inv_def currents_readable_def get)
  moreover have "order_step lib e w = w" for w using v by (simp add: order_step_def order_identity_def)
  ultimately show ?thesis using inv view by (simp add: order_inv_def)
qed

lemma reduce_order_inv:
  assumes lib: "order_library_ok lib" and s: "bt_sorted (<) s" and inv: "order_inv lib es s" and typed: "order_event_typed e"
    and sup: "order_supports e" and red: "reduce_order_event lib s e = Inr ms"
  shows "order_inv lib (es @ [e]) (mutate_all ms s)"
  using red
proof (cases rule: reduce_order_Inr)
  case (1 i m a ck old prior nw cb fk fb tk tb)
  let ?u = "mutate_all ms s" and ?f = "order_fact e i m a"
  let ?t = "order_transition e i m a prior (hash_current lib cb)"
  have old: "orders_of lib s (m, i) = old" by (rule load_order_view [OF 1(5,4)])
  have nw: "ocr_last_event_id nw = e_event_id e" "current_storable lib nw" "current_key_of nw = Inr ck"
    using next_current_identity [OF 1(6)] next_current_storable [OF 1(6) lib typed] stored_order_storable [OF lib] old 1(4)
    by (auto simp: current_key_of_def)
  have prior: "\<exists>c pb. orders_of lib s (m, i) = Some c \<and> current_encode lib c = Inr pb \<and> h = hash_current lib pb"
    if "prior = Some h" for h
    using 1(6) that old by (cases rule: next_current_Inr) auto
  have "length h = 32" if "prior = Some h" for h using prior [OF that] hash_current_length [OF lib] by auto
  moreover have "id_ok i" using order_identity_ok [OF 1(1)] typed by (simp add: order_event_typed_def)
  ultimately have st: "transition_storable lib ?t" "fact_storable lib ?f"
    using order_transition_storable [OF lib typed sup _ 1(2,3) _ hash_current_length [OF lib]] by blast+
  have ns: "sk_namespace fk = ORDER_FACT_NAMESPACE" "sk_namespace ck = ORDER_CURRENT_NAMESPACE"
      "sk_namespace tk = ORDER_TRANSITION_NAMESPACE"
    using fact_key_namespace(1) [OF 1(8)] transition_key_namespace(1) [OF 1(9)] current_key_namespace [OF 1(4)] by auto
  have u: "?u = bt_insert (<) tk tb (bt_insert (<) ck cb (bt_insert (<) fk fb s))" by (simp add: 1(14))
  have "fk \<noteq> ck" "fk \<noteq> tk" "ck \<noteq> tk" using ns namespaces_differ by auto
  then have get: "bt_get (<) k ?u = (if k = fk then Some fb else if k = ck then Some cb else if k = tk then Some tb
      else bt_get (<) k s)" for k
    by (simp add: u lin.bt_get_insert s lin.bt_sorted_insert)
  have sim: "orders_of lib ?u = order_step lib e (orders_of lib s)" by (rule order_put_sim [OF lib s typed red])
  have "fact_decode_at lib fk fb = Inr ?f" using fact.decode_at_encode [OF st(2) 1(12,8)] by (simp add: fact_decode_at_def)
  then have "fact_recorded lib ?u e ?f" using 1(8) get by (auto simp: fact_recorded_def order_fact_def)
  then have "facts_complete lib (es @ [e]) ?u"
    using inv 1(8,10) ns namespaces_differ by (intro facts_complete_step [where k = fk]) (auto simp: order_inv_def get)
  moreover have "hashes_chained lib ?u"
  proof (rule chained_put [OF lib s _ _ u 1(11,7) ns(1,2)])
    show "hashes_chained lib s" using inv by (simp add: order_inv_def)
    show "orders_of lib ?u = (orders_of lib s)((m, i) \<mapsto> nw)"
      unfolding sim using next_current_view [OF 1(6,1,2), of "orders_of lib s"] old by simp
    show "state_key_for_order ORDER_TRANSITION_NAMESPACE m i (ocr_last_event_id nw) = Inr tk"
      using 1(9) nw(1) by (simp add: transition_state_key_def order_transition_def)
    show "transition_decode_at lib tk tb = Inr ?t"
      using transition.decode_at_encode [OF st(1) 1(13,9)] by (simp add: transition_decode_at_def)
  qed (use prior in \<open>auto simp: order_transition_def\<close>)
  moreover have "currents_readable lib ?u"
    using inv ns namespaces_differ current.decode_at_encode [OF nw(2) 1(7) nw(3)]
    by (auto simp: order_inv_def currents_readable_def get current_decode_at_def)
  ultimately show ?thesis using inv sim by (simp add: order_inv_def)
qed

lemma order_reduce_inv:
  assumes "order_library_ok lib" and "bt_sorted (<) s" and "order_inv lib es s" and "order_event_typed e"
    and "order_supports e" and "order_reduce lib s e ctx = Inr ms"
  shows "order_inv lib (es @ [e]) (mutate_all ms s)"
proof (cases "\<exists>v. e_payload e = OrderRejectedPayload v")
  case True
  then obtain v where v: "e_payload e = OrderRejectedPayload v" by blast
  then have "reduce_rejection lib s e v = Inr ms" using assms(6) by (simp add: order_reduce_def rbind_Inr_iff)
  then show ?thesis using reduce_rejection_inv v assms by blast
next
  case False
  then have "reduce_order_event lib s e = Inr ms"
    using assms(6) by (cases "e_payload e") (auto simp: order_reduce_def rbind_Inr_iff)
  then show ?thesis using reduce_order_inv assms by blast
qed

interpretation order_run: reducer_history "order_reducer lib"
  "\<lambda>e. order_library_ok lib \<and> order_event_typed e" "order_inv lib" for lib
  by unfold_locales (auto simp: order_reducer_def intro: order_inv_start order_reduce_inv)

section \<open>Properties\<close>

text \<open>
  A library whose serialisers know the three records of one accepted order.
\<close>

definition sample_accept :: order_accepted where
  "sample_accept = \<lparr>oa_order_id = ''o1'', oa_account_id = replicate 20 7, oa_market_id = ''BTC'', oa_side = Buy,
     oa_limit_price = \<lparr>raw = 100, scale = 0\<rparr>, oa_quantity = \<lparr>raw = 5, scale = 0\<rparr>\<rparr>"

definition sample_order_event :: canonical_event where
  "sample_order_event = sample_event\<lparr>e_market_ids := [''BTC''], e_account_ids := [replicate 20 7],
     e_payload := OrderAcceptedPayload sample_accept\<rparr>"

definition sample_orders :: order_library where
  "sample_orders = payload_library.extend sample_payload_library (order_library.fields
     (sample_table [(\<lparr>ofw_schema = ORDER_FACT_SCHEMA, ofw_event_id = ''evt_00'',
        ofw_event_kind = kind_wire_name OrderAccepted, ofw_order_id = Some ''o1'', ofw_client_order_id = None,
        ofw_account_id = to_api_string sample_hex_encode (replicate 20 7), ofw_market_id = Some ''BTC'',
        ofw_block_height = 1, ofw_payload_blake3 = sample_hex_encode (replicate 32 1)\<rparr>, [1])])
     (sample_table [(\<lparr>ocw_schema = ORDER_CURRENT_SCHEMA, ocw_order_id = ''o1'',
        ocw_account_id = to_api_string sample_hex_encode (replicate 20 7), ocw_market_id = ''BTC'', ocw_side = ''buy'',
        ocw_lifecycle = ''accepted'', ocw_limit_price = decimal_display \<lparr>raw = 100, scale = 0\<rparr>,
        ocw_accepted_quantity = decimal_display \<lparr>raw = 5, scale = 0\<rparr>,
        ocw_filled_quantity = decimal_display \<lparr>raw = 0, scale = 0\<rparr>,
        ocw_remaining_quantity = decimal_display \<lparr>raw = 5, scale = 0\<rparr>, ocw_accepted_event_id = ''evt_00'',
        ocw_last_event_id = ''evt_00'', ocw_last_block_height = 1\<rparr>, [2])])
     (sample_table [(\<lparr>otw_schema = ORDER_TRANSITION_SCHEMA, otw_event_id = ''evt_00'',
        otw_event_kind = kind_wire_name OrderAccepted, otw_order_id = Some ''o1'', otw_client_order_id = None,
        otw_account_id = to_api_string sample_hex_encode (replicate 20 7), otw_market_id = Some ''BTC'',
        otw_block_height = 1, otw_payload_blake3 = sample_hex_encode (replicate 32 1), otw_prior_state_blake3 = None,
        otw_result_state_blake3 = Some (sample_hex_encode (replicate 32 2)), otw_rule_version = ORDER_REDUCER_VERSION,
        otw_status = ''applied''\<rparr>, [3])]))"

definition sample_order_key :: "string \<Rightarrow> bytes \<Rightarrow> state_key" where
  "sample_order_key ns event = StateKey ns (0 # frame (str_bytes ''BTC'') @ frame (str_bytes ''o1'') @ event)"

lemma sample_orders_ok: "order_library_ok sample_orders"
  using sample_payload_library_ok
  by (simp add: order_library_ok_def sample_orders_def payload_library.defs order_library.defs payload_library_ok_def
      sample_table_law)

lemma sample_orders_simps:
  "lib_hex_encode sample_orders = sample_hex_encode" "lib_derive_key sample_orders = (\<lambda>_ _. replicate 32 2)"
  by (simp_all add: sample_orders_def payload_library.defs order_library.defs sample_payload_library_def)

lemma order_namespaces_valid:
  "valid_namespace ORDER_FACT_NAMESPACE" "valid_namespace ORDER_CURRENT_NAMESPACE" "valid_namespace ORDER_TRANSITION_NAMESPACE"
  by code_simp+

lemmas order_key_eval = fact_state_key_def transition_state_key_def state_key_for_order_def order_identity_key_def
  current_state_key_def current_identity_key_def extend_frame_def order_state_key_def state_key_new_def
  order_namespaces_valid MAX_ABSOLUTE_KEY_BYTES_def

lemmas order_encode_eval = current_encode_def fact_encode_def transition_encode_def order_encode_canonical_def
  encode_bounded_def ORDER_RECORD_BYTES_def sample_orders_def payload_library.defs order_library.defs
  sample_payload_library_def sample_table_def

lemma sample_order_next:
  "next_current sample_orders sample_order_event ''o1'' ''BTC'' (replicate 20 7) None =
     Inr (None, \<lparr>ocr_order_id = ''o1'', ocr_account_id = replicate 20 7, ocr_market_id = ''BTC'', ocr_side = Buy,
       ocr_lifecycle = LifeAccepted, ocr_limit_price = \<lparr>raw = 100, scale = 0\<rparr>,
       ocr_accepted_quantity = \<lparr>raw = 5, scale = 0\<rparr>, ocr_filled_quantity = \<lparr>raw = 0, scale = 0\<rparr>,
       ocr_remaining_quantity = \<lparr>raw = 5, scale = 0\<rparr>, ocr_accepted_event_id = ''evt_00'',
       ocr_last_event_id = ''evt_00'', ocr_last_block_height = 1\<rparr>)"
  by (simp add: next_current_def sample_order_event_def sample_accept_def accepted_current_def sample_event_def
      checked_sub_def require_same_scale_def to_i128_def from_raw_def validate_scale_def MAX_DECIMAL_SCALE_def)

lemma sample_order_encode:
  "current_encode sample_orders \<lparr>ocr_order_id = ''o1'', ocr_account_id = replicate 20 7, ocr_market_id = ''BTC'', ocr_side = Buy,
       ocr_lifecycle = LifeAccepted, ocr_limit_price = \<lparr>raw = 100, scale = 0\<rparr>,
       ocr_accepted_quantity = \<lparr>raw = 5, scale = 0\<rparr>, ocr_filled_quantity = \<lparr>raw = 0, scale = 0\<rparr>,
       ocr_remaining_quantity = \<lparr>raw = 5, scale = 0\<rparr>, ocr_accepted_event_id = ''evt_00'',
       ocr_last_event_id = ''evt_00'', ocr_last_block_height = 1\<rparr> = Inr [2]" (is "current_encode _ ?r = _")
proof -
  have "current_validate ?r = Inr ()"
    by (simp add: current_validate_iff is_terminal_def dec_value_def in_i128_def i128_max_def i128_min_def)
  then show ?thesis by (simp add: order_encode_eval)
qed

lemma sample_order_fact:
  "fact_encode sample_orders (order_fact sample_order_event ''o1'' ''BTC'' (replicate 20 7)) = Inr [1]"
  by (simp add: order_encode_eval order_fact_def sample_order_event_def sample_event_def sample_accept_def
      valid_identity_shape_def is_order_kind_def)

lemma sample_order_transition:
  "transition_encode sample_orders (order_transition sample_order_event ''o1'' ''BTC'' (replicate 20 7) None
     (hash_current sample_orders [2])) = Inr [3]"
  by (simp add: order_encode_eval order_transition_def sample_order_event_def sample_event_def sample_accept_def
      transition_validate_def hash_current_def)

lemma sample_order_reduce:
  "order_reduce sample_orders [] sample_order_event ctx =
     Inr [Put (sample_order_key ORDER_FACT_NAMESPACE (frame (str_bytes ''evt_00''))) [1],
          Put (sample_order_key ORDER_CURRENT_NAMESPACE []) [2],
          Put (sample_order_key ORDER_TRANSITION_NAMESPACE (frame (str_bytes ''evt_00''))) [3]]"
proof -
  have e: "e_payload sample_order_event = OrderAcceptedPayload sample_accept" "e_market_ids sample_order_event = [''BTC'']"
    "e_account_ids sample_order_event = [replicate 20 7]" "e_event_id sample_order_event = ''evt_00''"
    by (simp_all add: sample_order_event_def sample_event_def)
  have "current_state_key ''BTC'' ''o1'' = Inr (sample_order_key ORDER_CURRENT_NAMESPACE [])"
    "fact_state_key (order_fact sample_order_event ''o1'' ''BTC'' (replicate 20 7)) =
       Inr (sample_order_key ORDER_FACT_NAMESPACE (frame (str_bytes ''evt_00'')))"
    "transition_state_key (order_transition sample_order_event ''o1'' ''BTC'' (replicate 20 7) None (hash_current sample_orders [2])) =
       Inr (sample_order_key ORDER_TRANSITION_NAMESPACE (frame (str_bytes ''evt_00'')))"
    by (simp_all add: order_key_eval sample_order_key_def order_fact_def order_transition_def e)
  moreover have "validate_payload_semantics sample_orders (OrderAcceptedPayload sample_accept) = Inr ()"
    "order_identity sample_orders (OrderAcceptedPayload sample_accept) = Inr ''o1''"
    by (simp_all add: order_check_defs order_identity_def sample_accept_def)
  ultimately show ?thesis
    using sample_order_next sample_order_encode sample_order_fact sample_order_transition
    by (simp add: order_reduce_def reduce_order_event_def e load_order_def reject_collision_def)
qed

text \<open>
  C11. The transitions of an order conserve its quantities. When a valid order that is not yet
  filled or cancelled takes an accepted transition, the result is again a valid record of the
  same order, account, market and side; filled plus remaining is the accepted quantity; the
  filled quantity has grown by exactly the fill of the event; only a modification changes the
  accepted quantity and the price; and the life cycle state is the one the event names. A
  filled or cancelled order takes no transition.
\<close>

theorem order_transition_conserves:
  assumes "apply_transition lib c (e_payload e) e = Inr d" and "current_validate c = Inr ()"
    and "validate_payload_semantics lib (e_payload e) = Inr ()"
  shows "\<not> is_terminal (ocr_lifecycle c) \<and> current_validate d = Inr () \<and> same_order c d
    \<and> dec_value (ocr_accepted_quantity d) = dec_value (ocr_filled_quantity d) + dec_value (ocr_remaining_quantity d)
    \<and> dec_value (ocr_filled_quantity d) = dec_value (ocr_filled_quantity c) + fill_of (e_payload e)
    \<and> (ocr_accepted_quantity d \<noteq> ocr_accepted_quantity c \<or> ocr_limit_price d \<noteq> ocr_limit_price c
         \<longrightarrow> payload_kind (e_payload e) = OrderModified)
    \<and> ocr_lifecycle d = lifecycle_after (payload_kind (e_payload e))
    \<and> ocr_last_event_id d = e_event_id e \<and> ocr_last_block_height d = e_block_height e"
proof -
  have nt: "\<not> is_terminal (ocr_lifecycle c)" by (rule transition_not_terminal [OF assms(1)])
  obtain b where b: "transition_body lib c (e_payload e) = Inr b" "d = order_touched e b"
    using assms(1) by (auto simp: apply_transition_def order_error_def rmap_Inr_iff split: if_splits)
  show ?thesis using body_conserves [OF b(1) assms(2) nt assms(3)] nt
    by (auto simp: b(2) order_touched_def same_order_def current_validate_iff)
qed

definition sample_partial :: canonical_event where
  "sample_partial = sample_order_event\<lparr>e_payload := OrderPartiallyFilledPayload
     \<lparr>op_order_id = ''o1'', op_trade_id = ''t'', op_fill_price = \<lparr>raw = 100, scale = 0\<rparr>,
      op_fill_quantity = \<lparr>raw = 2, scale = 0\<rparr>, op_remaining_quantity = \<lparr>raw = 3, scale = 0\<rparr>\<rparr>\<rparr>"

theorem order_transition_conserves_witness:
  "\<exists>c d. next_current sample_orders sample_order_event ''o1'' ''BTC'' (replicate 20 7) None = Inr (None, c)
     \<and> apply_transition sample_orders c (e_payload sample_partial) sample_partial = Inr d
     \<and> ocr_lifecycle d = LifePartiallyFilled
     \<and> dec_value (ocr_filled_quantity d) = dec_value (ocr_filled_quantity c) + 2"
proof -
  obtain c where c: "next_current sample_orders sample_order_event ''o1'' ''BTC'' (replicate 20 7) None = Inr (None, c)"
      "current_validate c = Inr ()"
      "c = \<lparr>ocr_order_id = ''o1'', ocr_account_id = replicate 20 7, ocr_market_id = ''BTC'', ocr_side = Buy,
       ocr_lifecycle = LifeAccepted, ocr_limit_price = \<lparr>raw = 100, scale = 0\<rparr>,
       ocr_accepted_quantity = \<lparr>raw = 5, scale = 0\<rparr>, ocr_filled_quantity = \<lparr>raw = 0, scale = 0\<rparr>,
       ocr_remaining_quantity = \<lparr>raw = 5, scale = 0\<rparr>, ocr_accepted_event_id = ''evt_00'',
       ocr_last_event_id = ''evt_00'', ocr_last_block_height = 1\<rparr>"
    using sample_order_next
    by (simp add: current_validate_iff is_terminal_def dec_value_def in_i128_def i128_max_def i128_min_def)
  have "\<exists>d. apply_transition sample_orders c (e_payload sample_partial) sample_partial = Inr d"
    by (simp add: c(3) apply_transition_def sample_partial_def transition_allowed_def is_terminal_def transition_body_def
        checked_sub_def checked_add_def require_same_scale_def to_i128_def from_raw_def validate_scale_def
        MAX_DECIMAL_SCALE_def decimal_eq_value dec_value_def in_i128_def i128_max_def i128_min_def)
  then obtain d where d: "apply_transition sample_orders c (e_payload sample_partial) sample_partial = Inr d" by blast
  have sem: "validate_payload_semantics sample_orders (e_payload sample_partial) = Inr ()"
    by (simp add: order_check_defs sample_partial_def)
  have "fill_of (e_payload sample_partial) = 2" "payload_kind (e_payload sample_partial) = OrderPartiallyFilled"
    by (simp_all add: fill_of_def sample_partial_def dec_value_def)
  then show ?thesis using order_transition_conserves [OF d c(2) sem] c(1) d by auto
qed

text \<open>
  C2. The state of the order reducer is the fold of the abstract step over the applied events.
  In every run of a ledger with this reducer, the orders read from the stored bytes are
  exactly those the abstract step gives, every stored order is a readable record with filled
  plus remaining equal to accepted, and every applied event has its own fact record, which
  still reads back with the event's identity, kind, height and payload hash.
\<close>

theorem order_ledger_refines:
  assumes "ledger_run derive (order_reducer lib) limits chain first bs ms l"
    and "order_library_ok lib" and "\<forall>e \<in> set (run_events bs). order_event_typed e"
  shows "orders_of lib (si_entries (cl_state l)) = fold (order_step lib) (run_events bs) Map.empty
    \<and> (\<forall>k b. bt_get (<) k (si_entries (cl_state l)) = Some b \<and> sk_namespace k = ORDER_CURRENT_NAMESPACE \<longrightarrow>
         (\<exists>r. current_decode_at lib k b = Inr r
            \<and> dec_value (ocr_accepted_quantity r) = dec_value (ocr_filled_quantity r) + dec_value (ocr_remaining_quantity r)))
    \<and> (\<exists>fs. list_all2 (fact_recorded lib (si_entries (cl_state l))) (run_events bs) fs \<and> distinct (map fact_state_key fs))"
proof -
  have inv: "order_inv lib (run_events bs) (si_entries (cl_state l))"
    using order_run.inv_run [OF assms(1)] assms(2,3) by blast
  have "dec_value (ocr_accepted_quantity r) = dec_value (ocr_filled_quantity r) + dec_value (ocr_remaining_quantity r)"
    if "current_decode_at lib k b = Inr r" for k b r
    using that current_decode_storable(2) [OF assms(2), of b r]
    by (simp add: current_decode_at_def current.decode_at_Inr current_validate_iff)
  then show ?thesis using inv unfolding order_inv_def currents_readable_def facts_complete_def by blast
qed

lemma sample_order_run:
  "\<exists>ms l. ledger_run sample_derive (order_reducer sample_orders) ledger_limits_production ''c'' 1
     [sample_ledger_block\<lparr>b_events := [sample_order_event]\<rparr>] ms l"
proof -
  have version: "valid_reducer_version ORDER_REDUCER_VERSION" by code_simp
  have sup: "order_supports sample_order_event"
    by (simp add: order_supports_def is_order_kind_def sample_order_event_def sample_event_def)
  have "\<exists>cs l. ledger_run sample_derive (order_reducer sample_orders) ledger_limits_production ''c'' 1
     [sample_ledger_block\<lparr>b_events := [sample_order_event]\<rparr>] cs l \<and> si_entries (cl_state l) =
       mutate_all [Put (sample_order_key ORDER_FACT_NAMESPACE (frame (str_bytes ''evt_00''))) [1],
          Put (sample_order_key ORDER_CURRENT_NAMESPACE []) [2],
          Put (sample_order_key ORDER_TRANSITION_NAMESPACE (frame (str_bytes ''evt_00''))) [3]] []"
    by (intro one_event_run)
       (use namespaces_differ in \<open>auto simp: order_reducer_def version sup sample_order_reduce small_put_def key_len_def
          sample_order_key_def ORDER_FACT_NAMESPACE_def ORDER_CURRENT_NAMESPACE_def ORDER_TRANSITION_NAMESPACE_def\<close>)
  then show ?thesis by blast
qed

lemma sample_order_typed: "\<forall>e \<in> set (run_events [sample_ledger_block\<lparr>b_events := [sample_order_event]\<rparr>]). order_event_typed e"
proof -
  have "is_trimmed ''o1''" "is_trimmed ''BTC''" "is_trimmed ''evt_00''" by code_simp+
  then show ?thesis
    by (simp add: run_events_def order_event_typed_def event_typed_def sample_order_event_def sample_event_def sample_accept_def
        order_payload_typed_def id_ok_def decimal_ok_def in_i128_def i128_max_def i128_min_def MAX_DECIMAL_SCALE_def)
qed

theorem order_ledger_refines_witness:
  "\<exists>ms l. ledger_run sample_derive (order_reducer sample_orders) ledger_limits_production ''c'' 1
       [sample_ledger_block\<lparr>b_events := [sample_order_event]\<rparr>] ms l
     \<and> orders_of sample_orders (si_entries (cl_state l)) (''BTC'', ''o1'') \<noteq> None"
proof -
  obtain ms l where run: "ledger_run sample_derive (order_reducer sample_orders) ledger_limits_production ''c'' 1
     [sample_ledger_block\<lparr>b_events := [sample_order_event]\<rparr>] ms l" using sample_order_run by blast
  have "order_step sample_orders sample_order_event Map.empty (''BTC'', ''o1'') \<noteq> None"
    using next_current_view [OF sample_order_next, of Map.empty]
    by (simp add: order_identity_def) (simp add: sample_order_event_def sample_accept_def)
  moreover have "orders_of sample_orders (si_entries (cl_state l)) = order_step sample_orders sample_order_event Map.empty"
    using order_ledger_refines [OF run sample_orders_ok sample_order_typed, THEN conjunct1] by (simp add: run_events_def)
  ultimately have "orders_of sample_orders (si_entries (cl_state l)) (''BTC'', ''o1'') \<noteq> None" by simp
  then show ?thesis using run by blast
qed



text \<open>
  C20. An order event is applied at most once. When the reducer accepts an event, it writes
  properly constructed, pairwise distinct keys, its fact and transition keys were not in the
  state before, it deletes nothing, and the same event offered to the resulting state is
  refused.
\<close>

theorem order_event_once:
  assumes "order_reduce lib s e ctx = Inr ms" and "bt_sorted (<) s"
  shows "distinct (map mutation_key ms)
    \<and> (\<forall>x. x \<in> set ms \<longrightarrow> key_constructed (mutation_key x) \<and> mutation_value x \<noteq> None
         \<and> (sk_namespace (mutation_key x) \<noteq> ORDER_CURRENT_NAMESPACE \<longrightarrow> bt_get (<) (mutation_key x) s = None))
    \<and> \<not> is_ok (order_reduce lib (mutate_all ms s) e ctx')"
proof (cases "\<exists>v. e_payload e = OrderRejectedPayload v")
  case True
  then obtain v where v: "e_payload e = OrderRejectedPayload v" by blast
  then have "reduce_rejection lib s e v = Inr ms" using assms(1) by (simp add: order_reduce_def rbind_Inr_iff)
  then show ?thesis
  proof (cases rule: reduce_rejection_Inr)
    case (1 fk fb tk tb)
    have ne: "fk \<noteq> tk" using fact_key_namespace(1) [OF 1(3)] transition_key_namespace(1) [OF 1(4)] namespaces_differ by auto
    have "\<not> is_ok (order_reduce lib (mutate_all ms s) e ctx')"
    proof
      assume "is_ok (order_reduce lib (mutate_all ms s) e ctx')"
      then obtain ns where "reduce_rejection lib (mutate_all ms s) e v = Inr ns"
        using v by (auto simp: is_ok_iff order_reduce_def rbind_Inr_iff)
      then have "bt_get (<) fk (mutate_all ms s) = None" using 1(3) by (cases rule: reduce_rejection_Inr) simp
      then show False using ne by (simp add: 1(9) lin.bt_get_insert assms(2) lin.bt_sorted_insert)
    qed
    then show ?thesis using 1 ne fact_key_namespace(2) [OF 1(3)] transition_key_namespace(2) [OF 1(4)] by auto
  qed
next
  case False
  then have red: "order_reduce lib u e c = Inr x \<Longrightarrow> reduce_order_event lib u e = Inr x" for u c x
    by (cases "e_payload e") (auto simp: order_reduce_def rbind_Inr_iff)
  from red [OF assms(1)] show ?thesis
  proof (cases rule: reduce_order_Inr)
    case (1 i m a ck old prior nw cb fk fb tk tb)
    have ns: "sk_namespace fk = ORDER_FACT_NAMESPACE" "sk_namespace tk = ORDER_TRANSITION_NAMESPACE" "sk_namespace ck = ORDER_CURRENT_NAMESPACE"
      using fact_key_namespace(1) [OF 1(8)] transition_key_namespace(1) [OF 1(9)] current_key_namespace [OF 1(4)] by auto
    then have ne: "fk \<noteq> tk" "fk \<noteq> ck" "ck \<noteq> tk" using namespaces_differ by auto
    have "\<not> is_ok (order_reduce lib (mutate_all ms s) e ctx')"
    proof
      assume "is_ok (order_reduce lib (mutate_all ms s) e ctx')"
      then obtain x where "reduce_order_event lib (mutate_all ms s) e = Inr x" using red by (auto simp: is_ok_iff)
      then have "bt_get (<) fk (mutate_all ms s) = None" using 1(1-3,8) by (cases rule: reduce_order_Inr) simp
      then show False using ne by (simp add: 1(14) lin.bt_get_insert assms(2) lin.bt_sorted_insert)
    qed
    then show ?thesis
      using 1(10,11) ne ns fact_key_namespace(2) [OF 1(8)] transition_key_namespace(2) [OF 1(9)] current_state_key_Inr(4) [OF 1(4)]
      by (auto simp: 1(14))
  qed
qed

theorem order_event_once_witness:
  "\<exists>ms. order_reduce sample_orders [] sample_order_event sample_context = Inr ms \<and> length ms = 3
     \<and> \<not> is_ok (order_reduce sample_orders (mutate_all ms []) sample_order_event sample_context)"
  using order_event_once [OF sample_order_reduce [of sample_context], of sample_context] sample_order_reduce [of sample_context]
  by simp

end
