(* ===== verification/Staking.thy ===== *)
theory Staking
  imports Opaque_Payload
begin

text \<open>
  The staking reducer, \<^verbatim>\<open>crates/canonical-ledger/src/staking.rs\<close>: the liquid, the pending and
  the delegated stake of an account, each as a record of credits and debits. Every event
  moves one positive amount between these pools. The abstract view is the list of flows of an
  event; the stored records are shown to be the sums of the flows, so that stake is neither
  created nor lost.
\<close>

section \<open>Errors\<close>

definition staking_arithmetic :: reducer_error where
  "staking_arithmetic = from_static ''staking_state.flow_arithmetic'' ''staking quantity arithmetic failed''"

definition staking_unsupported :: reducer_error where
  "staking_unsupported = from_static ''staking_state.unsupported_event''
     ''staking reducer received an unsupported event''"

fun staking_codec_error :: "record_codec_error \<Rightarrow> reducer_error" where
  "staking_codec_error RcInvalidKey =
     from_static ''staking_state.codec_invalid_key'' ''staking state key encoding failed''"
| "staking_codec_error RcLimitExceeded =
     from_static ''staking_state.codec_limit_exceeded'' ''staking state record exceeds its deterministic bound''"
| "staking_codec_error _ =
     from_static ''staking_state.codec_failed'' ''staking state record is not canonical''"

section \<open>Records\<close>

definition STAKING_VERSION :: string where
  "STAKING_VERSION = ''hyperliquid-alpha-desk-canonical-staking@1.0.0''"

record staking_fact_record =
  sf_event_id :: string
  sf_event_kind :: event_kind
  sf_account_id :: address
  sf_validator :: "string option"
  sf_block_height :: block_height
  sf_payload_hash :: hash

text \<open>
  \<^verbatim>\<open>StakingLiquidCurrentRecordV1\<close> and \<^verbatim>\<open>StakingPendingCurrentRecordV1\<close> have the same fields; the
  delegation record has a validator besides.
\<close>

record staking_current =
  sc_account_id :: address
  sc_credits :: decimal
  sc_debits :: decimal
  sc_last_event_id :: string
  sc_last_block_height :: block_height

record staking_delegation_current = staking_current +
  sc_validator :: string

record staking_fact_wire =
  sfw_schema :: string
  sfw_event_id :: string
  sfw_event_kind :: string
  sfw_account_id :: string
  sfw_validator :: "string option"
  sfw_block_height :: u64
  sfw_payload_blake3 :: string
  sfw_rule_version :: string

record balance_wire =
  bw_schema :: string
  bw_account_id :: string
  bw_credits :: string
  bw_debits :: string
  bw_last_event_id :: string
  bw_last_block_height :: u64

record delegation_wire =
  dw_schema :: string
  dw_account_id :: string
  dw_validator :: string
  dw_credits :: string
  dw_debits :: string
  dw_last_event_id :: string
  dw_last_block_height :: u64

record staking_library = payload_library +
  staking_fact_json :: "staking_fact_wire json"
  balance_json :: "balance_wire json"
  delegation_json :: "delegation_wire json"

definition staking_library_ok :: "staking_library \<Rightarrow> bool" where
  "staking_library_ok lib \<longleftrightarrow> payload_library_ok lib \<and> json_law (staking_fact_json lib)
     \<and> json_law (balance_json lib) \<and> json_law (delegation_json lib)"

section \<open>Facts\<close>

definition staking_fact_key :: "string \<Rightarrow> record_codec_error + state_key" where
  "staking_fact_key event_id = framed_key ''staking-fact.v1'' [str_bytes event_id]"

definition staking_fact_validate :: "staking_fact_record \<Rightarrow> record_codec_error + unit" where
  "staking_fact_validate r =
     (let validator_ok =
        (if sf_event_kind r \<in> {StakingDelegated, StakingUndelegated}
         then (case sf_validator r of Some value \<Rightarrow> value \<noteq> [] | None \<Rightarrow> False)
         else if sf_event_kind r \<in> {StakingDeposit, StakingWithdrawalQueued, StakingWithdrawalCompleted}
         then sf_validator r = None
         else False)
      in if validator_ok then Inr () else Inl RcInvalidRecord)"

definition staking_fact_from_event ::
  "canonical_event \<Rightarrow> address \<Rightarrow> string option \<Rightarrow> reducer_error + staking_fact_record" where
  "staking_fact_from_event event account_id validator =
     (let r = \<lparr>sf_event_id = e_event_id event, sf_event_kind = payload_kind (e_payload event),
               sf_account_id = account_id, sf_validator = validator,
               sf_block_height = e_block_height event, sf_payload_hash = e_payload_hash event\<rparr>
      in rbind (map_err staking_codec_error (staking_fact_validate r)) (\<lambda>_. Inr r))"

definition staking_fact_encode :: "staking_library \<Rightarrow> staking_fact_record \<Rightarrow> record_codec_error + bytes" where
  "staking_fact_encode lib r =
     rbind (staking_fact_validate r) (\<lambda>_.
     encode_json (staking_fact_json lib)
       \<lparr>sfw_schema = ''hyperliquid-alpha-desk/staking-fact/v1'', sfw_event_id = sf_event_id r,
        sfw_event_kind = kind_wire_name (sf_event_kind r),
        sfw_account_id = to_api_string (lib_hex_encode lib) (sf_account_id r),
        sfw_validator = sf_validator r, sfw_block_height = sf_block_height r,
        sfw_payload_blake3 = lib_hex_encode lib (sf_payload_hash r), sfw_rule_version = STAKING_VERSION\<rparr>)"

section \<open>Balances\<close>

definition zero_of :: "decimal \<Rightarrow> reducer_error + decimal" where
  "zero_of amount = map_err (\<lambda>_. staking_arithmetic) (checked_sub amount amount)"

definition encode_balance :: "staking_library \<Rightarrow> string \<Rightarrow> staking_current \<Rightarrow> record_codec_error + bytes" where
  "encode_balance lib schema r =
     encode_json (balance_json lib)
       \<lparr>bw_schema = schema, bw_account_id = to_api_string (lib_hex_encode lib) (sc_account_id r),
        bw_credits = decimal_display (sc_credits r), bw_debits = decimal_display (sc_debits r),
        bw_last_event_id = sc_last_event_id r, bw_last_block_height = sc_last_block_height r\<rparr>"

definition decode_balance :: "staking_library \<Rightarrow> bytes \<Rightarrow> string \<Rightarrow> record_codec_error + staking_current" where
  "decode_balance lib b schema =
     rbind (decode_json (balance_json lib) b) (\<lambda>w.
     if bw_schema w \<noteq> schema then Inl RcInvalidRecord
     else
       rbind (map_err (\<lambda>_. RcInvalidRecord) (parse_api (lib_hex_decode lib) (bw_account_id w))) (\<lambda>account_id.
       rbind (map_err (\<lambda>_. RcInvalidRecord) (decimal_from_str (bw_credits w))) (\<lambda>credits.
       rbind (map_err (\<lambda>_. RcInvalidRecord) (decimal_from_str (bw_debits w))) (\<lambda>debits.
       rbind (map_err (\<lambda>_. RcInvalidRecord) (string_id_new (bw_last_event_id w))) (\<lambda>last_event_id.
       let r = \<lparr>sc_account_id = account_id, sc_credits = credits, sc_debits = debits,
                sc_last_event_id = last_event_id, sc_last_block_height = bw_last_block_height w\<rparr>
       in rbind (encode_balance lib schema r) (\<lambda>again.
          if again \<noteq> b then Inl RcNonCanonical else Inr r))))))"

text \<open>The \<^verbatim>\<open>apply\<close> of the three record types differs in the error of an excessive debit.\<close>

datatype flow = Credit | Debit

definition apply_flow ::
  "reducer_error \<Rightarrow> decimal \<Rightarrow> flow \<Rightarrow> string \<Rightarrow> block_height
     \<Rightarrow> 'a staking_current_scheme \<Rightarrow> reducer_error + 'a staking_current_scheme" where
  "apply_flow insufficient amount side event_id height r =
     rbind
       (case side of
          Credit \<Rightarrow> rmap (\<lambda>c. r\<lparr>sc_credits := c\<rparr>) (map_err (\<lambda>_. staking_arithmetic) (checked_add (sc_credits r) amount))
        | Debit \<Rightarrow> rmap (\<lambda>d. r\<lparr>sc_debits := d\<rparr>) (map_err (\<lambda>_. staking_arithmetic) (checked_add (sc_debits r) amount)))
       (\<lambda>r'. if decimal_lt (sc_credits r') (sc_debits r') then Inl insufficient
             else Inr (r'\<lparr>sc_last_event_id := event_id, sc_last_block_height := height\<rparr>))"

definition balance_empty :: "address \<Rightarrow> decimal \<Rightarrow> canonical_event \<Rightarrow> reducer_error + staking_current" where
  "balance_empty account_id amount event =
     rbind (zero_of amount) (\<lambda>zero.
     Inr \<lparr>sc_account_id = account_id, sc_credits = zero, sc_debits = zero,
          sc_last_event_id = e_event_id event, sc_last_block_height = e_block_height event\<rparr>)"

section \<open>Liquid and pending stake\<close>

definition liquid_key :: "address \<Rightarrow> record_codec_error + state_key" where
  "liquid_key account_id = framed_key ''staking-liquid-current.v1'' [account_id]"

definition liquid_encode :: "staking_library \<Rightarrow> staking_current \<Rightarrow> record_codec_error + bytes" where
  "liquid_encode lib r = encode_balance lib ''hyperliquid-alpha-desk/staking-liquid-current/v1'' r"

definition liquid_decode :: "staking_library \<Rightarrow> bytes \<Rightarrow> record_codec_error + staking_current" where
  "liquid_decode lib b = decode_balance lib b ''hyperliquid-alpha-desk/staking-liquid-current/v1''"

definition liquid_decode_at :: "staking_library \<Rightarrow> state_key \<Rightarrow> bytes \<Rightarrow> record_codec_error + staking_current" where
  "liquid_decode_at lib = decode_at_key RcKeyMismatch (\<lambda>r. liquid_key (sc_account_id r)) (liquid_decode lib)"

definition liquid_apply ::
  "decimal \<Rightarrow> flow \<Rightarrow> string \<Rightarrow> block_height \<Rightarrow> staking_current \<Rightarrow> reducer_error + staking_current" where
  "liquid_apply = apply_flow (from_static ''staking_state.insufficient_liquid'' ''staking liquid debit exceeds credits'')"

definition pending_key :: "address \<Rightarrow> record_codec_error + state_key" where
  "pending_key account_id = framed_key ''staking-pending-current.v1'' [account_id]"

definition pending_encode :: "staking_library \<Rightarrow> staking_current \<Rightarrow> record_codec_error + bytes" where
  "pending_encode lib r = encode_balance lib ''hyperliquid-alpha-desk/staking-pending-current/v1'' r"

definition pending_decode :: "staking_library \<Rightarrow> bytes \<Rightarrow> record_codec_error + staking_current" where
  "pending_decode lib b = decode_balance lib b ''hyperliquid-alpha-desk/staking-pending-current/v1''"

definition pending_decode_at :: "staking_library \<Rightarrow> state_key \<Rightarrow> bytes \<Rightarrow> record_codec_error + staking_current" where
  "pending_decode_at lib = decode_at_key RcKeyMismatch (\<lambda>r. pending_key (sc_account_id r)) (pending_decode lib)"

definition pending_apply ::
  "decimal \<Rightarrow> flow \<Rightarrow> string \<Rightarrow> block_height \<Rightarrow> staking_current \<Rightarrow> reducer_error + staking_current" where
  "pending_apply = apply_flow (from_static ''staking_state.insufficient_pending'' ''staking pending debit exceeds credits'')"

section \<open>Delegated stake\<close>

definition delegation_key :: "address \<Rightarrow> string \<Rightarrow> record_codec_error + state_key" where
  "delegation_key account_id validator =
     framed_key ''staking-delegation-current.v1'' [account_id, str_bytes validator]"

definition delegation_empty ::
  "address \<Rightarrow> string \<Rightarrow> decimal \<Rightarrow> canonical_event \<Rightarrow> reducer_error + staking_delegation_current" where
  "delegation_empty account_id validator amount event =
     rbind (zero_of amount) (\<lambda>zero.
     Inr \<lparr>sc_account_id = account_id, sc_credits = zero, sc_debits = zero,
          sc_last_event_id = e_event_id event, sc_last_block_height = e_block_height event,
          sc_validator = validator\<rparr>)"

definition delegation_encode ::
  "staking_library \<Rightarrow> staking_delegation_current \<Rightarrow> record_codec_error + bytes" where
  "delegation_encode lib r =
     encode_json (delegation_json lib)
       \<lparr>dw_schema = ''hyperliquid-alpha-desk/staking-delegation-current/v1'',
        dw_account_id = to_api_string (lib_hex_encode lib) (sc_account_id r), dw_validator = sc_validator r,
        dw_credits = decimal_display (sc_credits r), dw_debits = decimal_display (sc_debits r),
        dw_last_event_id = sc_last_event_id r, dw_last_block_height = sc_last_block_height r\<rparr>"

definition delegation_decode ::
  "staking_library \<Rightarrow> bytes \<Rightarrow> record_codec_error + staking_delegation_current" where
  "delegation_decode lib b =
     rbind (decode_json (delegation_json lib) b) (\<lambda>w.
     if dw_schema w \<noteq> ''hyperliquid-alpha-desk/staking-delegation-current/v1'' then Inl RcInvalidRecord
     else
       rbind (map_err (\<lambda>_. RcInvalidRecord) (parse_api (lib_hex_decode lib) (dw_account_id w))) (\<lambda>account_id.
       rbind (map_err (\<lambda>_. RcInvalidRecord) (decimal_from_str (dw_credits w))) (\<lambda>credits.
       rbind (map_err (\<lambda>_. RcInvalidRecord) (decimal_from_str (dw_debits w))) (\<lambda>debits.
       rbind (map_err (\<lambda>_. RcInvalidRecord) (string_id_new (dw_last_event_id w))) (\<lambda>last_event_id.
       let r = \<lparr>sc_account_id = account_id, sc_credits = credits, sc_debits = debits,
                sc_last_event_id = last_event_id, sc_last_block_height = dw_last_block_height w,
                sc_validator = dw_validator w\<rparr>
       in if sc_validator r = [] then Inl RcInvalidRecord
          else rbind (delegation_encode lib r) (\<lambda>again.
               if again \<noteq> b then Inl RcInvalidRecord else Inr r))))))"

definition delegation_decode_at ::
  "staking_library \<Rightarrow> state_key \<Rightarrow> bytes \<Rightarrow> record_codec_error + staking_delegation_current" where
  "delegation_decode_at lib =
     decode_at_key RcKeyMismatch (\<lambda>r. delegation_key (sc_account_id r) (sc_validator r)) (delegation_decode lib)"

definition delegation_apply ::
  "decimal \<Rightarrow> flow \<Rightarrow> string \<Rightarrow> block_height \<Rightarrow> staking_delegation_current
     \<Rightarrow> reducer_error + staking_delegation_current" where
  "delegation_apply =
     apply_flow (from_static ''staking_state.insufficient_delegation'' ''undelegate exceeds delegated credits'')"

section \<open>The mutations of an event\<close>

text \<open>Read the record under a key or begin a new one, apply the flow, write the record back.\<close>

definition flow_mutation ::
  "state_entries \<Rightarrow> (record_codec_error + state_key) \<Rightarrow> (state_key \<Rightarrow> bytes \<Rightarrow> record_codec_error + 'r)
     \<Rightarrow> (reducer_error + 'r) \<Rightarrow> ('r \<Rightarrow> reducer_error + 'r) \<Rightarrow> ('r \<Rightarrow> record_codec_error + bytes)
     \<Rightarrow> reducer_error + state_mutation" where
  "flow_mutation s state_key decode_at fresh app encode =
     rbind (map_err staking_codec_error state_key) (\<lambda>key.
     rbind
       (case bt_get (<) key s of
          Some b \<Rightarrow> map_err staking_codec_error (decode_at key b)
        | None \<Rightarrow> fresh) (\<lambda>current.
     rbind (app current) (\<lambda>r.
     rbind (map_err staking_codec_error (encode r)) (\<lambda>b.
     Inr (Put key b)))))"

definition liquid_mutation ::
  "staking_library \<Rightarrow> state_entries \<Rightarrow> address \<Rightarrow> decimal \<Rightarrow> flow \<Rightarrow> canonical_event
     \<Rightarrow> reducer_error + state_mutation" where
  "liquid_mutation lib s account_id amount side event =
     flow_mutation s (liquid_key account_id) (liquid_decode_at lib)
       (balance_empty account_id amount event)
       (liquid_apply amount side (e_event_id event) (e_block_height event)) (liquid_encode lib)"

definition pending_mutation ::
  "staking_library \<Rightarrow> state_entries \<Rightarrow> address \<Rightarrow> decimal \<Rightarrow> flow \<Rightarrow> canonical_event
     \<Rightarrow> reducer_error + state_mutation" where
  "pending_mutation lib s account_id amount side event =
     flow_mutation s (pending_key account_id) (pending_decode_at lib)
       (balance_empty account_id amount event)
       (pending_apply amount side (e_event_id event) (e_block_height event)) (pending_encode lib)"

definition delegation_mutation ::
  "staking_library \<Rightarrow> state_entries \<Rightarrow> address \<Rightarrow> string \<Rightarrow> decimal \<Rightarrow> flow \<Rightarrow> canonical_event
     \<Rightarrow> reducer_error + state_mutation" where
  "delegation_mutation lib s account_id validator amount side event =
     flow_mutation s (delegation_key account_id validator) (delegation_decode_at lib)
       (if side = Debit
        then Inl (from_static ''staking_state.missing_delegation'' ''undelegate requires an existing delegation'')
        else delegation_empty account_id validator amount event)
       (delegation_apply amount side (e_event_id event) (e_block_height event)) (delegation_encode lib)"

definition staking_require_account :: "canonical_event \<Rightarrow> address \<Rightarrow> reducer_error + unit" where
  "staking_require_account event account_id =
     (case e_account_ids event of
        [observed] \<Rightarrow>
          if observed = account_id then Inr ()
          else Inl (from_static ''staking_state.identity_mismatch''
                      ''staking envelope account must match the payload user'')
      | _ \<Rightarrow> Inl (from_static ''staking_state.identity_mismatch''
                      ''staking envelope account must match the payload user''))"

text \<open>The fact of an event, written before its balances.\<close>

definition staking_fact_put ::
  "staking_library \<Rightarrow> canonical_event \<Rightarrow> state_key \<Rightarrow> address \<Rightarrow> string option \<Rightarrow> reducer_error + state_mutation" where
  "staking_fact_put lib event fact_key account_id validator =
     rbind (staking_require_account event account_id) (\<lambda>_.
     rbind (staking_fact_from_event event account_id validator) (\<lambda>fact.
     rbind (map_err staking_codec_error (staking_fact_encode lib fact)) (\<lambda>b.
     Inr (Put fact_key b))))"

definition reduce_delegation ::
  "staking_library \<Rightarrow> state_entries \<Rightarrow> canonical_event \<Rightarrow> state_key \<Rightarrow> decoded_staking_delegation \<Rightarrow> bool
     \<Rightarrow> reducer_error + state_mutation list" where
  "reduce_delegation lib s event fact_key decoded delegating =
     (let (liquid_side, delegated_side) = (if delegating then (Debit, Credit) else (Credit, Debit)) in
      rbind (staking_fact_put lib event fact_key (dl_account_id decoded) (Some (dl_validator decoded))) (\<lambda>fact.
      rbind (liquid_mutation lib s (dl_account_id decoded) (dl_amount decoded) liquid_side event) (\<lambda>liquid.
      rbind (delegation_mutation lib s (dl_account_id decoded) (dl_validator decoded) (dl_amount decoded)
               delegated_side event) (\<lambda>delegated.
      Inr [fact, liquid, delegated]))))"

section \<open>The reducer\<close>

definition staking_supports :: "canonical_event \<Rightarrow> bool" where
  "staking_supports event \<longleftrightarrow>
     e_schema_version event = ''1.0.0''
     \<and> payload_kind (e_payload event) \<in> {StakingDeposit, StakingDelegated, StakingUndelegated,
          StakingWithdrawalQueued, StakingWithdrawalCompleted}"

definition staking_reduce ::
  "staking_library \<Rightarrow> state_entries \<Rightarrow> canonical_event \<Rightarrow> apply_context \<Rightarrow> reducer_error + state_mutation list" where
  "staking_reduce lib s event context =
     (if \<not> staking_supports event then Inl staking_unsupported
      else
        rbind (map_err staking_codec_error (staking_fact_key (e_event_id event))) (\<lambda>fact_key.
        if bt_get (<) fact_key s \<noteq> None
        then Inl (from_static ''staking_state.event_identity_collision'' ''staking event identity is already present'')
        else
          (case e_payload event of
             EncodedPayload StakingDeposit payload \<Rightarrow>
               rbind (decode_staking_amount lib StakingDeposit payload) (\<lambda>decoded.
               rbind (staking_fact_put lib event fact_key (da_account_id decoded) None) (\<lambda>fact.
               rbind (liquid_mutation lib s (da_account_id decoded) (da_amount decoded) Credit event) (\<lambda>liquid.
               Inr [fact, liquid])))
           | EncodedPayload StakingDelegated payload \<Rightarrow>
               rbind (decode_staking_delegation lib StakingDelegated payload) (\<lambda>decoded.
               reduce_delegation lib s event fact_key decoded True)
           | EncodedPayload StakingUndelegated payload \<Rightarrow>
               rbind (decode_staking_delegation lib StakingUndelegated payload) (\<lambda>decoded.
               reduce_delegation lib s event fact_key decoded False)
           | EncodedPayload StakingWithdrawalQueued payload \<Rightarrow>
               rbind (decode_staking_amount lib StakingWithdrawalQueued payload) (\<lambda>decoded.
               rbind (staking_fact_put lib event fact_key (da_account_id decoded) None) (\<lambda>fact.
               rbind (liquid_mutation lib s (da_account_id decoded) (da_amount decoded) Debit event) (\<lambda>liquid.
               rbind (pending_mutation lib s (da_account_id decoded) (da_amount decoded) Credit event) (\<lambda>pending.
               Inr [fact, liquid, pending]))))
           | EncodedPayload StakingWithdrawalCompleted payload \<Rightarrow>
               rbind (decode_staking_amount lib StakingWithdrawalCompleted payload) (\<lambda>decoded.
               rbind (staking_fact_put lib event fact_key (da_account_id decoded) None) (\<lambda>fact.
               rbind (pending_mutation lib s (da_account_id decoded) (da_amount decoded) Debit event) (\<lambda>pending.
               Inr [fact, pending])))
           | _ \<Rightarrow> Inl staking_unsupported)))"

definition staking_reducer :: "staking_library \<Rightarrow> event_reducer" where
  "staking_reducer lib =
     \<lparr>reducer_set_version = STAKING_VERSION, supports = staking_supports, reduce_event = staking_reduce lib,
      validate_block_delta = (\<lambda>final _ ctx. default_validate_block final ctx)\<rparr>"

section \<open>The records as stored\<close>

definition balance_storable :: "'a staking_current_scheme \<Rightarrow> bool" where
  "balance_storable r \<longleftrightarrow> length (sc_account_id r) = 20 \<and> decimal_ok (sc_credits r) \<and> decimal_ok (sc_debits r)
     \<and> id_ok (sc_last_event_id r)"

lemma staking_hex: "staking_library_ok lib \<Longrightarrow> hex_law (lib_hex_encode lib) (lib_hex_decode lib)"
  by (simp add: staking_library_ok_def payload_library_ok_def)

lemma balance_decode_encode:
  assumes "staking_library_ok lib" and "balance_storable r" and "encode_balance lib schema r = Inr b"
  shows "decode_balance lib b schema = Inr r"
proof -
  have self: "\<lparr>sc_account_id = sc_account_id r, sc_credits = sc_credits r, sc_debits = sc_debits r,
      sc_last_event_id = sc_last_event_id r, sc_last_block_height = sc_last_block_height r\<rparr> = r" by simp
  have "json_law (balance_json lib)" using assms(1) by (simp add: staking_library_ok_def)
  from json_decode_encode [OF this assms(3) [unfolded encode_balance_def]]
  show ?thesis using assms(2,3)
    by (simp add: decode_balance_def parse_api_to_api_string [OF staking_hex [OF assms(1)]] balance_storable_def self)
qed

lemma balance_encode_decode: "decode_balance lib b schema = Inr r \<Longrightarrow> encode_balance lib schema r = Inr b"
  by (auto simp: decode_balance_def result_simps Let_def split: if_splits)

lemma parse_api_length: "staking_library_ok lib \<Longrightarrow> parse_api (lib_hex_decode lib) s = Inr a \<Longrightarrow> length a = 20"
  by (auto simp: parse_api_def result_simps staking_library_ok_def payload_library_ok_def split: if_splits)

lemma balance_decode_storable:
  "staking_library_ok lib \<Longrightarrow> decode_balance lib b schema = Inr r \<Longrightarrow> balance_storable r"
  by (auto simp: decode_balance_def result_simps Let_def balance_storable_def id_ok_def
      intro: decimal_from_str_ok parse_api_length split: if_splits)

lemma delegation_decode_encode:
  assumes "staking_library_ok lib" and "balance_storable r" and "sc_validator r \<noteq> []" and "delegation_encode lib r = Inr b"
  shows "delegation_decode lib b = Inr r"
proof -
  have self: "\<lparr>sc_account_id = sc_account_id r, sc_credits = sc_credits r, sc_debits = sc_debits r,
      sc_last_event_id = sc_last_event_id r, sc_last_block_height = sc_last_block_height r,
      sc_validator = sc_validator r\<rparr> = r" by simp
  have "json_law (delegation_json lib)" using assms(1) by (simp add: staking_library_ok_def)
  from json_decode_encode [OF this assms(4) [unfolded delegation_encode_def]]
  show ?thesis using assms(2-)
    by (simp add: delegation_decode_def parse_api_to_api_string [OF staking_hex [OF assms(1)]] balance_storable_def self)
qed

lemma delegation_encode_decode: "delegation_decode lib b = Inr r \<Longrightarrow> delegation_encode lib r = Inr b"
  by (auto simp: delegation_decode_def result_simps Let_def split: if_splits)

lemma delegation_decode_storable:
  "staking_library_ok lib \<Longrightarrow> delegation_decode lib b = Inr r \<Longrightarrow> balance_storable r \<and> sc_validator r \<noteq> []"
  by (auto simp: delegation_decode_def result_simps Let_def balance_storable_def id_ok_def
      intro: decimal_from_str_ok parse_api_length split: if_splits)

interpretation liquid: canonical_record RcKeyMismatch "\<lambda>r. staking_library_ok lib \<and> balance_storable r"
  "\<lambda>r. liquid_key (sc_account_id r)" "liquid_encode lib" "liquid_decode lib" for lib
  by unfold_locales (auto simp: liquid_encode_def liquid_decode_def intro: balance_decode_encode dest: balance_encode_decode)

interpretation pending: canonical_record RcKeyMismatch "\<lambda>r. staking_library_ok lib \<and> balance_storable r"
  "\<lambda>r. pending_key (sc_account_id r)" "pending_encode lib" "pending_decode lib" for lib
  by unfold_locales (auto simp: pending_encode_def pending_decode_def intro: balance_decode_encode dest: balance_encode_decode)

interpretation delegation: canonical_record RcKeyMismatch
  "\<lambda>r. staking_library_ok lib \<and> balance_storable r \<and> sc_validator r \<noteq> []"
  "\<lambda>r. delegation_key (sc_account_id r) (sc_validator r)" "delegation_encode lib" "delegation_decode lib" for lib
  by unfold_locales (auto intro: delegation_decode_encode dest: delegation_encode_decode)

section \<open>Pools and flows\<close>

text \<open>The abstract view: each event moves an amount into or out of pools of stake.\<close>

datatype pool = LiquidOf address | PendingOf address | DelegatedTo address string

fun pool_key :: "pool \<Rightarrow> record_codec_error + state_key" where
  "pool_key (LiquidOf a) = liquid_key a"
| "pool_key (PendingOf a) = pending_key a"
| "pool_key (DelegatedTo a v) = delegation_key a v"

fun pool_read :: "staking_library \<Rightarrow> pool \<Rightarrow> state_key \<Rightarrow> bytes \<Rightarrow> record_codec_error + staking_current" where
  "pool_read lib (LiquidOf _) k b = liquid_decode_at lib k b"
| "pool_read lib (PendingOf _) k b = pending_decode_at lib k b"
| "pool_read lib (DelegatedTo _ _) k b = rmap staking_current.truncate (delegation_decode_at lib k b)"

definition pool_at :: "staking_library \<Rightarrow> state_entries \<Rightarrow> pool \<Rightarrow> staking_current option" where
  "pool_at lib s p =
     (case pool_key p of
        Inl _ \<Rightarrow> None
      | Inr k \<Rightarrow>
          (case bt_get (<) k s of
             None \<Rightarrow> None
           | Some b \<Rightarrow> (case pool_read lib p k b of Inl _ \<Rightarrow> None | Inr r \<Rightarrow> Some r)))"

fun pool_mutation :: "staking_library \<Rightarrow> state_entries \<Rightarrow> canonical_event \<Rightarrow> pool \<times> flow \<times> decimal
    \<Rightarrow> reducer_error + state_mutation" where
  "pool_mutation lib s e (LiquidOf a, side, q) = liquid_mutation lib s a q side e"
| "pool_mutation lib s e (PendingOf a, side, q) = pending_mutation lib s a q side e"
| "pool_mutation lib s e (DelegatedTo a v, side, q) = delegation_mutation lib s a v q side e"

fun pool_typed :: "pool \<Rightarrow> bool" where
  "pool_typed (LiquidOf a) \<longleftrightarrow> length a = 20"
| "pool_typed (PendingOf a) \<longleftrightarrow> length a = 20"
| "pool_typed (DelegatedTo a v) \<longleftrightarrow> length a = 20 \<and> v \<noteq> []"

lemmas pool_key_defs = liquid_key_def pending_key_def delegation_key_def staking_fact_key_def framed_key_def

fun pool_parts :: "pool \<Rightarrow> string \<times> bytes list" where
  "pool_parts (LiquidOf a) = (''staking-liquid-current.v1'', [a])"
| "pool_parts (PendingOf a) = (''staking-pending-current.v1'', [a])"
| "pool_parts (DelegatedTo a v) = (''staking-delegation-current.v1'', [a, str_bytes v])"

lemma pool_key_parts: "pool_key p = framed_key_or RcInvalidKey (fst (pool_parts p)) (snd (pool_parts p))"
  by (cases p) (simp_all add: pool_key_defs)

lemma pool_key_inject:
  assumes "pool_key p = Inr k" and "pool_key p' = Inr k"
  shows "p = p'"
proof -
  note k = assms [unfolded pool_key_parts]
  have "fst (pool_parts p) = fst (pool_parts p')"
    using framed_key_Inr(1) [OF k(1)] framed_key_Inr(1) [OF k(2)] by simp
  then have "length (snd (pool_parts p)) = length (snd (pool_parts p'))" by (cases p; cases p') simp_all
  then have "pool_parts p = pool_parts p'" using framed_key_inject [OF k] by (simp add: prod_eq_iff)
  then show ?thesis by (cases p; cases p') simp_all
qed

lemma staking_fact_namespace:
  assumes "staking_fact_key i = Inr k"
  shows "sk_namespace k = ''staking-fact.v1''"
  using framed_key_Inr(1) [OF assms [unfolded pool_key_defs]] by simp

lemma pool_key_namespace: "pool_key p = Inr k \<Longrightarrow> sk_namespace k = fst (pool_parts p)"
  using framed_key_Inr(1) [of RcInvalidKey "fst (pool_parts p)" "snd (pool_parts p)" k] by (simp add: pool_key_parts)

lemma fact_key_not_pool: "staking_fact_key i = Inr k \<Longrightarrow> pool_key p \<noteq> Inr k"
  by (cases p) (auto dest!: pool_key_namespace staking_fact_namespace simp del: pool_key.simps)

lemma staking_fact_key_inject:
  assumes "staking_fact_key i = Inr k" and "staking_fact_key j = Inr k"
  shows "i = j"
  using framed_key_inject [OF assms [unfolded pool_key_defs]] by simp

section \<open>One flow\<close>

definition flow_amount :: "flow \<Rightarrow> pool \<Rightarrow> pool \<times> flow \<times> decimal \<Rightarrow> rat" where
  "flow_amount side p x = (case x of (p', side', q) \<Rightarrow> if p' = p \<and> side' = side then dec_value q else 0)"

definition pool_credits :: "staking_library \<Rightarrow> state_entries \<Rightarrow> pool \<Rightarrow> rat" where
  "pool_credits lib s p = (case pool_at lib s p of None \<Rightarrow> 0 | Some r \<Rightarrow> dec_value (sc_credits r))"

definition pool_debits :: "staking_library \<Rightarrow> state_entries \<Rightarrow> pool \<Rightarrow> rat" where
  "pool_debits lib s p = (case pool_at lib s p of None \<Rightarrow> 0 | Some r \<Rightarrow> dec_value (sc_debits r))"

lemma apply_flow_Inr:
  assumes "apply_flow e q side i h r = Inr r'" and "balance_storable r" and "id_ok i"
  shows "balance_storable r'" and "sc_account_id r' = sc_account_id r" and "staking_current.more r' = staking_current.more r"
    and "dec_value (sc_credits r') = dec_value (sc_credits r) + (if side = Credit then dec_value q else 0)"
    and "dec_value (sc_debits r') = dec_value (sc_debits r) + (if side = Debit then dec_value q else 0)"
    and "dec_value (sc_debits r') \<le> dec_value (sc_credits r')"
  using assms
  by (cases side; auto simp: apply_flow_def result_simps checked_add_exact decimal_lt_value balance_storable_def
      decimal_ok_def dec_value_def add_divide_distrib split: if_splits)+

lemma zero_of_Inr: "zero_of q = Inr z \<Longrightarrow> decimal_ok z \<and> dec_value z = 0"
  by (auto simp: zero_of_def result_simps checked_sub_exact decimal_ok_def dec_value_def)

lemma flow_mutation_Inr:
  assumes "flow_mutation s key dec fresh app enc = Inr m"
  obtains k c r b where "key = Inr k" and "m = Put k b" and "app c = Inr r" and "enc r = Inr b"
    and "case bt_get (<) k s of Some x \<Rightarrow> dec k x = Inr c | None \<Rightarrow> fresh = Inr c"
  using assms by (cases key) (auto simp: flow_mutation_def result_simps split: option.splits)

text \<open>What a mutation of a pool writes, given what is stored.\<close>

definition pool_written ::
  "staking_library \<Rightarrow> state_entries \<Rightarrow> pool \<times> flow \<times> decimal \<Rightarrow> state_mutation \<Rightarrow> bool" where
  "pool_written lib s x m \<longleftrightarrow>
     (\<exists>k b r. pool_key (fst x) = Inr k \<and> m = Put k b \<and> pool_read lib (fst x) k b = Inr r
        \<and> dec_value (sc_credits r) = pool_credits lib s (fst x) + flow_amount Credit (fst x) x
        \<and> dec_value (sc_debits r) = pool_debits lib s (fst x) + flow_amount Debit (fst x) x
        \<and> dec_value (sc_debits r) \<le> dec_value (sc_credits r))"

lemma balance_written:
  assumes lib: "staking_library_ok lib" and e: "event_typed e" and a: "length a = 20"
    and m: "flow_mutation s (pool_key (P a)) (decode_at_key RcKeyMismatch (\<lambda>r. pool_key (P (sc_account_id r))) (\<lambda>b. decode_balance lib b schema))
      (balance_empty a q e) (apply_flow insufficient q side (e_event_id e) (e_block_height e)) (encode_balance lib schema) = Inr m"
    and P: "\<And>x y. P x = P y \<Longrightarrow> x = y"
    and read: "\<And>k b. pool_read lib (P a) k b =
      decode_at_key RcKeyMismatch (\<lambda>r. pool_key (P (sc_account_id r))) (\<lambda>b. decode_balance lib b schema) k b"
  shows "pool_written lib s (P a, side, q) m"
  using m
proof (cases rule: flow_mutation_Inr)
  case (1 k c r b)
  have id: "id_ok (e_event_id e)" using e by (simp add: event_typed_def)
  have at: "pool_read lib (P a) k x = Inr y \<longleftrightarrow> decode_balance lib x schema = Inr y \<and> pool_key (P (sc_account_id y)) = Inr k" for x y
    by (auto simp: read decode_at_key_def result_simps split: if_splits)
  have c: "balance_storable c \<and> sc_account_id c = a \<and> dec_value (sc_credits c) = pool_credits lib s (P a)
      \<and> dec_value (sc_debits c) = pool_debits lib s (P a)"
  proof (cases "bt_get (<) k s")
    case None
    then show ?thesis using 1(1,5) a id zero_of_Inr
      by (auto simp: balance_empty_def result_simps balance_storable_def pool_credits_def pool_debits_def pool_at_def)
  next
    case (Some x)
    then have d: "pool_read lib (P a) k x = Inr c" using 1(5) by (simp add: read)
    have "sc_account_id c = a" "balance_storable c"
      using d P pool_key_inject [OF _ 1(1)] balance_decode_storable [OF lib] unfolding at by blast+
    then show ?thesis using d Some 1(1) by (simp add: pool_credits_def pool_debits_def pool_at_def)
  qed
  note r = apply_flow_Inr [OF 1(3) conjunct1 [OF c] id]
  have "pool_read lib (P a) k b = Inr r"
    unfolding at using balance_decode_encode [OF lib r(1) 1(4)] r(2) c 1(1) by simp
  then show ?thesis using 1(1,2) r(4-6) c by (auto simp: pool_written_def flow_amount_def)
qed

lemma liquid_written:
  assumes "staking_library_ok lib" and "event_typed e" and "length a = 20" and "liquid_mutation lib s a q side e = Inr m"
  shows "pool_written lib s (LiquidOf a, side, q) m"
  using assms(4)
  by (intro balance_written [OF assms(1-3), where P = LiquidOf
        and schema = "''hyperliquid-alpha-desk/staking-liquid-current/v1''"
        and insufficient = "from_static ''staking_state.insufficient_liquid'' ''staking liquid debit exceeds credits''"])
    (simp_all add: liquid_mutation_def liquid_decode_at_def [abs_def] liquid_decode_def [abs_def] liquid_encode_def [abs_def] liquid_apply_def)

lemma pending_written:
  assumes "staking_library_ok lib" and "event_typed e" and "length a = 20" and "pending_mutation lib s a q side e = Inr m"
  shows "pool_written lib s (PendingOf a, side, q) m"
  using assms(4)
  by (intro balance_written [OF assms(1-3), where P = PendingOf
        and schema = "''hyperliquid-alpha-desk/staking-pending-current/v1''"
        and insufficient = "from_static ''staking_state.insufficient_pending'' ''staking pending debit exceeds credits''"])
    (simp_all add: pending_mutation_def pending_decode_at_def [abs_def] pending_decode_def [abs_def] pending_encode_def [abs_def] pending_apply_def)

lemma delegation_written:
  assumes lib: "staking_library_ok lib" and e: "event_typed e" and a: "length a = 20" and v: "v \<noteq> []"
    and m: "delegation_mutation lib s a v q side e = Inr m"
  shows "pool_written lib s (DelegatedTo a v, side, q) m"
  using m unfolding delegation_mutation_def
proof (cases rule: flow_mutation_Inr)
  case (1 k c r b)
  have id: "id_ok (e_event_id e)" using e by (simp add: event_typed_def)
  have c: "balance_storable c \<and> sc_account_id c = a \<and> sc_validator c = v
      \<and> dec_value (sc_credits c) = pool_credits lib s (DelegatedTo a v)
      \<and> dec_value (sc_debits c) = pool_debits lib s (DelegatedTo a v)"
  proof (cases "bt_get (<) k s")
    case None
    then show ?thesis using 1(1,5) a id zero_of_Inr
      by (auto simp: delegation_empty_def result_simps balance_storable_def pool_credits_def pool_debits_def pool_at_def
          split: if_splits)
  next
    case (Some x)
    then have d: "delegation_decode_at lib k x = Inr c" using 1(5) by simp
    then have x: "delegation_decode lib x = Inr c" "delegation_key (sc_account_id c) (sc_validator c) = Inr k"
      by (simp_all add: delegation_decode_at_def delegation.decode_at_Inr)
    have "DelegatedTo (sc_account_id c) (sc_validator c) = DelegatedTo a v"
      using x(2) 1(1) by (intro pool_key_inject [of _ k]) simp_all
    then show ?thesis using x(1) d Some 1(1) delegation_decode_storable [OF lib]
      by (auto simp: pool_credits_def pool_debits_def pool_at_def staking_current.defs)
  qed
  note r = apply_flow_Inr [OF 1(3) [unfolded delegation_apply_def] conjunct1 [OF c] id]
  have "sc_validator r = sc_validator c" using r(3) by (cases r; cases c) simp
  then have "delegation_decode_at lib k b = Inr r"
    unfolding delegation_decode_at_def using delegation.decode_at_encode [of lib r b k] lib r(1,2) 1 c v by simp
  then show ?thesis using 1(1,2) r(4-6) c by (auto simp: pool_written_def flow_amount_def staking_current.defs)
qed

section \<open>The flows of an event\<close>

definition event_flows :: "staking_library \<Rightarrow> canonical_event \<Rightarrow> (pool \<times> flow \<times> decimal) list" where
  "event_flows lib e =
     (case e_payload e of
        EncodedPayload k b \<Rightarrow>
          if k \<in> {StakingDelegated, StakingUndelegated}
          then (case decode_staking_delegation lib k b of
                  Inl _ \<Rightarrow> []
                | Inr d \<Rightarrow>
                    let (out_side, in_side) = (if k = StakingDelegated then (Debit, Credit) else (Credit, Debit))
                    in [(LiquidOf (dl_account_id d), out_side, dl_amount d),
                        (DelegatedTo (dl_account_id d) (dl_validator d), in_side, dl_amount d)])
          else (case decode_staking_amount lib k b of
                  Inl _ \<Rightarrow> []
                | Inr d \<Rightarrow>
                    if k = StakingDeposit then [(LiquidOf (da_account_id d), Credit, da_amount d)]
                    else if k = StakingWithdrawalQueued
                    then [(LiquidOf (da_account_id d), Debit, da_amount d), (PendingOf (da_account_id d), Credit, da_amount d)]
                    else if k = StakingWithdrawalCompleted then [(PendingOf (da_account_id d), Debit, da_amount d)]
                    else [])
      | _ \<Rightarrow> [])"

lemma event_flows_typed:
  assumes "staking_library_ok lib" and "x \<in> set (event_flows lib e)"
  shows "pool_typed (fst x)"
proof -
  have ok: "payload_library_ok lib" using assms(1) by (simp add: staking_library_ok_def)
  obtain k b where e: "e_payload e = EncodedPayload k b"
    using assms(2) by (cases "e_payload e") (simp_all add: event_flows_def)
  show ?thesis
  proof (cases "k \<in> {StakingDelegated, StakingUndelegated}")
    case True
    then obtain d where "decode_staking_delegation lib k b = Inr d"
      using assms(2) by (cases "decode_staking_delegation lib k b") (auto simp: event_flows_def e)
    then show ?thesis using decode_staking_delegation_ok [OF ok, of k b d] assms(2) True
      by (auto simp: event_flows_def e id_ok_def)
  next
    case False
    then obtain d where "decode_staking_amount lib k b = Inr d"
      using assms(2) by (cases "decode_staking_amount lib k b") (auto simp: event_flows_def e)
    then show ?thesis using decode_staking_amount_ok [OF ok, of k b d] assms(2) False
      by (auto simp: event_flows_def e split: if_splits)
  qed
qed

lemma event_flows_distinct: "distinct (map fst (event_flows lib e))"
  by (auto simp: event_flows_def Let_def split: event_payload.splits sum.splits)

lemma staking_fact_put_Inr: "staking_fact_put lib e k a v = Inr m \<Longrightarrow> \<exists>b. m = Put k b"
  by (auto simp: staking_fact_put_def result_simps)

lemma staking_reduce_Inr:
  assumes "staking_reduce lib s e ctx = Inr ms"
  shows "\<exists>fk fb ps. staking_fact_key (e_event_id e) = Inr fk \<and> bt_get (<) fk s = None \<and> ms = Put fk fb # ps
    \<and> list_all2 (\<lambda>x m. pool_mutation lib s e x = Inr m) (event_flows lib e) ps"
proof -
  obtain fk where sup: "staking_supports e" and fk: "staking_fact_key (e_event_id e) = Inr fk" "bt_get (<) fk s = None"
    using assms by (auto simp: staking_reduce_def result_simps split: if_splits)
  obtain k b where e: "e_payload e = EncodedPayload k b"
      and k: "k \<in> {StakingDeposit, StakingDelegated, StakingUndelegated, StakingWithdrawalQueued, StakingWithdrawalCompleted}"
    using sup by (cases "e_payload e") (auto simp: staking_supports_def)
  have "\<exists>fb ps. ms = Put fk fb # ps \<and> list_all2 (\<lambda>x m. pool_mutation lib s e x = Inr m) (event_flows lib e) ps"
    using k assms sup fk
    by (auto simp: staking_reduce_def e event_flows_def reduce_delegation_def result_simps dest!: staking_fact_put_Inr)
  then show ?thesis using fk by blast
qed

lemma pool_mutation_written:
  assumes "staking_library_ok lib" and "event_typed e" and "x \<in> set (event_flows lib e)" and "pool_mutation lib s e x = Inr m"
  shows "pool_written lib s x m"
proof -
  obtain p side q where x: "x = (p, side, q)" by (cases x)
  have t: "pool_typed p" using event_flows_typed [OF assms(1,3)] x by simp
  show ?thesis
    using assms(4) t liquid_written [OF assms(1,2)] pending_written [OF assms(1,2)] delegation_written [OF assms(1,2)]
    by (cases p) (auto simp: x)
qed

section \<open>The invariant of a run\<close>

definition flows :: "staking_library \<Rightarrow> canonical_event list \<Rightarrow> (pool \<times> flow \<times> decimal) list" where
  "flows lib es = concat (map (event_flows lib) es)"

definition total_flow :: "flow \<Rightarrow> pool \<Rightarrow> (pool \<times> flow \<times> decimal) list \<Rightarrow> rat" where
  "total_flow side p fs = sum_list (map (flow_amount side p) fs)"

lemma total_flow_append [simp]: "total_flow side p (fs @ gs) = total_flow side p fs + total_flow side p gs"
  by (simp add: total_flow_def)

lemma flows_append [simp]: "flows lib (es @ [e]) = flows lib es @ event_flows lib e"
  by (simp add: flows_def)

lemma total_flow_absent: "p \<notin> fst ` set fs \<Longrightarrow> total_flow side p fs = 0"
  by (induction fs) (auto simp: total_flow_def flow_amount_def)

lemma total_flow_single:
  "distinct (map fst fs) \<Longrightarrow> x \<in> set fs \<Longrightarrow> total_flow side (fst x) fs = flow_amount side (fst x) x"
proof (induction fs)
  case (Cons y fs)
  show ?case
  proof (cases "x = y")
    case True
    then show ?thesis using Cons.prems(1) total_flow_absent [of "fst x" fs] by (simp add: total_flow_def)
  next
    case False
    then have "fst y \<noteq> fst x" using Cons.prems by force
    then show ?thesis using Cons False by (auto simp: total_flow_def flow_amount_def split_def)
  qed
qed simp

definition staking_inv :: "staking_library \<Rightarrow> canonical_event list \<Rightarrow> state_entries \<Rightarrow> bool" where
  "staking_inv lib es s \<longleftrightarrow>
     (\<forall>p. pool_credits lib s p = total_flow Credit p (flows lib es) \<and> pool_debits lib s p = total_flow Debit p (flows lib es)
        \<and> pool_debits lib s p \<le> pool_credits lib s p)
     \<and> (\<forall>p k b. pool_key p = Inr k \<and> bt_get (<) k s = Some b \<longrightarrow> is_ok (pool_read lib p k b))
     \<and> distinct (map e_event_id es)
     \<and> (\<forall>e \<in> set es. \<exists>k. staking_fact_key (e_event_id e) = Inr k \<and> bt_get (<) k s \<noteq> None)"

lemma list_all2_partner:
  "list_all2 P xs ys \<Longrightarrow> y \<in> set ys \<Longrightarrow> \<exists>x \<in> set xs. P x y" "list_all2 P xs ys \<Longrightarrow> x \<in> set xs \<Longrightarrow> \<exists>y \<in> set ys. P x y"
  by (induction rule: list_all2_induct) auto

lemma pool_at_other:
  assumes "bt_sorted (<) s" and "\<And>k. pool_key p = Inr k \<Longrightarrow> k \<notin> mutation_key ` set ms"
  shows "pool_at lib (mutate_all ms s) p = pool_at lib s p"
  using assms by (cases "pool_key p") (simp_all add: pool_at_def bt_get_mutate_all_other)

lemma pool_at_written:
  assumes "bt_sorted (<) s" and "distinct (map mutation_key ms)" and "Put k b \<in> set ms" and "pool_key p = Inr k"
    and "pool_read lib p k b = Inr r"
  shows "pool_at lib (mutate_all ms s) p = Some r"
  using bt_get_mutate_all [OF assms(1-3)] assms(4,5) by (simp add: pool_at_def)

lemma staking_reduce_written:
  assumes lib: "staking_library_ok lib" and e: "event_typed e" and red: "staking_reduce lib s e ctx = Inr ms"
  obtains fk fb ps where "staking_fact_key (e_event_id e) = Inr fk" "ms = Put fk fb # ps"
    "list_all2 (pool_written lib s) (event_flows lib e) ps"
proof -
  obtain fk fb ps where fk: "staking_fact_key (e_event_id e) = Inr fk" and ms: "ms = Put fk fb # ps"
      and ps: "list_all2 (\<lambda>x m. pool_mutation lib s e x = Inr m) (event_flows lib e) ps"
    using staking_reduce_Inr [OF red] by blast
  have "list_all2 (pool_written lib s) (event_flows lib e) ps"
    using ps pool_mutation_written [OF lib e] by (auto intro: list.rel_mono_strong)
  with fk ms show thesis by (rule that)
qed

lemma staking_writes_absent:
  assumes lib: "staking_library_ok lib" and e: "event_typed e" and red: "staking_reduce lib s e ctx = Inr ms"
    and np: "p \<notin> fst ` set (event_flows lib e)" and pk: "pool_key p = Inr k"
  shows "k \<notin> mutation_key ` set ms"
proof
  obtain fk fb ps where fk: "staking_fact_key (e_event_id e) = Inr fk" and ms: "ms = Put fk fb # ps"
      and w: "list_all2 (pool_written lib s) (event_flows lib e) ps"
    using lib e red by (rule staking_reduce_written)
  assume "k \<in> mutation_key ` set ms"
  then obtain m where m: "m \<in> set ps" "mutation_key m = k"
    using pk fact_key_not_pool [OF fk, of p] by (auto simp: ms)
  then obtain x where x: "x \<in> set (event_flows lib e)" "pool_written lib s x m"
    using list_all2_partner(1) [OF w] by blast
  then have "pool_key (fst x) = Inr k" using m(2) unfolding pool_written_def by auto
  then have "fst x = p" using pk pool_key_inject by blast
  then show False using x(1) np by blast
qed

lemma staking_writes_present:
  assumes lib: "staking_library_ok lib" and e: "event_typed e" and red: "staking_reduce lib s e ctx = Inr ms"
    and ip: "p \<in> fst ` set (event_flows lib e)"
  shows "\<exists>k b r. pool_key p = Inr k \<and> Put k b \<in> set ms \<and> pool_read lib p k b = Inr r
      \<and> dec_value (sc_credits r) = pool_credits lib s p + total_flow Credit p (event_flows lib e)
      \<and> dec_value (sc_debits r) = pool_debits lib s p + total_flow Debit p (event_flows lib e)
      \<and> dec_value (sc_debits r) \<le> dec_value (sc_credits r)"
proof -
  obtain fk fb ps where ms: "ms = Put fk fb # ps" and w: "list_all2 (pool_written lib s) (event_flows lib e) ps"
    using lib e red by (rule staking_reduce_written)
  obtain x where x: "x \<in> set (event_flows lib e)" "p = fst x" using ip by blast
  then obtain m where "m \<in> set ps" "pool_written lib s x m" using list_all2_partner(2) [OF w] by blast
  then show ?thesis using total_flow_single [OF event_flows_distinct x(1)] unfolding pool_written_def ms x(2) by auto
qed

lemma staking_writes:
  assumes lib: "staking_library_ok lib" and s: "bt_sorted (<) s" and e: "event_typed e" and red: "staking_reduce lib s e ctx = Inr ms"
    and d: "distinct (map mutation_key ms)" and le: "pool_debits lib s p \<le> pool_credits lib s p"
  shows "pool_credits lib (mutate_all ms s) p = pool_credits lib s p + total_flow Credit p (event_flows lib e)"
    and "pool_debits lib (mutate_all ms s) p = pool_debits lib s p + total_flow Debit p (event_flows lib e)"
    and "pool_debits lib (mutate_all ms s) p \<le> pool_credits lib (mutate_all ms s) p"
    and "pool_key p = Inr k \<Longrightarrow> bt_get (<) k (mutate_all ms s) = Some b
      \<Longrightarrow> (\<And>x. bt_get (<) k s = Some x \<Longrightarrow> is_ok (pool_read lib p k x)) \<Longrightarrow> is_ok (pool_read lib p k b)"
proof -
  note none = staking_writes_absent [OF lib e red] and here = staking_writes_present [OF lib e red]
  show "pool_credits lib (mutate_all ms s) p = pool_credits lib s p + total_flow Credit p (event_flows lib e)" (is ?credits)
    and "pool_debits lib (mutate_all ms s) p = pool_debits lib s p + total_flow Debit p (event_flows lib e)" (is ?debits)
    and "pool_debits lib (mutate_all ms s) p \<le> pool_credits lib (mutate_all ms s) p" (is ?le)
  proof -
    have "?credits \<and> ?debits \<and> ?le"
    proof (cases "p \<in> fst ` set (event_flows lib e)")
      case True
      then show ?thesis using here pool_at_written [OF s d]
        unfolding pool_credits_def [of lib "mutate_all ms s"] pool_debits_def [of lib "mutate_all ms s"] by fastforce
    next
      case False
      then show ?thesis using le pool_at_other [OF s none] total_flow_absent
        by (simp add: pool_credits_def pool_debits_def)
    qed
    then show ?credits ?debits ?le by blast+
  qed
  show "is_ok (pool_read lib p k b)" if pk: "pool_key p = Inr k" and kb: "bt_get (<) k (mutate_all ms s) = Some b"
    and old: "\<And>x. bt_get (<) k s = Some x \<Longrightarrow> is_ok (pool_read lib p k x)"
  proof (cases "p \<in> fst ` set (event_flows lib e)")
    case True
    then obtain c r where "Put k c \<in> set ms" "pool_read lib p k c = Inr r" using here pk by fastforce
    then show ?thesis using bt_get_mutate_all [OF s d, of "Put k c"] kb by (simp add: is_ok_iff)
  next
    case False
    then show ?thesis using pk kb old none bt_get_mutate_all_other [OF s] by metis
  qed
qed

lemma flow_mutation_value: "flow_mutation s key dec fresh app enc = Inr m \<Longrightarrow> mutation_value m \<noteq> None"
  by (erule flow_mutation_Inr) simp

lemma pool_mutation_value:
  assumes "pool_mutation lib s e x = Inr m"
  shows "mutation_value m \<noteq> None"
proof -
  obtain p side q where x: "x = (p, side, q)" by (cases x)
  show ?thesis using assms
    by (cases p) (auto simp: x liquid_mutation_def pending_mutation_def delegation_mutation_def dest: flow_mutation_value)
qed

lemma staking_fact_kept:
  assumes "bt_sorted (<) s" and "staking_reduce lib s e ctx = Inr ms" and "distinct (map mutation_key ms)"
    and "bt_get (<) k s \<noteq> None"
  shows "bt_get (<) k (mutate_all ms s) \<noteq> None"
proof (cases "k \<in> mutation_key ` set ms")
  case True
  then obtain m where m: "m \<in> set ms" "k = mutation_key m" by blast
  obtain fk fb ps where ms: "ms = Put fk fb # ps"
      and ps: "list_all2 (\<lambda>x m. pool_mutation lib s e x = Inr m) (event_flows lib e) ps"
    using staking_reduce_Inr [OF assms(2)] by blast
  have "mutation_value m \<noteq> None"
  proof (cases "m \<in> set ps")
    case True
    then obtain x where "pool_mutation lib s e x = Inr m"
      using list_all2_partner(1) [OF ps] by blast
    then show ?thesis by (rule pool_mutation_value)
  qed (use m ms in auto)
  then show ?thesis using bt_get_mutate_all [OF assms(1,3) m(1)] m(2) by simp
qed (use assms bt_get_mutate_all_other in auto)

interpretation staking_run: reducer_history "staking_reducer lib" "\<lambda>e. staking_library_ok lib \<and> event_typed e"
  "staking_inv lib" for lib
proof
  show "staking_inv lib [] []" for lib
    by (simp add: staking_inv_def pool_credits_def pool_debits_def pool_at_def flows_def total_flow_def split: sum.splits)
next
  fix lib es s e ctx ms
  assume inv: "staking_inv lib es s" and s: "bt_sorted (<) s" and t: "staking_library_ok lib \<and> event_typed e"
    and "reduce_event (staking_reducer lib) s e ctx = Inr ms" and d: "distinct (map mutation_key ms)"
  then have red: "staking_reduce lib s e ctx = Inr ms" by (simp add: staking_reducer_def)
  obtain fk fb ps where fk: "staking_fact_key (e_event_id e) = Inr fk" "bt_get (<) fk s = None" "ms = Put fk fb # ps"
    using staking_reduce_Inr [OF red] by blast
  have here: "bt_get (<) fk (mutate_all ms s) = Some fb" using bt_get_mutate_all [OF s d, of "Put fk fb"] fk(3) by simp
  have new: "e_event_id e \<notin> e_event_id ` set es" using inv fk(1,2) unfolding staking_inv_def by fastforce
  have le: "pool_debits lib s p \<le> pool_credits lib s p" for p using inv unfolding staking_inv_def by blast
  note w = staking_writes [OF conjunct1 [OF t] s conjunct2 [OF t] red d le]
  have sums: "pool_credits lib (mutate_all ms s) p = total_flow Credit p (flows lib (es @ [e]))
      \<and> pool_debits lib (mutate_all ms s) p = total_flow Debit p (flows lib (es @ [e]))" for p
    using inv w(1,2) [of p] unfolding staking_inv_def by simp
  have readable: "is_ok (pool_read lib p k b)" if "pool_key p = Inr k" "bt_get (<) k (mutate_all ms s) = Some b" for p k b
    using w(4) [OF that] inv that(1) unfolding staking_inv_def by blast
  have facts: "\<exists>k. staking_fact_key (e_event_id x) = Inr k \<and> bt_get (<) k (mutate_all ms s) \<noteq> None" if x: "x \<in> set (es @ [e])" for x
  proof (cases "x = e")
    case False
    then have "x \<in> set es" using x by simp
    then obtain k where "staking_fact_key (e_event_id x) = Inr k" "bt_get (<) k s \<noteq> None"
      using inv unfolding staking_inv_def by blast
    then show ?thesis using staking_fact_kept [OF s red d] by blast
  qed (use fk(1) here in simp)
  have "distinct (map e_event_id (es @ [e]))" using new inv unfolding staking_inv_def by simp
  then show "staking_inv lib (es @ [e]) (mutate_all ms s)"
    unfolding staking_inv_def using sums w(3) readable facts by blast
qed

section \<open>Stake is conserved\<close>

definition pool_net :: "staking_library \<Rightarrow> state_entries \<Rightarrow> pool \<Rightarrow> rat" where
  "pool_net lib s p = pool_credits lib s p - pool_debits lib s p"

definition net_flow :: "pool \<Rightarrow> (pool \<times> flow \<times> decimal) list \<Rightarrow> rat" where
  "net_flow p fs = total_flow Credit p fs - total_flow Debit p fs"

text \<open>The validators an account delegates to, and what an event brings in from outside or takes out.\<close>

definition validators_of :: "address \<Rightarrow> (pool \<times> flow \<times> decimal) list \<Rightarrow> string set" where
  "validators_of a fs = {v. DelegatedTo a v \<in> fst ` set fs}"

definition external_amount :: "staking_library \<Rightarrow> event_kind \<Rightarrow> address \<Rightarrow> canonical_event \<Rightarrow> rat" where
  "external_amount lib kind a e =
     (case e_payload e of
        EncodedPayload k b \<Rightarrow>
          (if k = kind
           then (case decode_staking_amount lib k b of
                   Inl _ \<Rightarrow> 0
                 | Inr d \<Rightarrow> if da_account_id d = a then dec_value (da_amount d) else 0)
           else 0)
      | _ \<Rightarrow> 0)"

definition external_total :: "staking_library \<Rightarrow> event_kind \<Rightarrow> address \<Rightarrow> canonical_event list \<Rightarrow> rat" where
  "external_total lib kind a es = sum_list (map (external_amount lib kind a) es)"

lemma finite_validators: "finite (validators_of a fs)"
proof -
  have "validators_of a fs \<subseteq> (\<lambda>p. case p of DelegatedTo _ v \<Rightarrow> v | _ \<Rightarrow> []) ` fst ` set fs"
    by (force simp: validators_of_def)
  then show ?thesis by (rule finite_subset) simp
qed

lemma net_flow_simps:
  "net_flow p [] = 0" "net_flow p (x # fs) = flow_amount Credit p x - flow_amount Debit p x + net_flow p fs"
  "net_flow p (fs @ gs) = net_flow p fs + net_flow p gs"
  by (simp_all add: net_flow_def total_flow_def)

lemma event_conserves:
  assumes "finite V" and "validators_of a (event_flows lib e) \<subseteq> V"
  shows "net_flow (LiquidOf a) (event_flows lib e) + net_flow (PendingOf a) (event_flows lib e)
      + (\<Sum>v \<in> V. net_flow (DelegatedTo a v) (event_flows lib e))
    = external_amount lib StakingDeposit a e - external_amount lib StakingWithdrawalCompleted a e"
proof (cases "e_payload e")
  case (EncodedPayload k b)
  note [simp] = net_flow_simps flow_amount_def
  show ?thesis
  proof (cases "k \<in> {StakingDelegated, StakingUndelegated}")
    case True
    then show ?thesis
    proof (cases "decode_staking_delegation lib k b")
      case (Inr d)
      have "DelegatedTo (dl_account_id d) (dl_validator d) \<in> fst ` set (event_flows lib e)"
        using True Inr by (auto simp: event_flows_def EncodedPayload image_iff)
      then have "dl_validator d \<in> V" if "dl_account_id d = a"
        using assms(2) that by (auto simp: validators_of_def)
      then show ?thesis using True Inr assms(1)
        by (auto simp: event_flows_def EncodedPayload external_amount_def sum_negf)
    qed (auto simp: event_flows_def EncodedPayload external_amount_def)
  next
    case False
    then show ?thesis
      by (cases "decode_staking_amount lib k b") (auto simp: event_flows_def EncodedPayload external_amount_def)
  qed
qed (auto simp: event_flows_def external_amount_def net_flow_simps)

lemma flows_conserve:
  assumes "finite V" and "validators_of a (flows lib es) \<subseteq> V"
  shows "net_flow (LiquidOf a) (flows lib es) + net_flow (PendingOf a) (flows lib es)
      + (\<Sum>v \<in> V. net_flow (DelegatedTo a v) (flows lib es))
    = external_total lib StakingDeposit a es - external_total lib StakingWithdrawalCompleted a es"
  using assms(2)
proof (induction es)
  case (Cons e es)
  have f: "flows lib (e # es) = event_flows lib e @ flows lib es" by (simp add: flows_def)
  have v: "validators_of a (event_flows lib e) \<subseteq> V" "validators_of a (flows lib es) \<subseteq> V"
    using Cons.prems by (auto simp: f validators_of_def)
  show ?case using event_conserves [OF assms(1) v(1)] Cons.IH [OF v(2)]
    by (simp add: f net_flow_simps(3) external_total_def sum.distrib)
qed (simp add: flows_def net_flow_simps external_total_def)

section \<open>A run with one deposit\<close>

definition sample_deposit :: canonical_event where
  "sample_deposit = sample_event\<lparr>e_account_ids := [replicate 20 7], e_payload := EncodedPayload StakingDeposit [1]\<rparr>"

definition sample_staking :: staking_library where
  "sample_staking = payload_library.extend sample_payload_library (staking_library.fields
     (sample_table [(\<lparr>sfw_schema = ''hyperliquid-alpha-desk/staking-fact/v1'', sfw_event_id = ''evt_00'',
        sfw_event_kind = kind_wire_name StakingDeposit,
        sfw_account_id = to_api_string sample_hex_encode (replicate 20 7), sfw_validator = None, sfw_block_height = 1,
        sfw_payload_blake3 = sample_hex_encode (replicate 32 1), sfw_rule_version = STAKING_VERSION\<rparr>, [1])])
     (sample_table [(\<lparr>bw_schema = ''hyperliquid-alpha-desk/staking-liquid-current/v1'',
        bw_account_id = to_api_string sample_hex_encode (replicate 20 7), bw_credits = decimal_display \<lparr>raw = 5, scale = 0\<rparr>,
        bw_debits = decimal_display \<lparr>raw = 0, scale = 0\<rparr>, bw_last_event_id = ''evt_00'', bw_last_block_height = 1\<rparr>, [2])])
     (sample_table []))"

lemma sample_staking_ok: "staking_library_ok sample_staking"
  using sample_payload_library_ok
  by (simp add: staking_library_ok_def sample_staking_def payload_library.defs staking_library.defs payload_library_ok_def
      sample_table_law)

lemma sample_deposit_decode:
  "decode_staking_amount sample_staking StakingDeposit [1] = Inr \<lparr>da_account_id = replicate 20 7, da_amount = \<lparr>raw = 5, scale = 0\<rparr>\<rparr>"
proof -
  have "decimal_from_str ''5'' = Inr \<lparr>raw = 5, scale = 0\<rparr>" by (simp add: decimal_eval)
  then show ?thesis
    by (simp add: decode_staking_amount_def decode_string_payload_def unwrap_payload_def sample_staking_def staking_amount_def
        payload_library.defs staking_library.defs sample_payload_library_def parse_account_def
        parse_api_to_api_string [OF sample_hex_law] parse_positive_quantity_def parse_quantity_def)
qed

lemma staking_namespaces_valid: "valid_namespace ''staking-fact.v1''" "valid_namespace ''staking-liquid-current.v1''"
  by code_simp+

definition sample_staking_key :: "string \<Rightarrow> bytes \<Rightarrow> state_key" where
  "sample_staking_key ns i = StateKey ns (frame i)"

lemma sample_deposit_reduce:
  "staking_reduce sample_staking [] sample_deposit ctx =
     Inr [Put (sample_staking_key ''staking-fact.v1'' (str_bytes ''evt_00'')) [1],
          Put (sample_staking_key ''staking-liquid-current.v1'' (replicate 20 7)) [2]]"
proof -
  have e: "e_payload sample_deposit = EncodedPayload StakingDeposit [1]" "e_account_ids sample_deposit = [replicate 20 7]"
    "e_event_id sample_deposit = ''evt_00''" "e_block_height sample_deposit = 1" "e_payload_hash sample_deposit = replicate 32 1"
    "e_schema_version sample_deposit = ''1.0.0''"
    by (simp_all add: sample_deposit_def sample_event_def)
  have k: "staking_fact_key ''evt_00'' = Inr (sample_staking_key ''staking-fact.v1'' (str_bytes ''evt_00''))"
    "liquid_key (replicate 20 7) = Inr (sample_staking_key ''staking-liquid-current.v1'' (replicate 20 7))"
    by (simp_all add: pool_key_defs framed_key_eval staking_namespaces_valid sample_staking_key_def str_bytes_def)
  have f: "staking_fact_put sample_staking sample_deposit fk (replicate 20 7) None = Inr (Put fk [1])" for fk
    by (simp add: staking_fact_put_def staking_require_account_def staking_fact_from_event_def staking_fact_validate_def e
        staking_fact_encode_def encode_json_def encode_bounded_def sample_staking_def payload_library.defs
        staking_library.defs sample_payload_library_def sample_table_def RECORD_BYTES_def)
  have "liquid_mutation sample_staking [] (replicate 20 7) \<lparr>raw = 5, scale = 0\<rparr> Credit sample_deposit =
      Inr (Put (sample_staking_key ''staking-liquid-current.v1'' (replicate 20 7)) [2])"
    by (simp add: liquid_mutation_def flow_mutation_def k balance_empty_def zero_of_def checked_sub_def require_same_scale_def
        to_i128_def from_raw_def validate_scale_def MAX_DECIMAL_SCALE_def liquid_apply_def apply_flow_def checked_add_def
        in_i128_def i128_max_def i128_min_def decimal_lt_value dec_value_def e liquid_encode_def encode_balance_def
        encode_json_def encode_bounded_def sample_staking_def payload_library.defs staking_library.defs
        sample_payload_library_def sample_table_def RECORD_BYTES_def)
  then show ?thesis
    by (simp add: staking_reduce_def staking_supports_def e k sample_deposit_decode f)
qed

lemma sample_deposit_run:
  "\<exists>ms l. ledger_run sample_derive (staking_reducer sample_staking) ledger_limits_production ''c'' 1
     [sample_ledger_block\<lparr>b_events := [sample_deposit]\<rparr>] ms l"
proof -
  have version: "valid_reducer_version STAKING_VERSION" by code_simp
  have sup: "staking_supports sample_deposit" by (simp add: staking_supports_def sample_deposit_def sample_event_def)
  have "\<exists>cs l. ledger_run sample_derive (staking_reducer sample_staking) ledger_limits_production ''c'' 1
     [sample_ledger_block\<lparr>b_events := [sample_deposit]\<rparr>] cs l \<and> si_entries (cl_state l) =
       mutate_all [Put (sample_staking_key ''staking-fact.v1'' (str_bytes ''evt_00'')) [1],
          Put (sample_staking_key ''staking-liquid-current.v1'' (replicate 20 7)) [2]] []"
    by (intro one_event_run)
      (auto simp: staking_reducer_def version sup sample_deposit_reduce small_put_def key_len_def sample_staking_key_def)
  then show ?thesis by blast
qed

lemma sample_deposit_typed:
  "\<forall>e \<in> set (run_events [sample_ledger_block\<lparr>b_events := [sample_deposit]\<rparr>]). event_typed e"
proof -
  have "is_trimmed ''evt_00''" by code_simp
  then show ?thesis by (simp add: run_events_def event_typed_def sample_deposit_def sample_event_def id_ok_def)
qed

lemma sample_deposit_flows:
  "event_flows sample_staking sample_deposit = [(LiquidOf (replicate 20 7), Credit, \<lparr>raw = 5, scale = 0\<rparr>)]"
proof -
  have "e_payload sample_deposit = EncodedPayload StakingDeposit [1]" by (simp add: sample_deposit_def)
  then show ?thesis by (simp add: event_flows_def sample_deposit_decode)
qed

text \<open>
  C13. The stored balances are the sums of the flows. In every run of a ledger with the staking
  reducer, the credits and the debits stored for the liquid stake of an account, its pending
  withdrawals and each of its delegations are exactly the amounts the applied events moved
  into and out of that pool, no pool is overdrawn, every stored record is readable under its
  key, and no event counts twice.
\<close>

theorem staking_balances_are_flows:
  assumes "ledger_run derive (staking_reducer lib) limits chain first bs ms l"
    and "staking_library_ok lib" and "\<forall>e \<in> set (run_events bs). event_typed e"
  shows "pool_credits lib (si_entries (cl_state l)) p = total_flow Credit p (flows lib (run_events bs))
    \<and> pool_debits lib (si_entries (cl_state l)) p = total_flow Debit p (flows lib (run_events bs))
    \<and> pool_debits lib (si_entries (cl_state l)) p \<le> pool_credits lib (si_entries (cl_state l)) p
    \<and> (\<forall>k b. pool_key p = Inr k \<and> bt_get (<) k (si_entries (cl_state l)) = Some b \<longrightarrow> is_ok (pool_read lib p k b))
    \<and> distinct (map e_event_id (run_events bs))"
  using staking_run.inv_run [OF assms(1)] assms(2,3) unfolding staking_inv_def by blast

theorem staking_balances_are_flows_witness:
  "\<exists>ms l. ledger_run sample_derive (staking_reducer sample_staking) ledger_limits_production ''c'' 1
       [sample_ledger_block\<lparr>b_events := [sample_deposit]\<rparr>] ms l
     \<and> pool_credits sample_staking (si_entries (cl_state l)) (LiquidOf (replicate 20 7)) = 5"
proof -
  obtain ms l where run: "ledger_run sample_derive (staking_reducer sample_staking) ledger_limits_production ''c'' 1
     [sample_ledger_block\<lparr>b_events := [sample_deposit]\<rparr>] ms l" using sample_deposit_run by blast
  have "total_flow Credit (LiquidOf (replicate 20 7)) (flows sample_staking [sample_deposit]) = 5"
    by (simp add: flows_def sample_deposit_flows total_flow_def flow_amount_def dec_value_def)
  then show ?thesis
    using staking_balances_are_flows [OF run sample_staking_ok sample_deposit_typed, of "LiquidOf (replicate 20 7)"] run
    by (auto simp: run_events_def)
qed

text \<open>
  C6. Stake is neither created nor lost. In every run of a ledger with the staking reducer,
  what an account holds as liquid stake, as pending withdrawals and with all validators
  together is what it deposited less what its completed withdrawals took out, and none of
  these balances is negative.
\<close>

theorem staking_conserved:
  assumes "ledger_run derive (staking_reducer lib) limits chain first bs ms l"
    and "staking_library_ok lib" and "\<forall>e \<in> set (run_events bs). event_typed e"
  shows "pool_net lib (si_entries (cl_state l)) (LiquidOf a) + pool_net lib (si_entries (cl_state l)) (PendingOf a)
      + (\<Sum>v \<in> validators_of a (flows lib (run_events bs)). pool_net lib (si_entries (cl_state l)) (DelegatedTo a v))
    = external_total lib StakingDeposit a (run_events bs) - external_total lib StakingWithdrawalCompleted a (run_events bs)
    \<and> 0 \<le> pool_net lib (si_entries (cl_state l)) p"
proof -
  have inv: "staking_inv lib (run_events bs) (si_entries (cl_state l))"
    using staking_run.inv_run [OF assms(1)] assms(2,3) by blast
  then have "pool_debits lib (si_entries (cl_state l)) p \<le> pool_credits lib (si_entries (cl_state l)) p"
    unfolding staking_inv_def by blast
  then have pos: "0 \<le> pool_net lib (si_entries (cl_state l)) p" by (simp add: pool_net_def)
  have net: "pool_net lib (si_entries (cl_state l)) x = net_flow x (flows lib (run_events bs))" for x
    using inv by (simp add: staking_inv_def pool_net_def net_flow_def)
  show ?thesis
    using flows_conserve [OF finite_validators order_refl, of a lib "run_events bs"] pos
    by (simp add: net)
qed

theorem staking_conserved_witness:
  "\<exists>ms l. ledger_run sample_derive (staking_reducer sample_staking) ledger_limits_production ''c'' 1
       [sample_ledger_block\<lparr>b_events := [sample_deposit]\<rparr>] ms l
     \<and> pool_net sample_staking (si_entries (cl_state l)) (LiquidOf (replicate 20 7))
       + pool_net sample_staking (si_entries (cl_state l)) (PendingOf (replicate 20 7)) = 5"
proof -
  obtain ms l where run: "ledger_run sample_derive (staking_reducer sample_staking) ledger_limits_production ''c'' 1
     [sample_ledger_block\<lparr>b_events := [sample_deposit]\<rparr>] ms l" using sample_deposit_run by blast
  have p: "e_payload sample_deposit = EncodedPayload StakingDeposit [1]" by (simp add: sample_deposit_def)
  have "validators_of (replicate 20 7) (flows sample_staking [sample_deposit]) = {}"
    by (simp add: validators_of_def flows_def sample_deposit_flows)
  moreover have "external_total sample_staking StakingDeposit (replicate 20 7) [sample_deposit] = 5"
    "external_total sample_staking StakingWithdrawalCompleted (replicate 20 7) [sample_deposit] = 0"
    by (simp_all add: external_total_def external_amount_def p sample_deposit_decode dec_value_def)
  ultimately show ?thesis
    using staking_conserved [OF run sample_staking_ok sample_deposit_typed, of "replicate 20 7"] run
    by (auto simp: run_events_def)
qed

text \<open>
  C40. The number of decimal places of the first flow binds all later ones. A deposit of a valid
  amount whose scale differs from that of the stored liquid record is refused with the
  arithmetic error, whatever the two values are.
\<close>

theorem staking_scale_binds:
  assumes "staking_supports e" and "e_payload e = EncodedPayload StakingDeposit b"
    and "decode_staking_amount lib StakingDeposit b = Inr d" and "staking_fact_key (e_event_id e) = Inr fk"
    and "bt_get (<) fk s = None" and "staking_fact_put lib e fk (da_account_id d) None = Inr m"
    and "pool_at lib s (LiquidOf (da_account_id d)) = Some r" and "scale (da_amount d) \<noteq> scale (sc_credits r)"
  shows "staking_reduce lib s e ctx = Inl staking_arithmetic"
proof -
  obtain k x where k: "liquid_key (da_account_id d) = Inr k" "bt_get (<) k s = Some x" "liquid_decode_at lib k x = Inr r"
    using assms(7) by (auto simp: pool_at_def split: sum.splits option.splits)
  have "liquid_apply (da_amount d) Credit i h r = Inl staking_arithmetic" for i h
    using assms(8) by (simp add: liquid_apply_def apply_flow_def checked_add_def require_same_scale_def)
  then have "liquid_mutation lib s (da_account_id d) (da_amount d) Credit e = Inl staking_arithmetic"
    using k by (simp add: liquid_mutation_def flow_mutation_def)
  then show ?thesis using assms(1-6) by (simp add: staking_reduce_def)
qed

definition sample_fraction :: staking_library where
  "sample_fraction = sample_staking\<lparr>message_account_amount :=
     (\<lambda>_ _. Some \<lparr>ws_account_id = to_api_string sample_hex_encode (replicate 20 7), ws_amount = ''1.5''\<rparr>)\<rparr>"

theorem staking_scale_binds_witness:
  "\<exists>s. s = [(sample_staking_key ''staking-liquid-current.v1'' (replicate 20 7), [2])]
     \<and> decode_staking_amount sample_fraction StakingDeposit [1] = Inr \<lparr>da_account_id = replicate 20 7, da_amount = \<lparr>raw = 15, scale = 1\<rparr>\<rparr>
     \<and> staking_reduce sample_fraction s sample_deposit sample_context = Inl staking_arithmetic"
proof -
  let ?s = "[(sample_staking_key ''staking-liquid-current.v1'' (replicate 20 7), [2 :: u8])]"
  let ?r = "\<lparr>sc_account_id = replicate 20 7, sc_credits = \<lparr>raw = 5, scale = 0\<rparr>, sc_debits = \<lparr>raw = 0, scale = 0\<rparr>,
    sc_last_event_id = ''evt_00'', sc_last_block_height = 1\<rparr>"
  have e: "e_payload sample_deposit = EncodedPayload StakingDeposit [1]" "e_account_ids sample_deposit = [replicate 20 7]"
    "e_event_id sample_deposit = ''evt_00''" "e_block_height sample_deposit = 1" "e_payload_hash sample_deposit = replicate 32 1"
    "e_schema_version sample_deposit = ''1.0.0''"
    by (simp_all add: sample_deposit_def sample_event_def)
  have lib: "staking_library_ok sample_fraction"
    using sample_staking_ok by (simp add: staking_library_ok_def payload_library_ok_def sample_fraction_def)
  have "decimal_from_str ''1.5'' = Inr \<lparr>raw = 15, scale = 1\<rparr>" by (simp add: decimal_eval)
  then have d: "decode_staking_amount sample_fraction StakingDeposit [1] = Inr \<lparr>da_account_id = replicate 20 7, da_amount = \<lparr>raw = 15, scale = 1\<rparr>\<rparr>"
    by (simp add: decode_staking_amount_def decode_string_payload_def unwrap_payload_def sample_fraction_def sample_staking_def
        staking_amount_def payload_library.defs staking_library.defs sample_payload_library_def parse_account_def
        parse_api_to_api_string [OF sample_hex_law] parse_positive_quantity_def parse_quantity_def)
  have k: "staking_fact_key ''evt_00'' = Inr (sample_staking_key ''staking-fact.v1'' (str_bytes ''evt_00''))"
    "liquid_key (replicate 20 7) = Inr (sample_staking_key ''staking-liquid-current.v1'' (replicate 20 7))"
    by (simp_all add: pool_key_defs framed_key_eval staking_namespaces_valid sample_staking_key_def str_bytes_def)
  have f: "staking_fact_put sample_fraction sample_deposit fk (replicate 20 7) None = Inr (Put fk [1])" for fk
    by (simp add: staking_fact_put_def staking_require_account_def staking_fact_from_event_def staking_fact_validate_def e
        staking_fact_encode_def encode_json_def encode_bounded_def sample_fraction_def sample_staking_def payload_library.defs
        staking_library.defs sample_payload_library_def sample_table_def RECORD_BYTES_def)
  have "liquid_encode sample_fraction ?r = Inr [2]"
    by (simp add: liquid_encode_def encode_balance_def encode_json_def encode_bounded_def sample_fraction_def sample_staking_def
        payload_library.defs staking_library.defs sample_payload_library_def sample_table_def RECORD_BYTES_def)
  moreover have "is_trimmed ''evt_00''" by code_simp
  then have "balance_storable ?r"
    by (simp add: balance_storable_def id_ok_def decimal_ok_def in_i128_def i128_max_def i128_min_def MAX_DECIMAL_SCALE_def)
  ultimately have "liquid_decode_at sample_fraction (sample_staking_key ''staking-liquid-current.v1'' (replicate 20 7)) [2] = Inr ?r"
    unfolding liquid_decode_at_def using liquid.decode_at_encode [of sample_fraction ?r] lib k(2) by simp
  then have "pool_at sample_fraction ?s (LiquidOf (replicate 20 7)) = Some ?r" by (simp add: pool_at_def k(2))
  moreover have "staking_supports sample_deposit" by (simp add: staking_supports_def e)
  moreover have "bt_get (<) (sample_staking_key ''staking-fact.v1'' (str_bytes ''evt_00'')) ?s = None"
    by (simp add: bt_get_lin_None_iff sample_staking_key_def)
  ultimately have "staking_reduce sample_fraction ?s sample_deposit sample_context = Inl staking_arithmetic"
    using staking_scale_binds [OF _ e(1) d, of "sample_staking_key ''staking-fact.v1'' (str_bytes ''evt_00'')" ?s _ ?r sample_context]
      k(1) f by (simp add: e(3))
  then show ?thesis using d by blast
qed

end
