(* ===== verification/Validator.thy ===== *)
theory Validator
  imports Opaque_Payload
begin

text \<open>
  The validator reducer, \<^verbatim>\<open>crates/canonical-ledger/src/validator.rs\<close>: the rewards paid to each
  validator, as one record of credits. The stored credits are shown to be the sum of the
  rewards of the applied events.
\<close>

section \<open>Records\<close>

fun validator_codec_error :: "record_codec_error \<Rightarrow> reducer_error" where
  "validator_codec_error RcInvalidKey =
     from_static ''validator_state.codec_invalid_key'' ''validator state key encoding failed''"
| "validator_codec_error RcLimitExceeded =
     from_static ''validator_state.codec_limit_exceeded'' ''validator state record exceeds its deterministic bound''"
| "validator_codec_error _ =
     from_static ''validator_state.codec_failed'' ''validator state record is not canonical''"

record validator_fact_record =
  vf_event_id :: string
  vf_validator :: string
  vf_block_height :: block_height
  vf_payload_hash :: hash

record validator_current_record =
  vc_validator :: string
  vc_credits :: decimal
  vc_last_event_id :: string
  vc_last_block_height :: block_height

record validator_fact_wire =
  vfw_schema :: string
  vfw_event_id :: string
  vfw_validator :: string
  vfw_block_height :: u64
  vfw_payload_blake3 :: string
  vfw_rule_version :: string

record validator_current_wire =
  vcw_schema :: string
  vcw_validator :: string
  vcw_credits :: string
  vcw_last_event_id :: string
  vcw_last_block_height :: u64

record validator_library = payload_library +
  validator_fact_json :: "validator_fact_wire json"
  validator_current_json :: "validator_current_wire json"

definition validator_library_ok :: "validator_library \<Rightarrow> bool" where
  "validator_library_ok lib \<longleftrightarrow> payload_library_ok lib \<and> json_law (validator_fact_json lib)
     \<and> json_law (validator_current_json lib)"

definition validator_fact_key :: "string \<Rightarrow> record_codec_error + state_key" where
  "validator_fact_key event_id = framed_key ''validator-fact.v1'' [str_bytes event_id]"

definition validator_fact_encode :: "validator_library \<Rightarrow> validator_fact_record \<Rightarrow> record_codec_error + bytes" where
  "validator_fact_encode lib r =
     encode_json (validator_fact_json lib)
       \<lparr>vfw_schema = ''hyperliquid-alpha-desk/validator-fact/v1'', vfw_event_id = vf_event_id r,
        vfw_validator = vf_validator r, vfw_block_height = vf_block_height r,
        vfw_payload_blake3 = lib_hex_encode lib (vf_payload_hash r),
        vfw_rule_version = ''hyperliquid-alpha-desk-canonical-validator@1.0.0''\<rparr>"

definition validator_current_key :: "string \<Rightarrow> record_codec_error + state_key" where
  "validator_current_key validator = framed_key ''validator-reward-current.v1'' [str_bytes validator]"

definition validator_current_encode ::
  "validator_library \<Rightarrow> validator_current_record \<Rightarrow> record_codec_error + bytes" where
  "validator_current_encode lib r =
     encode_json (validator_current_json lib)
       \<lparr>vcw_schema = ''hyperliquid-alpha-desk/validator-reward-current/v1'', vcw_validator = vc_validator r,
        vcw_credits = decimal_display (vc_credits r), vcw_last_event_id = vc_last_event_id r,
        vcw_last_block_height = vc_last_block_height r\<rparr>"

definition validator_current_decode ::
  "validator_library \<Rightarrow> bytes \<Rightarrow> record_codec_error + validator_current_record" where
  "validator_current_decode lib b =
     rbind (decode_json (validator_current_json lib) b) (\<lambda>w.
     if vcw_schema w \<noteq> ''hyperliquid-alpha-desk/validator-reward-current/v1'' \<or> vcw_validator w = []
     then Inl RcInvalidRecord
     else
       rbind (map_err (\<lambda>_. RcInvalidRecord) (decimal_from_str (vcw_credits w))) (\<lambda>credits.
       rbind (map_err (\<lambda>_. RcInvalidRecord) (string_id_new (vcw_last_event_id w))) (\<lambda>last_event_id.
       let r = \<lparr>vc_validator = vcw_validator w, vc_credits = credits, vc_last_event_id = last_event_id,
                vc_last_block_height = vcw_last_block_height w\<rparr>
       in rbind (validator_current_encode lib r) (\<lambda>again.
          if again \<noteq> b then Inl RcNonCanonical else Inr r))))"

definition validator_current_decode_at ::
  "validator_library \<Rightarrow> state_key \<Rightarrow> bytes \<Rightarrow> record_codec_error + validator_current_record" where
  "validator_current_decode_at lib =
     decode_at_key RcKeyMismatch (\<lambda>r. validator_current_key (vc_validator r)) (validator_current_decode lib)"

section \<open>The reducer\<close>

definition validator_supports :: "canonical_event \<Rightarrow> bool" where
  "validator_supports event \<longleftrightarrow>
     e_schema_version event = ''1.0.0'' \<and> payload_kind (e_payload event) = ValidatorRewardPaid"

definition validator_next ::
  "validator_library \<Rightarrow> state_entries \<Rightarrow> canonical_event \<Rightarrow> state_key \<Rightarrow> decoded_validator_reward
     \<Rightarrow> reducer_error + validator_current_record" where
  "validator_next lib s event current_key decoded =
     (case bt_get (<) current_key s of
        Some b \<Rightarrow>
          rbind (map_err validator_codec_error (validator_current_decode_at lib current_key b)) (\<lambda>current.
          rbind (map_err (\<lambda>_. from_static ''validator_state.flow_arithmetic'' ''validator reward quantity arithmetic failed'')
                   (checked_add (vc_credits current) (dr_amount decoded))) (\<lambda>credits.
          Inr \<lparr>vc_validator = dr_validator decoded, vc_credits = credits, vc_last_event_id = e_event_id event,
               vc_last_block_height = e_block_height event\<rparr>))
      | None \<Rightarrow>
          Inr \<lparr>vc_validator = dr_validator decoded, vc_credits = dr_amount decoded,
               vc_last_event_id = e_event_id event, vc_last_block_height = e_block_height event\<rparr>)"

definition validator_reduce ::
  "validator_library \<Rightarrow> state_entries \<Rightarrow> canonical_event \<Rightarrow> apply_context \<Rightarrow> reducer_error + state_mutation list" where
  "validator_reduce lib s event context =
     (if \<not> validator_supports event
      then Inl (from_static ''validator_state.unsupported_event'' ''validator reducer received an unsupported event'')
      else if e_account_ids event \<noteq> []
      then Inl (from_static ''validator_state.account_inferred'' ''validator rewards are not account-owned'')
      else
        case e_payload event of
          EncodedPayload ValidatorRewardPaid payload \<Rightarrow>
            rbind (decode_validator_reward lib payload) (\<lambda>decoded.
            rbind (map_err validator_codec_error (validator_fact_key (e_event_id event))) (\<lambda>fact_key.
            if bt_get (<) fact_key s \<noteq> None
            then Inl (from_static ''validator_state.event_identity_collision'' ''validator event identity is already present'')
            else
              rbind (map_err validator_codec_error (validator_current_key (dr_validator decoded))) (\<lambda>current_key.
              rbind (validator_next lib s event current_key decoded) (\<lambda>current.
              rbind (map_err validator_codec_error (validator_fact_encode lib
                       \<lparr>vf_event_id = e_event_id event, vf_validator = dr_validator decoded,
                        vf_block_height = e_block_height event, vf_payload_hash = e_payload_hash event\<rparr>)) (\<lambda>fact_bytes.
              rbind (map_err validator_codec_error (validator_current_encode lib current)) (\<lambda>current_bytes.
              Inr [Put fact_key fact_bytes, Put current_key current_bytes]))))))
        | _ \<Rightarrow> Inl (from_static ''validator_state.unsupported_event'' ''validator reducer received an unsupported event''))"

definition validator_reducer :: "validator_library \<Rightarrow> event_reducer" where
  "validator_reducer lib =
     \<lparr>reducer_set_version = ''hyperliquid-alpha-desk-canonical-validator@1.0.0'', supports = validator_supports,
      reduce_event = validator_reduce lib,
      validate_block_delta = (\<lambda>final _ ctx. default_validate_block final ctx)\<rparr>"

section \<open>The record as stored\<close>

definition validator_storable :: "validator_current_record \<Rightarrow> bool" where
  "validator_storable r \<longleftrightarrow> vc_validator r \<noteq> [] \<and> decimal_ok (vc_credits r) \<and> id_ok (vc_last_event_id r)"

lemma validator_decode_encode:
  assumes "validator_library_ok lib" and "validator_storable r" and "validator_current_encode lib r = Inr b"
  shows "validator_current_decode lib b = Inr r"
proof -
  have self: "\<lparr>vc_validator = vc_validator r, vc_credits = vc_credits r, vc_last_event_id = vc_last_event_id r,
      vc_last_block_height = vc_last_block_height r\<rparr> = r" by simp
  have "json_law (validator_current_json lib)" using assms(1) by (simp add: validator_library_ok_def)
  from json_decode_encode [OF this assms(3) [unfolded validator_current_encode_def]]
  show ?thesis using assms(2,3) by (simp add: validator_current_decode_def validator_storable_def self)
qed

lemma validator_encode_decode: "validator_current_decode lib b = Inr r \<Longrightarrow> validator_current_encode lib r = Inr b"
  by (auto simp: validator_current_decode_def result_simps Let_def split: if_splits)

lemma validator_decode_storable: "validator_current_decode lib b = Inr r \<Longrightarrow> validator_storable r"
  by (auto simp: validator_current_decode_def result_simps Let_def validator_storable_def id_ok_def
      intro: decimal_from_str_ok split: if_splits)

interpretation validator_record: canonical_record RcKeyMismatch "\<lambda>r. validator_library_ok lib \<and> validator_storable r"
  "\<lambda>r. validator_current_key (vc_validator r)" "validator_current_encode lib" "validator_current_decode lib" for lib
  by unfold_locales (auto intro: validator_decode_encode dest: validator_encode_decode)

section \<open>Rewards\<close>

text \<open>The abstract view: what the stored credits of a validator are, and what an event pays it.\<close>

definition validator_at :: "validator_library \<Rightarrow> state_entries \<Rightarrow> string \<Rightarrow> rat" where
  "validator_at lib s v =
     (case validator_current_key v of
        Inl _ \<Rightarrow> 0
      | Inr k \<Rightarrow>
          (case bt_get (<) k s of
             None \<Rightarrow> 0
           | Some b \<Rightarrow> (case validator_current_decode_at lib k b of Inl _ \<Rightarrow> 0 | Inr r \<Rightarrow> dec_value (vc_credits r))))"

definition reward_of :: "validator_library \<Rightarrow> string \<Rightarrow> canonical_event \<Rightarrow> rat" where
  "reward_of lib v e =
     (case e_payload e of
        EncodedPayload k b \<Rightarrow>
          (if k = ValidatorRewardPaid
           then (case decode_validator_reward lib b of
                   Inl _ \<Rightarrow> 0
                 | Inr d \<Rightarrow> if dr_validator d = v then dec_value (dr_amount d) else 0)
           else 0)
      | _ \<Rightarrow> 0)"

definition validator_inv :: "validator_library \<Rightarrow> canonical_event list \<Rightarrow> state_entries \<Rightarrow> bool" where
  "validator_inv lib es s \<longleftrightarrow>
     (\<forall>v. validator_at lib s v = sum_list (map (reward_of lib v) es)) \<and> distinct (map e_event_id es)
     \<and> (\<forall>e \<in> set es. \<exists>k. validator_fact_key (e_event_id e) = Inr k \<and> bt_get (<) k s \<noteq> None)"

lemma validator_key_namespace:
  assumes "validator_current_key v = Inr k"
  shows "sk_namespace k = ''validator-reward-current.v1''"
  using framed_key_Inr(1) [OF assms [unfolded validator_current_key_def framed_key_def]] by simp

lemma validator_fact_namespace:
  assumes "validator_fact_key i = Inr k"
  shows "sk_namespace k = ''validator-fact.v1''"
  using framed_key_Inr(1) [OF assms [unfolded validator_fact_key_def framed_key_def]] by simp

lemma validator_key_inject:
  assumes "validator_current_key v = Inr k" and "validator_current_key w = Inr k"
  shows "v = w"
  using framed_key_inject [OF assms [unfolded validator_current_key_def framed_key_def]] by simp

lemma validator_reduce_Inr:
  assumes "validator_reduce lib s e ctx = Inr ms"
  obtains b d fk fb ck c cb where "e_payload e = EncodedPayload ValidatorRewardPaid b" and "decode_validator_reward lib b = Inr d"
    and "validator_fact_key (e_event_id e) = Inr fk" and "bt_get (<) fk s = None"
    and "validator_current_key (dr_validator d) = Inr ck" and "validator_next lib s e ck d = Inr c"
    and "validator_current_encode lib c = Inr cb" and "ms = [Put fk fb, Put ck cb]"
proof -
  obtain b where e: "e_payload e = EncodedPayload ValidatorRewardPaid b" and sup: "validator_supports e" "e_account_ids e = []"
    using assms by (cases "e_payload e") (auto simp: validator_reduce_def validator_supports_def split: if_splits)
  then show ?thesis using assms that by (auto simp: validator_reduce_def result_simps split: if_splits)
qed

lemma validator_next_Inr:
  assumes "validator_library_ok lib" and "event_typed e" and "decode_validator_reward lib b = Inr d"
    and "validator_current_key (dr_validator d) = Inr k" and "validator_next lib s e k d = Inr c"
  shows "validator_storable c" and "vc_validator c = dr_validator d"
    and "dec_value (vc_credits c) = validator_at lib s (dr_validator d) + dec_value (dr_amount d)"
proof -
  have d: "id_ok (dr_validator d)" "decimal_ok (dr_amount d)" using decode_validator_reward_ok [OF assms(3)] by blast+
  have id: "id_ok (e_event_id e)" using assms(2) by (simp add: event_typed_def)
  have "validator_storable c \<and> vc_validator c = dr_validator d
    \<and> dec_value (vc_credits c) = validator_at lib s (dr_validator d) + dec_value (dr_amount d)"
  proof (cases "bt_get (<) k s")
    case None
    then show ?thesis using assms(4,5) d id
      by (auto simp: validator_next_def validator_storable_def validator_at_def id_ok_def)
  next
    case (Some x)
    then obtain r where r: "validator_current_decode_at lib k x = Inr r" "checked_add (vc_credits r) (dr_amount d) = Inr (vc_credits c)"
        "vc_validator c = dr_validator d" "vc_last_event_id c = e_event_id e"
      using assms(5) by (auto simp: validator_next_def result_simps)
    then show ?thesis using d id Some assms(4)
      by (auto simp: validator_storable_def validator_at_def checked_add_exact decimal_ok_def dec_value_def add_divide_distrib id_ok_def)
  qed
  then show "validator_storable c" "vc_validator c = dr_validator d"
    "dec_value (vc_credits c) = validator_at lib s (dr_validator d) + dec_value (dr_amount d)" by blast+
qed

lemma validator_at_after:
  assumes "bt_sorted (<) s" and "validator_current_key w = Inr ck" and "validator_current_decode_at lib ck cb = Inr c"
    and "sk_namespace fk = ''validator-fact.v1''"
  shows "validator_at lib (mutate_all [Put fk fb, Put ck cb] s) v =
    (if v = w then dec_value (vc_credits c) else validator_at lib s v)"
proof (cases "validator_current_key v")
  case (Inr k)
  have "k \<noteq> fk" using validator_key_namespace [OF Inr] assms(4) by auto
  moreover have "k = ck \<longleftrightarrow> v = w"
  proof
    assume "k = ck"
    then have "validator_current_key v = Inr ck" using Inr by simp
    then show "v = w" using assms(2) by (rule validator_key_inject)
  qed (use Inr assms(2) in simp)
  ultimately show ?thesis using Inr assms
    by (cases "v = w") (simp_all add: validator_at_def lin.bt_get_insert lin.bt_sorted_insert)
next
  case (Inl x)
  then show ?thesis using assms(2) by (auto simp: validator_at_def)
qed

lemma validator_reduce_inv:
  assumes inv: "validator_inv lib es s" and s: "bt_sorted (<) s" and lib: "validator_library_ok lib" and e: "event_typed e"
    and red: "validator_reduce lib s e ctx = Inr ms"
  shows "validator_inv lib (es @ [e]) (mutate_all ms s)"
  using red
proof (cases rule: validator_reduce_Inr)
  case (1 b d fk fb ck c cb)
  note c = validator_next_Inr [OF lib e 1(2,5,6)]
  have ns: "sk_namespace fk = ''validator-fact.v1''" "sk_namespace ck = ''validator-reward-current.v1''"
    using validator_fact_namespace [OF 1(3)] validator_key_namespace [OF 1(5)] by simp_all
  then have ne: "fk \<noteq> ck" by auto
  have "validator_current_decode_at lib ck cb = Inr c"
    unfolding validator_current_decode_at_def
    using validator_record.decode_at_encode [of lib c cb ck] lib c(1,2) 1(5,7) by simp
  note at = validator_at_after [OF s 1(5) this ns(1)]
  have get: "bt_get (<) k (mutate_all ms s) = (if k = ck then Some cb else if k = fk then Some fb else bt_get (<) k s)" for k
    using s by (simp add: 1(8) lin.bt_get_insert lin.bt_sorted_insert)
  have sums: "validator_at lib (mutate_all ms s) v = sum_list (map (reward_of lib v) (es @ [e]))" for v
  proof -
    have "reward_of lib v e = (if dr_validator d = v then dec_value (dr_amount d) else 0)"
      by (simp add: reward_of_def 1(1,2))
    moreover have "validator_at lib s v = sum_list (map (reward_of lib v) es)" using inv by (simp add: validator_inv_def)
    ultimately show ?thesis using at [of fb v] c(3) by (auto simp: 1(8))
  qed
  have new: "e_event_id e \<notin> e_event_id ` set es" using inv 1(3,4) unfolding validator_inv_def by fastforce
  have facts: "\<exists>k. validator_fact_key (e_event_id x) = Inr k \<and> bt_get (<) k (mutate_all ms s) \<noteq> None" if x: "x \<in> set (es @ [e])" for x
  proof (cases "x = e")
    case True
    then show ?thesis using 1(3) get [of fk] ne by auto
  next
    case False
    then have "x \<in> set es" using x by simp
    then obtain k where "validator_fact_key (e_event_id x) = Inr k" "bt_get (<) k s \<noteq> None"
      using inv unfolding validator_inv_def by blast
    then show ?thesis using get [of k] by auto
  qed
  have "distinct (map e_event_id (es @ [e]))" using new inv unfolding validator_inv_def by simp
  then show ?thesis unfolding validator_inv_def using sums facts by blast
qed

interpretation validator_run: reducer_history "validator_reducer lib" "\<lambda>e. validator_library_ok lib \<and> event_typed e"
  "validator_inv lib" for lib
proof
  show "validator_inv lib [] []" for lib by (simp add: validator_inv_def validator_at_def split: sum.splits)
qed (auto simp: validator_reducer_def intro: validator_reduce_inv)

section \<open>A run with one reward\<close>

definition sample_reward :: canonical_event where
  "sample_reward = sample_event\<lparr>e_account_ids := [], e_payload := EncodedPayload ValidatorRewardPaid [2]\<rparr>"

definition sample_validators :: validator_library where
  "sample_validators = payload_library.extend sample_payload_library (validator_library.fields
     (sample_table [(\<lparr>vfw_schema = ''hyperliquid-alpha-desk/validator-fact/v1'', vfw_event_id = ''evt_00'',
        vfw_validator = ''val'', vfw_block_height = 1, vfw_payload_blake3 = sample_hex_encode (replicate 32 1),
        vfw_rule_version = ''hyperliquid-alpha-desk-canonical-validator@1.0.0''\<rparr>, [1])])
     (sample_table [(\<lparr>vcw_schema = ''hyperliquid-alpha-desk/validator-reward-current/v1'', vcw_validator = ''val'',
        vcw_credits = decimal_display \<lparr>raw = 5, scale = 0\<rparr>, vcw_last_event_id = ''evt_00'', vcw_last_block_height = 1\<rparr>, [2])]))"

lemma sample_validators_ok: "validator_library_ok sample_validators"
  using sample_payload_library_ok
  by (simp add: validator_library_ok_def sample_validators_def payload_library.defs validator_library.defs
      payload_library_ok_def sample_table_law)

lemma sample_reward_decode:
  "decode_validator_reward sample_validators [2] = Inr \<lparr>dr_validator = ''val'', dr_amount = \<lparr>raw = 5, scale = 0\<rparr>\<rparr>"
proof -
  have "decimal_from_str ''5'' = Inr \<lparr>raw = 5, scale = 0\<rparr>" by (simp add: decimal_eval)
  moreover have "is_trimmed ''val''" by code_simp
  then have "require_identity ''val'' = Inr ''val''" by (simp add: require_identity_def code_def)
  ultimately show ?thesis
    by (simp add: decode_validator_reward_def decode_string_payload_def unwrap_payload_def sample_validators_def
        payload_library.defs validator_library.defs sample_payload_library_def parse_positive_quantity_def parse_quantity_def)
      (simp add: kind_wire_name_def kind_names_def)
qed

lemma sample_reward_reduce:
  "validator_reduce sample_validators [] sample_reward ctx =
     Inr [Put (StateKey ''validator-fact.v1'' (frame (str_bytes ''evt_00''))) [1],
          Put (StateKey ''validator-reward-current.v1'' (frame (str_bytes ''val''))) [2]]"
proof -
  have e: "e_payload sample_reward = EncodedPayload ValidatorRewardPaid [2]" "e_account_ids sample_reward = []"
    "e_event_id sample_reward = ''evt_00''" "e_block_height sample_reward = 1" "e_payload_hash sample_reward = replicate 32 1"
    "e_schema_version sample_reward = ''1.0.0''"
    by (simp_all add: sample_reward_def sample_event_def)
  have "valid_namespace ''validator-fact.v1''" "valid_namespace ''validator-reward-current.v1''" by code_simp+
  then have k: "validator_fact_key ''evt_00'' = Inr (StateKey ''validator-fact.v1'' (frame (str_bytes ''evt_00'')))"
    "validator_current_key ''val'' = Inr (StateKey ''validator-reward-current.v1'' (frame (str_bytes ''val'')))"
    by (simp_all add: validator_fact_key_def validator_current_key_def framed_key_def framed_key_eval str_bytes_def)
  have "validator_fact_encode sample_validators \<lparr>vf_event_id = ''evt_00'', vf_validator = ''val'', vf_block_height = 1,
      vf_payload_hash = replicate 32 1\<rparr> = Inr [1]"
    "validator_current_encode sample_validators \<lparr>vc_validator = ''val'', vc_credits = \<lparr>raw = 5, scale = 0\<rparr>,
      vc_last_event_id = ''evt_00'', vc_last_block_height = 1\<rparr> = Inr [2]"
    by (simp_all add: validator_fact_encode_def validator_current_encode_def encode_json_def encode_bounded_def sample_validators_def
        payload_library.defs validator_library.defs sample_payload_library_def sample_table_def RECORD_BYTES_def)
  then show ?thesis
    by (simp add: validator_reduce_def validator_supports_def e sample_reward_decode k validator_next_def)
qed

lemma sample_reward_run:
  "\<exists>ms l. ledger_run sample_derive (validator_reducer sample_validators) ledger_limits_production ''c'' 1
     [sample_ledger_block\<lparr>b_events := [sample_reward]\<rparr>] ms l"
proof -
  let ?r = "validator_reducer sample_validators"
  have "valid_reducer_version ''hyperliquid-alpha-desk-canonical-validator@1.0.0''" by code_simp
  then have v: "valid_reducer_version (reducer_set_version ?r)" by (simp add: validator_reducer_def)
  have d: "validate_block_delta ?r = (\<lambda>final _ ctx. default_validate_block final ctx)" by (simp add: validator_reducer_def)
  have s: "supports ?r sample_reward" by (simp add: validator_reducer_def validator_supports_def sample_reward_def sample_event_def)
  have "reduce_event ?r [] sample_reward sample_context =
      Inr [Put (StateKey ''validator-fact.v1'' (frame (str_bytes ''evt_00''))) [1],
           Put (StateKey ''validator-reward-current.v1'' (frame (str_bytes ''val''))) [2]]"
    by (simp add: validator_reducer_def sample_reward_reduce)
  from one_event_run [OF v d s this] show ?thesis by (auto simp: small_put_def key_len_def)
qed

text \<open>
  The stored rewards are the rewards paid. In every run of a ledger with the validator
  reducer the credits stored for a validator are the sum of the rewards the applied events
  paid to it, and no event counts twice.
\<close>

theorem validator_rewards_total:
  assumes "ledger_run derive (validator_reducer lib) limits chain first bs ms l"
    and "validator_library_ok lib" and "\<forall>e \<in> set (run_events bs). event_typed e"
  shows "validator_at lib (si_entries (cl_state l)) v = sum_list (map (reward_of lib v) (run_events bs))
    \<and> distinct (map e_event_id (run_events bs))"
  using validator_run.inv_run [OF assms(1)] assms(2,3) unfolding validator_inv_def by blast

theorem validator_rewards_total_witness:
  "\<exists>ms l. ledger_run sample_derive (validator_reducer sample_validators) ledger_limits_production ''c'' 1
       [sample_ledger_block\<lparr>b_events := [sample_reward]\<rparr>] ms l
     \<and> validator_at sample_validators (si_entries (cl_state l)) ''val'' = 5"
proof -
  obtain ms l where run: "ledger_run sample_derive (validator_reducer sample_validators) ledger_limits_production ''c'' 1
     [sample_ledger_block\<lparr>b_events := [sample_reward]\<rparr>] ms l" using sample_reward_run by blast
  have "is_trimmed ''evt_00''" by code_simp
  then have typed: "\<forall>e \<in> set (run_events [sample_ledger_block\<lparr>b_events := [sample_reward]\<rparr>]). event_typed e"
    by (simp add: run_events_def event_typed_def sample_reward_def sample_event_def id_ok_def)
  have "e_payload sample_reward = EncodedPayload ValidatorRewardPaid [2]" by (simp add: sample_reward_def)
  then have "reward_of sample_validators ''val'' sample_reward = 5"
    by (simp add: reward_of_def sample_reward_decode dec_value_def)
  then show ?thesis using validator_rewards_total [OF run sample_validators_ok typed, of "''val''"] run
    by (auto simp: run_events_def)
qed

end
