(* ===== verification/Composite.thy ===== *)
theory Composite
  imports Order_History Staking Validator
begin

text \<open>
  The production reducer, \<^verbatim>\<open>crates/canonical-ledger/src/composite.rs\<close>: it selects the components
  that own an event, lets each of them reduce it against the same state, and joins their
  mutations when no key is written twice. The components are the children of a
  \<^verbatim>\<open>CanonicalStateReducerV1\<close>; the order, the staking and the validator reducer are the ones
  modelled in this library and the others are arguments. The locale \<open>owned_history\<close> lifts what one component
  keeps along its own runs to the runs of the whole reducer.
\<close>

section \<open>Components and owners\<close>

datatype component =
    CMarket | COrder | CTradeV1 | CTradeV2 | CAccount | CPositionQuantity | CPositionEpisode
  | CPositionLiquidation | CTrigger | CTwap | CVault | CStaking | CValidator | CRelationships

definition ALL_COMPONENTS :: "component list" where
  "ALL_COMPONENTS =
     [CMarket, COrder, CTradeV1, CTradeV2, CAccount, CPositionQuantity, CPositionEpisode,
      CPositionLiquidation, CTrigger, CTwap, CVault, CStaking, CValidator, CRelationships]"

definition owners :: "canonical_event \<Rightarrow> component list" where
  "owners event =
     (if e_schema_version event \<noteq> ''1.0.0'' then []
      else
        let kind = payload_kind (e_payload event) in
        if kind \<in> {DexCreated, AssetContextUpdated, MarketCreated, MarketMetadataChanged, MarketHalted,
             MarketResumed, OpenInterestCapChanged, MarginTableChanged, OracleUpdated, FundingRateUpdated,
             OutcomeCreated, OutcomeResolved} then [CMarket]
        else if kind \<in> {OrderAccepted, OrderRested, OrderModified, OrderPartiallyFilled, OrderFilled,
             OrderCancelled, OrderRejected, NonUserOrderCancelled} then [COrder]
        else if kind = TradeMatched then
          (case e_payload event of
             TradeMatchedPayload trade \<Rightarrow>
               if tm_participants trade \<noteq> None
               then [CTradeV1, CTradeV2, CPositionQuantity, CPositionEpisode]
               else [CTradeV1]
           | _ \<Rightarrow> [])
        else if kind \<in> {FundingPaid, FundingReceived} then [CAccount, CPositionEpisode]
        else if kind \<in> {DepositCredited, WithdrawalDebited, SpotTransfer, PerpTransfer, SubaccountTransfer,
             VaultDeposit, VaultWithdrawal, FeeCharged, BuilderFeeCharged, ReferralReward,
             AccountModeChanged, MarginModeChanged, LeverageChanged, InternalTransfer,
             AccountClassTransfer, RewardClaimed, SpotGenesisApplied} then [CAccount]
        else if kind \<in> {LiquidationStarted, LiquidationFill, BackstopLiquidation, PositionSettled}
        then [CPositionLiquidation]
        else if kind = TriggerOrderActivated then [CTrigger]
        else if kind \<in> {TwapStarted, TwapSliceFilled, TwapCompleted} then [CTwap]
        else if kind \<in> {VaultCreated, VaultDistribution} then [CVault, CRelationships]
        else if kind = VaultLeaderCommissionPaid then []
        else if kind \<in> {StakingDeposit, StakingWithdrawalQueued, StakingWithdrawalCompleted} then [CStaking]
        else if kind \<in> {StakingDelegated, StakingUndelegated} then [CStaking, CRelationships]
        else [CValidator])"

section \<open>The component manifest\<close>

type_synonym canonical_state = "component \<Rightarrow> event_reducer"

datatype canonical_state_error =
  ComponentVersionMismatch string string string

definition EXPECTED_COMPONENT_MANIFEST :: "(string \<times> string) list" where
  "EXPECTED_COMPONENT_MANIFEST =
     [(''market'', ''hyperliquid-alpha-desk-canonical-market@1.0.0''),
      (''order'', ''hyperliquid-alpha-desk-canonical-order@1.0.0''),
      (''trade_v1'', ''hyperliquid-alpha-desk-canonical-trade@1.0.0''),
      (''trade_v2'', ''hyperliquid-alpha-desk-canonical-trade@2.0.0''),
      (''account'', ''hyperliquid-alpha-desk-canonical-account@1.0.0''),
      (''position_quantity'', ''hyperliquid-alpha-desk-canonical-position@1.0.0''),
      (''position_episode'', ''hyperliquid-alpha-desk-canonical-position-episode@1.0.0''),
      (''position_liquidation'', ''hyperliquid-alpha-desk-canonical-position-liquidation@1.0.0''),
      (''trigger'', ''hyperliquid-alpha-desk-canonical-trigger@1.0.0''),
      (''twap'', ''hyperliquid-alpha-desk-canonical-twap@1.0.0''),
      (''vault'', ''hyperliquid-alpha-desk-canonical-vault@1.0.0''),
      (''staking'', ''hyperliquid-alpha-desk-canonical-staking@1.0.0''),
      (''validator'', ''hyperliquid-alpha-desk-canonical-validator@1.0.0''),
      (''relationships'', ''hyperliquid-alpha-desk-canonical-relationships@1.0.0'')]"

definition actual_component_manifest :: "canonical_state \<Rightarrow> (string \<times> string) list" where
  "actual_component_manifest children =
     zip [''market'', ''order'', ''trade_v1'', ''trade_v2'', ''account'', ''position_quantity'',
          ''position_episode'', ''position_liquidation'', ''trigger'', ''twap'', ''vault'', ''staking'',
          ''validator'', ''relationships'']
       (map (\<lambda>c. reducer_set_version (children c)) ALL_COMPONENTS)"

fun validate_manifest_from ::
  "(string \<times> string) list \<Rightarrow> (string \<times> string) list \<Rightarrow> canonical_state_error + unit" where
  "validate_manifest_from ((expected, version) # es) ((name, actual) # as) =
     (if expected \<noteq> name \<or> version \<noteq> actual then Inl (ComponentVersionMismatch expected version actual)
      else validate_manifest_from es as)"
| "validate_manifest_from _ _ = Inr ()"

definition validate_component_manifest :: "(string \<times> string) list \<Rightarrow> canonical_state_error + unit" where
  "validate_component_manifest actual = validate_manifest_from EXPECTED_COMPONENT_MANIFEST actual"

definition canonical_state_try_new :: "canonical_state \<Rightarrow> canonical_state_error + canonical_state" where
  "canonical_state_try_new children =
     rbind (validate_component_manifest (actual_component_manifest children)) (\<lambda>_. Inr children)"

section \<open>The reducer\<close>

fun insert_keys :: "state_mutation list \<Rightarrow> state_key list \<Rightarrow> reducer_error + state_key list" where
  "insert_keys [] keys = Inr keys"
| "insert_keys (m # ms) keys =
     (if mutation_key m \<in> set keys
      then Inl (from_static ''canonical_state.duplicate_mutation_key''
                  ''canonical state children emitted the same mutation key'')
      else insert_keys ms (mutation_key m # keys))"

fun merge_loop ::
  "(component \<Rightarrow> reducer_error + state_mutation list) \<Rightarrow> component list \<Rightarrow> state_key list \<Rightarrow> state_mutation list
     \<Rightarrow> reducer_error + state_mutation list" where
  "merge_loop invoke [] keys mutations = Inr mutations"
| "merge_loop invoke (c # cs) keys mutations =
     rbind (invoke c) (\<lambda>child_mutations.
     rbind (insert_keys child_mutations keys) (\<lambda>keys'.
     merge_loop invoke cs keys' (mutations @ child_mutations)))"

definition merge_selected_children ::
  "component list \<Rightarrow> (component \<Rightarrow> reducer_error + state_mutation list) \<Rightarrow> reducer_error + state_mutation list" where
  "merge_selected_children selected invoke = merge_loop invoke selected [] []"

definition canonical_state_reduce ::
  "canonical_state \<Rightarrow> state_entries \<Rightarrow> canonical_event \<Rightarrow> apply_context \<Rightarrow> reducer_error + state_mutation list" where
  "canonical_state_reduce children s event context =
     (let selected = owners event in
      if selected = []
      then Inl (from_static ''canonical_state.unsupported_event''
                  ''canonical state reducer received an unsupported event'')
      else if list_ex (\<lambda>c. \<not> supports (children c) event) selected
      then Inl (from_static ''canonical_state.component_support_mismatch''
                  ''frozen canonical state owner does not support the selected event'')
      else merge_selected_children selected (\<lambda>c. reduce_event (children c) s event context))"

text \<open>The loop over all components in their order, which ends at the first error.\<close>

fun fanout_components :: "(component \<Rightarrow> reducer_error + unit) \<Rightarrow> component list \<Rightarrow> reducer_error + unit" where
  "fanout_components validate [] = Inr ()"
| "fanout_components validate (c # cs) = rbind (validate c) (\<lambda>_. fanout_components validate cs)"

definition canonical_state_reducer :: "canonical_state \<Rightarrow> event_reducer" where
  "canonical_state_reducer children =
     \<lparr>reducer_set_version = ''hyperliquid-alpha-desk-canonical-state@1.2.0'',
      supports = (\<lambda>event. owners event \<noteq> []),
      reduce_event = canonical_state_reduce children,
      validate_block_delta = (\<lambda>final delta ctx.
        fanout_components (\<lambda>c. validate_block_delta (children c) final delta ctx) ALL_COMPONENTS)\<rparr>"

section \<open>Joining the mutations\<close>

lemma insert_keys_Inr:
  "insert_keys ms keys = Inr keys' \<longleftrightarrow>
     distinct (map mutation_key ms) \<and> mutation_key ` set ms \<inter> set keys = {} \<and> keys' = rev (map mutation_key ms) @ keys"
  by (induction ms arbitrary: keys) auto

lemma merge_loop_Inr:
  "merge_loop f cs keys acc = Inr ms \<longleftrightarrow>
     (\<exists>mss. list_all2 (\<lambda>c m. f c = Inr m) cs mss \<and> ms = acc @ concat mss
        \<and> distinct (map mutation_key (concat mss)) \<and> mutation_key ` set (concat mss) \<inter> set keys = {})"
proof (induction cs arbitrary: keys acc)
  case (Cons c cs)
  have "merge_loop f (c # cs) keys acc = Inr ms \<longleftrightarrow>
      (\<exists>m. f c = Inr m \<and> distinct (map mutation_key m) \<and> mutation_key ` set m \<inter> set keys = {}
         \<and> merge_loop f cs (rev (map mutation_key m) @ keys) (acc @ m) = Inr ms)"
    by (auto simp: rbind_Inr_iff insert_keys_Inr)
  also have "\<dots> \<longleftrightarrow> (\<exists>m mss. f c = Inr m \<and> list_all2 (\<lambda>c m. f c = Inr m) cs mss \<and> ms = acc @ concat (m # mss)
      \<and> distinct (map mutation_key (concat (m # mss))) \<and> mutation_key ` set (concat (m # mss)) \<inter> set keys = {})"
    (is "?l \<longleftrightarrow> ?r")
  proof
    show "?l \<Longrightarrow> ?r" unfolding Cons.IH by (auto simp: disjoint_iff) blast+
    show "?r \<Longrightarrow> ?l" unfolding Cons.IH by (auto simp: disjoint_iff) blast+
  qed
  finally show ?case unfolding list_all2_Cons1 by blast
qed auto

lemma merge_selected_Inr:
  "merge_selected_children cs f = Inr ms \<longleftrightarrow>
     (\<exists>mss. list_all2 (\<lambda>c m. f c = Inr m) cs mss \<and> ms = concat mss \<and> distinct (map mutation_key ms))"
  by (auto simp: merge_selected_children_def merge_loop_Inr)

lemma owner_order: "COrder \<in> set (owners e) \<longleftrightarrow> order_supports e"
proof (cases "e_payload e")
  case (EncodedPayload k b)
  then show ?thesis by (cases k) (simp_all add: owners_def order_supports_def is_order_kind_def)
qed (simp_all add: owners_def order_supports_def is_order_kind_def)

lemma owner_staking: "CStaking \<in> set (owners e) \<longleftrightarrow> staking_supports e"
proof (cases "e_payload e")
  case (EncodedPayload k b)
  then show ?thesis by (cases k) (simp_all add: owners_def staking_supports_def)
qed (simp_all add: owners_def staking_supports_def)

lemma owner_validator: "CValidator \<in> set (owners e) \<longleftrightarrow> validator_supports e"
proof (cases "e_payload e")
  case (EncodedPayload k b)
  then show ?thesis by (cases k) (simp_all add: owners_def validator_supports_def)
qed (simp_all add: owners_def validator_supports_def)

section \<open>What a component keeps\<close>

text \<open>\<open>same_on N s t\<close>: the entries under the namespaces \<open>N\<close> are the same.\<close>

definition same_on :: "string set \<Rightarrow> state_entries \<Rightarrow> state_entries \<Rightarrow> bool" where
  "same_on N s t \<longleftrightarrow> (\<forall>k. sk_namespace k \<in> N \<longrightarrow> bt_get (<) k t = bt_get (<) k s)"

definition writes_outside :: "string set \<Rightarrow> event_reducer \<Rightarrow> bool" where
  "writes_outside N r \<longleftrightarrow>
     (\<forall>s e ctx ms m. reduce_event r s e ctx = Inr ms \<longrightarrow> m \<in> set ms \<longrightarrow> sk_namespace (mutation_key m) \<notin> N)"

lemma writes_outsideD:
  "writes_outside N r \<Longrightarrow> reduce_event r s e ctx = Inr ms \<Longrightarrow> m \<in> set ms \<Longrightarrow> sk_namespace (mutation_key m) \<notin> N"
  unfolding writes_outside_def by blast

lemma same_on_mutate_all:
  assumes s: "bt_sorted (<) s" and d: "distinct (map mutation_key ms)" and dx: "distinct (map mutation_key xs)" and sub: "set xs \<subseteq> set ms"
    and own: "\<And>x. x \<in> set ms \<Longrightarrow> sk_namespace (mutation_key x) \<in> owned \<Longrightarrow> x \<in> set xs"
  shows "same_on owned (mutate_all xs s) (mutate_all ms s)"
  unfolding same_on_def
proof (intro allI impI)
  fix k assume k: "sk_namespace k \<in> owned"
  show "bt_get (<) k (mutate_all ms s) = bt_get (<) k (mutate_all xs s)"
  proof (cases "k \<in> mutation_key ` set ms")
    case True
    then obtain x where x: "x \<in> set ms" "k = mutation_key x" by blast
    then have "x \<in> set xs" using own k by blast
    then show ?thesis using bt_get_mutate_all [OF s d x(1)] bt_get_mutate_all [OF s dx] x(2) by simp
  next
    case False
    then show ?thesis using sub bt_get_mutate_all_other [OF s, of k] by (metis image_mono subsetD)
  qed
qed

locale owned_history = reducer_history +
  fixes owned :: "string set"
  assumes inv_same: "inv es s \<Longrightarrow> same_on owned s t \<Longrightarrow> inv es t"
begin

lemma composite_history:
  assumes child: "children c = reducer" and others: "\<And>d. d \<noteq> c \<Longrightarrow> writes_outside owned (children d)"
  shows "reducer_history (canonical_state_reducer children) (\<lambda>e. c \<in> set (owners e) \<longrightarrow> admissible e)
    (\<lambda>es. inv (filter (\<lambda>e. c \<in> set (owners e)) es))"
proof
  show "inv (filter (\<lambda>e. c \<in> set (owners e)) []) []" using inv_start by simp
next
  fix es s e ctx ms
  assume inv: "inv (filter (\<lambda>e. c \<in> set (owners e)) es) s" and s: "bt_sorted (<) s"
    and adm: "c \<in> set (owners e) \<longrightarrow> admissible e"
    and "reduce_event (canonical_state_reducer children) s e ctx = Inr ms" and d: "distinct (map mutation_key ms)"
  then have red: "canonical_state_reduce children s e ctx = Inr ms" by (simp add: canonical_state_reducer_def)
  then obtain mss where sup: "\<forall>c \<in> set (owners e). supports (children c) e"
      and mss: "list_all2 (\<lambda>c m. reduce_event (children c) s e ctx = Inr m) (owners e) mss" "ms = concat mss"
    by (auto simp: canonical_state_reduce_def Let_def merge_selected_Inr list_ex_iff split: if_splits)
  have own: "c \<in> set (owners e) \<and> (\<exists>xs. x \<in> set xs \<and> reduce_event reducer s e ctx = Inr xs)"
    if x: "x \<in> set ms" and n: "sk_namespace (mutation_key x) \<in> owned" for x
  proof -
    obtain xs where xs: "xs \<in> set mss" "x \<in> set xs" using x mss(2) by auto
    obtain f where f: "f \<in> set (owners e)" "reduce_event (children f) s e ctx = Inr xs"
      using list_all2_partner(1) [OF mss(1) xs(1)] by blast
    then have "f = c" using writes_outsideD [OF others f(2) xs(2)] n by blast
    then show ?thesis using f xs child by auto
  qed
  show "inv (filter (\<lambda>e. c \<in> set (owners e)) (es @ [e])) (mutate_all ms s)"
  proof (cases "c \<in> set (owners e)")
    case True
    then obtain xs where xs: "xs \<in> set mss" "reduce_event reducer s e ctx = Inr xs"
      using list_all2_partner(2) [OF mss(1) True] child by auto
    obtain as bs where "mss = as @ xs # bs" using split_list [OF xs(1)] by blast
    then have dx: "distinct (map mutation_key xs)" and sub: "set xs \<subseteq> set ms" using d mss(2) by auto
    have "inv (filter (\<lambda>e. c \<in> set (owners e)) es @ [e]) (mutate_all xs s)"
      using inv_step [OF inv s] adm True sup child xs(2) dx by blast
    moreover have "same_on owned (mutate_all xs s) (mutate_all ms s)"
      using own xs(2) by (intro same_on_mutate_all [OF s d dx sub]) fastforce
    ultimately show ?thesis using inv_same True by simp
  next
    case False
    have "same_on owned (mutate_all [] s) (mutate_all ms s)"
      using own False by (intro same_on_mutate_all [OF s d]) auto
    then show ?thesis using inv_same [OF inv] False by simp
  qed
qed

lemma composite_run:
  assumes "ledger_run derive (canonical_state_reducer children) limits chain first bs ms l"
    and "children c = reducer" and "\<And>d. d \<noteq> c \<Longrightarrow> writes_outside owned (children d)"
    and "\<forall>e \<in> set (run_events bs). c \<in> set (owners e) \<longrightarrow> admissible e"
  shows "inv (filter (\<lambda>e. c \<in> set (owners e)) (run_events bs)) (si_entries (cl_state l))"
proof -
  have "reducer_history (canonical_state_reducer children) (\<lambda>e. c \<in> set (owners e) \<longrightarrow> admissible e)
    (\<lambda>es. inv (filter (\<lambda>e. c \<in> set (owners e)) es))"
    using assms(2,3) by (rule composite_history)
  then show ?thesis using assms(1,4) by (rule reducer_history.inv_run)
qed

end

section \<open>The order and the staking state\<close>

definition ORDER_NAMESPACES :: "string set" where
  "ORDER_NAMESPACES = {ORDER_FACT_NAMESPACE, ORDER_CURRENT_NAMESPACE, ORDER_TRANSITION_NAMESPACE}"

definition STAKING_NAMESPACES :: "string set" where
  "STAKING_NAMESPACES = {''staking-fact.v1'', ''staking-liquid-current.v1'', ''staking-pending-current.v1'',
     ''staking-delegation-current.v1''}"

definition VALIDATOR_NAMESPACES :: "string set" where
  "VALIDATOR_NAMESPACES = {''validator-fact.v1'', ''validator-reward-current.v1''}"

lemma validator_inv_same:
  assumes "validator_inv lib es s" and "same_on VALIDATOR_NAMESPACES s t"
  shows "validator_inv lib es t"
proof -
  have current: "bt_get (<) k t = bt_get (<) k s" if "validator_current_key v = Inr k" for v k
    using assms(2) validator_key_namespace [OF that] by (simp add: same_on_def VALIDATOR_NAMESPACES_def)
  have fact: "bt_get (<) k t = bt_get (<) k s" if "validator_fact_key i = Inr k" for i k
    using assms(2) validator_fact_namespace [OF that] by (simp add: same_on_def VALIDATOR_NAMESPACES_def)
  have "validator_at lib t v = validator_at lib s v" for v
    using current by (cases "validator_current_key v") (simp_all add: validator_at_def)
  then show ?thesis using assms(1) fact by (simp add: validator_inv_def cong: conj_cong)
qed

lemma staking_inv_same:
  assumes "staking_inv lib es s" and "same_on STAKING_NAMESPACES s t"
  shows "staking_inv lib es t"
proof -
  have pool: "bt_get (<) k t = bt_get (<) k s" if "pool_key p = Inr k" for p k
    using assms(2) pool_key_namespace [OF that] by (cases p) (simp_all add: same_on_def STAKING_NAMESPACES_def)
  have fact: "bt_get (<) k t = bt_get (<) k s" if "staking_fact_key i = Inr k" for i k
    using assms(2) staking_fact_namespace [OF that] by (simp add: same_on_def STAKING_NAMESPACES_def)
  have "pool_at lib t p = pool_at lib s p" for p
    using pool by (cases "pool_key p") (simp_all add: pool_at_def)
  then show ?thesis using assms(1) pool fact
    by (simp add: staking_inv_def pool_credits_def pool_debits_def cong: conj_cong)
qed

lemma order_inv_same:
  assumes "order_inv lib es s" and "same_on ORDER_NAMESPACES s t"
  shows "order_inv lib es t"
proof -
  note same = assms(2) [unfolded same_on_def ORDER_NAMESPACES_def]
  have o: "orders_of lib t = orders_of lib s"
  proof
    fix x :: "market_id \<times> order_id"
    obtain m i where x: "x = (m, i)" by (cases x)
    show "orders_of lib t x = orders_of lib s x"
      using same by (cases "current_state_key m i") (simp_all add: orders_of_def x current_key_namespace)
  qed
  have f: "fact_recorded lib s e f \<Longrightarrow> fact_recorded lib t e f" for e f
    using same fact_key_namespace(1) by (fastforce simp: fact_recorded_def)
  have "sk_namespace k = ORDER_TRANSITION_NAMESPACE" if "state_key_for_order ORDER_TRANSITION_NAMESPACE m i ev = Inr k" for m i ev k
    using state_key_for_order_Inr(1) [OF that] by simp
  then have tr: "transition_at lib t m i ev u = transition_at lib s m i ev u" for m i ev u
    using same unfolding transition_at_def by auto
  have "facts_complete lib es t"
    using assms(1) f list.rel_mono_strong unfolding order_inv_def facts_complete_def by blast
  moreover have "hashes_chained lib t" using assms(1) by (simp add: order_inv_def hashes_chained_def o tr)
  moreover have "currents_readable lib t" using assms(1) same unfolding order_inv_def currents_readable_def by auto
  ultimately show ?thesis using assms(1) o by (simp add: order_inv_def)
qed

interpretation order_owned: owned_history "order_reducer lib" "\<lambda>e. order_library_ok lib \<and> order_event_typed e"
  "order_inv lib" ORDER_NAMESPACES for lib
  by unfold_locales (rule order_inv_same)

interpretation staking_owned: owned_history "staking_reducer lib" "\<lambda>e. staking_library_ok lib \<and> event_typed e"
  "staking_inv lib" STAKING_NAMESPACES for lib
  by unfold_locales (rule staking_inv_same)

interpretation validator_owned: owned_history "validator_reducer lib" "\<lambda>e. validator_library_ok lib \<and> event_typed e"
  "validator_inv lib" VALIDATOR_NAMESPACES for lib
  by unfold_locales (rule validator_inv_same)

lemma order_namespaces:
  assumes "order_reduce lib s e ctx = Inr ms" and "m \<in> set ms"
  shows "sk_namespace (mutation_key m) \<in> ORDER_NAMESPACES"
proof (cases "\<exists>v. e_payload e = OrderRejectedPayload v")
  case True
  then obtain v where "reduce_rejection lib s e v = Inr ms" using assms(1) by (auto simp: order_reduce_def rbind_Inr_iff)
  then show ?thesis
    using assms(2) by (cases rule: reduce_rejection_Inr) (auto simp: ORDER_NAMESPACES_def dest: fact_key_namespace(1) transition_key_namespace(1))
next
  case False
  then have "reduce_order_event lib s e = Inr ms"
    using assms(1) by (cases "e_payload e") (auto simp: order_reduce_def rbind_Inr_iff)
  then show ?thesis
    using assms(2) by (cases rule: reduce_order_Inr)
      (auto simp: ORDER_NAMESPACES_def dest: fact_key_namespace(1) transition_key_namespace(1) current_key_namespace)
qed

lemma staking_namespaces:
  assumes "staking_reduce lib s e ctx = Inr ms" and "m \<in> set ms"
  shows "sk_namespace (mutation_key m) \<in> STAKING_NAMESPACES"
proof -
  obtain fk fb ps where fk: "staking_fact_key (e_event_id e) = Inr fk" and ms: "ms = Put fk fb # ps"
      and ps: "list_all2 (\<lambda>x m. pool_mutation lib s e x = Inr m) (event_flows lib e) ps"
    using staking_reduce_Inr [OF assms(1)] by blast
  show ?thesis
  proof (cases "m \<in> set ps")
    case True
    then obtain x where x: "pool_mutation lib s e x = Inr m" using list_all2_partner(1) [OF ps] by blast
    obtain p side q where "x = (p, side, q)" by (cases x)
    then have "pool_key p = Inr (mutation_key m)" using x
      by (cases p) (auto simp: liquid_mutation_def pending_mutation_def delegation_mutation_def elim!: flow_mutation_Inr)
    then show ?thesis by (cases p) (auto dest!: pool_key_namespace simp: STAKING_NAMESPACES_def simp del: pool_key.simps)
  next
    case False
    then show ?thesis using assms(2) ms staking_fact_namespace [OF fk] by (simp add: STAKING_NAMESPACES_def)
  qed
qed

lemma validator_namespaces:
  assumes "validator_reduce lib s e ctx = Inr ms" and "m \<in> set ms"
  shows "sk_namespace (mutation_key m) \<in> VALIDATOR_NAMESPACES"
  using assms(1)
proof (cases rule: validator_reduce_Inr)
  case (1 b d fk fb ck c cb)
  then show ?thesis using assms(2) validator_fact_namespace [OF 1(3)] validator_key_namespace [OF 1(5)]
    by (auto simp: VALIDATOR_NAMESPACES_def)
qed

lemma namespaces_disjoint:
  "ORDER_NAMESPACES \<inter> STAKING_NAMESPACES = {}" "ORDER_NAMESPACES \<inter> VALIDATOR_NAMESPACES = {}"
  "STAKING_NAMESPACES \<inter> VALIDATOR_NAMESPACES = {}"
  by (simp_all add: ORDER_NAMESPACES_def STAKING_NAMESPACES_def VALIDATOR_NAMESPACES_def ORDER_FACT_NAMESPACE_def
      ORDER_CURRENT_NAMESPACE_def ORDER_TRANSITION_NAMESPACE_def)

lemma order_writes_outside:
  "writes_outside STAKING_NAMESPACES (order_reducer lib)" "writes_outside VALIDATOR_NAMESPACES (order_reducer lib)"
  using order_namespaces namespaces_disjoint by (fastforce simp: writes_outside_def order_reducer_def)+

lemma staking_writes_outside:
  "writes_outside ORDER_NAMESPACES (staking_reducer lib)" "writes_outside VALIDATOR_NAMESPACES (staking_reducer lib)"
  using staking_namespaces namespaces_disjoint by (fastforce simp: writes_outside_def staking_reducer_def)+

lemma validator_writes_outside:
  "writes_outside ORDER_NAMESPACES (validator_reducer lib)" "writes_outside STAKING_NAMESPACES (validator_reducer lib)"
  using validator_namespaces namespaces_disjoint by (fastforce simp: writes_outside_def validator_reducer_def)+

lemma watermark_writes_outside: "writes_outside N watermark_only_reducer"
  by (simp add: writes_outside_def watermark_only_reducer_def)

lemma writes_outside_Un: "writes_outside (M \<union> N) r \<Longrightarrow> writes_outside M r \<and> writes_outside N r"
  unfolding writes_outside_def by blast

section \<open>Properties\<close>

text \<open>
  The production reducer accepts an event exactly when some component owns it, every owner
  supports it and reduces it against the same state, and no two mutations have the same key;
  the result is then the mutations of the owners in their order.
\<close>

theorem canonical_state_reduce_exact:
  "canonical_state_reduce children s e ctx = Inr ms \<longleftrightarrow>
     owners e \<noteq> [] \<and> list_all (\<lambda>c. supports (children c) e) (owners e) \<and> distinct (map mutation_key ms)
     \<and> (\<exists>mss. list_all2 (\<lambda>c xs. reduce_event (children c) s e ctx = Inr xs) (owners e) mss \<and> ms = concat mss)"
  by (auto simp: canonical_state_reduce_def Let_def merge_selected_Inr list_ex_iff list_all_iff)


definition sample_children :: canonical_state where
  "sample_children c =
     (if c = COrder then order_reducer sample_orders
      else if c = CStaking then staking_reducer sample_staking
      else if c = CValidator then validator_reducer sample_validators
      else watermark_only_reducer)"

lemma sample_children_delta:
  "validate_block_delta (canonical_state_reducer sample_children) = (\<lambda>final _ ctx. default_validate_block final ctx)"
  by (simp add: canonical_state_reducer_def fun_eq_iff ALL_COMPONENTS_def sample_children_def order_reducer_def
      staking_reducer_def validator_reducer_def watermark_only_reducer_def default_validate_block_def)

lemma sample_children_run:
  assumes own: "owners e = [c]" and sup: "supports (sample_children c) e"
    and red: "reduce_event (sample_children c) [] e sample_context = Inr ms"
    and small: "list_all small_put ms" "distinct (map mutation_key ms)" "length ms \<le> 100"
  shows "\<exists>cs l. ledger_run sample_derive (canonical_state_reducer sample_children) ledger_limits_production ''c'' 1
     [sample_ledger_block\<lparr>b_events := [e]\<rparr>] cs l \<and> si_entries (cl_state l) = mutate_all ms []"
proof -
  let ?r = "canonical_state_reducer sample_children"
  have version: "valid_reducer_version ''hyperliquid-alpha-desk-canonical-state@1.2.0''" by code_simp
  have "canonical_state_reduce sample_children [] e sample_context = Inr ms"
    using own sup red small(2) by (auto simp: canonical_state_reduce_def merge_selected_Inr list_all2_Cons1)
  then have red': "reduce_event ?r [] e sample_context = Inr ms" by (simp add: canonical_state_reducer_def)
  have ok: "valid_reducer_version (reducer_set_version ?r)" "supports ?r e"
    by (simp_all add: canonical_state_reducer_def version own)
  show ?thesis by (rule one_event_run [OF ok(1) sample_children_delta ok(2) red' small])
qed

lemma sample_deposit_children_run:
  "\<exists>ms l. ledger_run sample_derive (canonical_state_reducer sample_children) ledger_limits_production ''c'' 1
     [sample_ledger_block\<lparr>b_events := [sample_deposit]\<rparr>] ms l"
proof -
  have own: "owners sample_deposit = [CStaking]" by (simp add: owners_def sample_deposit_def sample_event_def)
  have sup: "staking_supports sample_deposit" by (simp add: staking_supports_def sample_deposit_def sample_event_def)
  have "reduce_event (sample_children CStaking) [] sample_deposit sample_context =
      Inr [Put (sample_staking_key ''staking-fact.v1'' (str_bytes ''evt_00'')) [1],
           Put (sample_staking_key ''staking-liquid-current.v1'' (replicate 20 7)) [2]]"
    by (simp add: sample_children_def staking_reducer_def sample_deposit_reduce)
  from sample_children_run [OF own _ this] show ?thesis
    by (auto simp: sample_children_def staking_reducer_def sup small_put_def key_len_def sample_staking_key_def)
qed


end
