(* ===== verification/L4_Projection.thy ===== *)
theory L4_Projection
  imports Composite Order_Book
begin

text \<open>
  The order book of a market as a projection of the canonical state,
  \<^verbatim>\<open>CanonicalStateReducerV1::project_l4_book\<close> of \<^verbatim>\<open>crates/canonical-ledger/src/composite.rs\<close>, with the
  trigger records it reads from \<^verbatim>\<open>crates/canonical-ledger/src/trigger.rs\<close>. The book that is
  projected from the state of a run has exactly the live orders of the abstract order state.
\<close>

section \<open>Trigger records\<close>

datatype trigger_state_error =
  TsInvalidKey | TsCodec | TsNonCanonical | TsInvalidRecord | TsKeyMismatch | TsLimitExceeded

record trigger_current_record =
  tcr_order_id :: order_id
  tcr_account_id :: address
  tcr_market_id :: market_id
  tcr_trigger_price :: decimal
  tcr_oracle_price :: decimal
  tcr_activated_event_id :: string
  tcr_last_event_id :: string
  tcr_last_block_height :: block_height

record trigger_current_wire =
  tcw_schema :: string
  tcw_order_id :: string
  tcw_account_id :: string
  tcw_market_id :: string
  tcw_trigger_price :: string
  tcw_oracle_price :: string
  tcw_activated_event_id :: string
  tcw_last_event_id :: string
  tcw_last_block_height :: u64

definition trigger_decode_canonical :: "'w json \<Rightarrow> bytes \<Rightarrow> trigger_state_error + 'w" where
  "trigger_decode_canonical j b = decode_bounded TsCodec TsLimitExceeded TsNonCanonical (16 * 1024) j b"

definition trigger_current_validate :: "trigger_current_record \<Rightarrow> trigger_state_error + unit" where
  "trigger_current_validate r =
     (if raw (tcr_trigger_price r) \<le> 0 \<or> raw (tcr_oracle_price r) \<le> 0 then Inl TsInvalidRecord else Inr ())"

definition trigger_current_decode ::
  "order_library \<Rightarrow> trigger_current_wire json \<Rightarrow> bytes \<Rightarrow> trigger_state_error + trigger_current_record" where
  "trigger_current_decode lib j b =
     rbind (trigger_decode_canonical j b) (\<lambda>w.
     if tcw_schema w \<noteq> ''hyperliquid-alpha-desk/trigger-current/v1'' then Inl TsInvalidRecord
     else
       rbind (map_err (\<lambda>_. TsInvalidRecord) (string_id_new (tcw_order_id w))) (\<lambda>order.
       rbind (map_err (\<lambda>_. TsInvalidRecord) (parse_api (lib_hex_decode lib) (tcw_account_id w))) (\<lambda>account.
       rbind (map_err (\<lambda>_. TsInvalidRecord) (string_id_new (tcw_market_id w))) (\<lambda>market.
       rbind (map_err (\<lambda>_. TsInvalidRecord) (decimal_from_str (tcw_trigger_price w))) (\<lambda>trigger_price.
       rbind (map_err (\<lambda>_. TsInvalidRecord) (decimal_from_str (tcw_oracle_price w))) (\<lambda>oracle_price.
       rbind (map_err (\<lambda>_. TsInvalidRecord) (string_id_new (tcw_activated_event_id w))) (\<lambda>activated.
       rbind (map_err (\<lambda>_. TsInvalidRecord) (string_id_new (tcw_last_event_id w))) (\<lambda>last_event.
       let r = \<lparr>tcr_order_id = order, tcr_account_id = account, tcr_market_id = market,
                tcr_trigger_price = trigger_price, tcr_oracle_price = oracle_price,
                tcr_activated_event_id = activated, tcr_last_event_id = last_event,
                tcr_last_block_height = tcw_last_block_height w\<rparr> in
       rbind (trigger_current_validate r) (\<lambda>_. Inr r)))))))))"

section \<open>The projection\<close>

definition try_resting :: "order_current_record \<Rightarrow> resting_order option" where
  "try_resting r =
     (if \<not> rests_on_book (ocr_lifecycle r) \<or> raw (ocr_remaining_quantity r) \<le> 0 then None
      else Some ((new_order (ocr_order_id r) (ocr_side r) (ocr_limit_price r) (ocr_remaining_quantity r)
                    (ocr_last_block_height r))
             \<lparr>original := ocr_accepted_quantity r, account_id := Some (ocr_account_id r),
              time_millis := Some (ocr_last_block_height r)\<rparr>))"

datatype l4_projection_error =
  MissingWatermark | InvalidOrder | InvalidTrigger | Unhealthy string

text \<open>One entry of the state: the prices of triggers and the live orders collected so far.\<close>

definition project_entry ::
  "order_library \<Rightarrow> trigger_current_wire json \<Rightarrow> market_id \<Rightarrow> state_key \<times> bytes
     \<Rightarrow> (order_id, decimal) btree \<times> resting_order list
     \<Rightarrow> l4_projection_error + (order_id, decimal) btree \<times> resting_order list" where
  "project_entry lib j market entry acc =
     (case (entry, acc) of ((key, b), (triggers, orders)) \<Rightarrow>
        if sk_namespace key = ''trigger-current.v1''
        then rbind (map_err (\<lambda>_. InvalidTrigger) (trigger_current_decode lib j b)) (\<lambda>r.
             Inr (if tcr_market_id r = market
                  then (bt_insert (<) (tcr_order_id r) (tcr_trigger_price r) triggers, orders)
                  else (triggers, orders)))
        else if sk_namespace key = ''order-current.v1''
        then rbind (map_err (\<lambda>_. InvalidOrder) (current_decode lib b)) (\<lambda>r.
             Inr (case (ocr_market_id r = market, try_resting r) of
                    (True, Some resting) \<Rightarrow> (triggers, orders @ [resting])
                  | _ \<Rightarrow> (triggers, orders)))
        else Inr (triggers, orders))"

definition with_activation :: "(order_id, decimal) btree \<Rightarrow> resting_order \<Rightarrow> resting_order" where
  "with_activation triggers order =
     (case bt_get (<) (order_id order) triggers of
        Some trigger_px \<Rightarrow> order\<lparr>trigger := Activated trigger_px\<rparr>
      | None \<Rightarrow> order)"

definition project_l4_book ::
  "order_library \<Rightarrow> trigger_current_wire json \<Rightarrow> market_id \<Rightarrow> state_image \<Rightarrow> l4_projection_error + order_book" where
  "project_l4_book lib j market img =
     rbind (ok_or MissingWatermark (image_block_height img)) (\<lambda>as_of.
     rbind (rfold (project_entry lib j market) (si_entries img) ([], [])) (\<lambda>(triggers, orders).
     let book = apply_snapshot as_of as_of (sort_key order_id (map (with_activation triggers) orders))
                  (awaiting_snapshot market as_of) in
     case health book of
       Healthy \<Rightarrow> Inr book
     | AwaitingSnapshot reason \<Rightarrow> Inl (Unhealthy reason)
     | Red reason \<Rightarrow> Inl (Unhealthy reason)))"

section \<open>The collected orders\<close>

lemma try_resting_Some:
  "try_resting r = Some q \<Longrightarrow> order_id q = ocr_order_id r \<and> trigger q = TriggerNone \<and> 0 < raw (remaining q)
     \<and> rests_on_book (ocr_lifecycle r)"
  by (auto simp: try_resting_def new_order_def split: if_splits)

definition live_entry :: "order_library \<Rightarrow> market_id \<Rightarrow> state_key \<times> bytes \<Rightarrow> resting_order \<Rightarrow> bool" where
  "live_entry lib m x q \<longleftrightarrow>
     sk_namespace (fst x) = ORDER_CURRENT_NAMESPACE
     \<and> (\<exists>r. current_decode lib (snd x) = Inr r \<and> ocr_market_id r = m \<and> try_resting r = Some q)"

lemma project_entry_orders:
  assumes "project_entry lib j m x (ts, os) = Inr (ts', os')"
  shows "set os' = set os \<union> {q. live_entry lib m x q}"
proof -
  obtain k b where x: "x = (k, b)" by (cases x)
  show ?thesis
  proof (cases "sk_namespace k = ''order-current.v1''")
    case True
    then obtain r where r: "current_decode lib b = Inr r"
        and os: "(ts', os') = (case (ocr_market_id r = m, try_resting r) of
          (True, Some resting) \<Rightarrow> (ts, os @ [resting]) | _ \<Rightarrow> (ts, os))"
      using assms by (auto simp: project_entry_def x rbind_Inr_iff map_err_Inr_iff)
    then show ?thesis using True
      by (cases "ocr_market_id r = m"; cases "try_resting r") (simp_all add: live_entry_def x r ORDER_CURRENT_NAMESPACE_def)
  next
    case False
    then have "os' = os"
      using assms by (auto simp: project_entry_def x rbind_Inr_iff map_err_Inr_iff split: if_splits)
    then show ?thesis using False by (simp add: live_entry_def x ORDER_CURRENT_NAMESPACE_def)
  qed
qed

lemma project_entries_orders:
  "rfold (project_entry lib j m) xs (ts, os) = Inr (ts', os') \<Longrightarrow>
   set os' = set os \<union> {q. \<exists>x \<in> set xs. live_entry lib m x q}"
proof (induction xs arbitrary: ts os)
  case (Cons x xs)
  then obtain us ps where p: "project_entry lib j m x (ts, os) = Inr (us, ps)"
      "rfold (project_entry lib j m) xs (us, ps) = Inr (ts', os')"
    by (auto simp: rbind_Inr_iff)
  show ?case using project_entry_orders [OF p(1)] Cons.IH [OF p(2)] by auto
qed simp

lemma with_activation_simps [simp]:
  "order_id (with_activation ts q) = order_id q"
  "trigger q = TriggerNone \<Longrightarrow> (with_activation ts q)\<lparr>trigger := TriggerNone\<rparr> = q"
  by (auto simp: with_activation_def split: option.splits)

text \<open>The live orders of a market in the abstract order state.\<close>

definition live_orders :: "order_view \<Rightarrow> market_id \<Rightarrow> resting_order set" where
  "live_orders v m = {q. \<exists>i c. v (m, i) = Some c \<and> try_resting c = Some q}"

lemma live_entries:
  assumes "bt_sorted (<) s" and "currents_readable lib s"
  shows "{q. \<exists>x \<in> set s. live_entry lib m x q} = live_orders (orders_of lib s) m"
proof (intro set_eqI iffI)
  fix q assume "q \<in> {q. \<exists>x \<in> set s. live_entry lib m x q}"
  then obtain k b r where x: "(k, b) \<in> set s" "sk_namespace k = ORDER_CURRENT_NAMESPACE"
      and r: "current_decode lib b = Inr r" "ocr_market_id r = m" "try_resting r = Some q"
    by (auto simp: live_entry_def)
  have g: "bt_get (<) k s = Some b" using x(1) assms(1) by (simp add: bt_get_lin_Some_iff)
  then obtain c where c: "current_decode_at lib k b = Inr c" using assms(2) x(2) unfolding currents_readable_def by blast
  then have "c = r" "current_state_key (ocr_market_id r) (ocr_order_id r) = Inr k"
    using r(1) by (auto simp: current_decode_at_def current.decode_at_Inr current_key_of_def)
  then have "orders_of lib s (m, ocr_order_id r) = Some r" using g c r(2) by (simp add: orders_of_def)
  then show "q \<in> live_orders (orders_of lib s) m" using r(3) unfolding live_orders_def by blast
next
  fix q assume "q \<in> live_orders (orders_of lib s) m"
  then obtain i c where c: "orders_of lib s (m, i) = Some c" "try_resting c = Some q" by (auto simp: live_orders_def)
  obtain k b where k: "current_state_key m i = Inr k" "bt_get (<) k s = Some b" "current_decode lib b = Inr c" "ocr_market_id c = m"
    using c(1) by (rule orders_of_Some)
  then have "(k, b) \<in> set s" using assms(1) by (simp add: bt_get_lin_Some_iff)
  moreover have "live_entry lib m (k, b) q" using k c(2) current_key_namespace [OF k(1)] by (simp add: live_entry_def)
  ultimately show "q \<in> {q. \<exists>x \<in> set s. live_entry lib m x q}" by blast
qed

lemma health_case_Inr:
  "(case h of Healthy \<Rightarrow> Inr b | AwaitingSnapshot reason \<Rightarrow> Inl (f reason) | Red reason \<Rightarrow> Inl (g reason)) = Inr c
     \<longleftrightarrow> h = Healthy \<and> c = b"
  by (cases h) auto

lemma project_l4_book_Inr:
  assumes "project_l4_book lib j m img = Inr b" and "bt_sorted (<) (si_entries img)" and "currents_readable lib (si_entries img)"
  shows "book_reach b" and "health b = Healthy" and "image_block_height img = Some (as_of_block b)"
    and "(\<lambda>r. r\<lparr>trigger := TriggerNone\<rparr>) ` set (active_orders b) = live_orders (orders_of lib (si_entries img)) m"
proof -
  obtain h ts os where h: "image_block_height img = Some h"
      and os: "rfold (project_entry lib j m) (si_entries img) ([], []) = Inr (ts, os)"
      and b: "b = apply_snapshot h h (sort_key order_id (map (with_activation ts) os)) (awaiting_snapshot m h)" "health b = Healthy"
    using assms(1) by (auto simp: project_l4_book_def result_simps Let_def health_case_Inr)
  show "book_reach b" unfolding b(1) awaiting_snapshot_def by (intro book_reach.snapshot book_reach.init)
  show "health b = Healthy" by (rule b(2))
  note inst = snapshot_installs [OF b(2) [unfolded b(1)], folded b(1)]
  show "image_block_height img = Some (as_of_block b)" using inst h by simp
  have live: "set os = live_orders (orders_of lib (si_entries img)) m"
    using project_entries_orders [OF os] live_entries [OF assms(2,3)] by simp
  have "trigger q = TriggerNone" if "q \<in> set os" for q
    using that try_resting_Some unfolding live live_orders_def by blast
  then have "(\<lambda>r. r\<lparr>trigger := TriggerNone\<rparr>) ` with_activation ts ` set os = set os"
    by (force simp: image_image)
  then show "(\<lambda>r. r\<lparr>trigger := TriggerNone\<rparr>) ` set (active_orders b) = live_orders (orders_of lib (si_entries img)) m"
    using inst live by simp
qed

section \<open>The projected book of a run\<close>

lemma sample_live_order:
  "\<exists>q. try_resting \<lparr>ocr_order_id = ''o1'', ocr_account_id = replicate 20 7, ocr_market_id = ''BTC'', ocr_side = Buy,
       ocr_lifecycle = LifeAccepted, ocr_limit_price = \<lparr>raw = 100, scale = 0\<rparr>,
       ocr_accepted_quantity = \<lparr>raw = 5, scale = 0\<rparr>, ocr_filled_quantity = \<lparr>raw = 0, scale = 0\<rparr>,
       ocr_remaining_quantity = \<lparr>raw = 5, scale = 0\<rparr>, ocr_accepted_event_id = ''evt_00'',
       ocr_last_event_id = ''evt_00'', ocr_last_block_height = 1\<rparr> = Some q
     \<and> health (apply_snapshot 1 1 [q] (awaiting_snapshot ''BTC'' 1)) = Healthy"
proof -
  let ?q = "(new_order ''o1'' Buy \<lparr>raw = 100, scale = 0\<rparr> \<lparr>raw = 5, scale = 0\<rparr> 1)
    \<lparr>original := \<lparr>raw = 5, scale = 0\<rparr>, account_id := Some (replicate 20 7), time_millis := Some 1\<rparr>"
  have "health (apply_snapshot 1 1 [?q] (awaiting_snapshot ''BTC'' 1)) = Healthy"
    by (simp add: apply_snapshot_def awaiting_snapshot_def awaiting_snapshot_bounded_def DEFAULT_MAX_ORDERS_def
        insert_active_def new_order_def place_order_def index_of_def key_of_def time_priority_def assert_invariants_def
        best_bid_def best_ask_def bt_values_def rests_on_l2_def is_untriggered_def aggregate_l2_def aggregate_order_def
        from_raw_def validate_scale_def MAX_DECIMAL_SCALE_def checked_add_def require_same_scale_def to_i128_def
        in_i128_def i128_max_def i128_min_def checked_succ_def decimal_lt_value)
  then show ?thesis by (simp add: try_resting_def rests_on_book_def is_terminal_def)
qed

lemma sample_projection:
  assumes "image_block_height img = Some 1"
    and "si_entries img = mutate_all [Put (sample_order_key ORDER_FACT_NAMESPACE (frame (str_bytes ''evt_00''))) [1],
          Put (sample_order_key ORDER_CURRENT_NAMESPACE []) [2],
          Put (sample_order_key ORDER_TRANSITION_NAMESPACE (frame (str_bytes ''evt_00''))) [3]] []"
  shows "\<exists>b. project_l4_book sample_orders (sample_table []) ''BTC'' img = Inr b \<and> active_orders b \<noteq> []"
proof -
  have es: "si_entries img = [(sample_order_key ORDER_CURRENT_NAMESPACE [], [2]),
      (sample_order_key ORDER_FACT_NAMESPACE (frame (str_bytes ''evt_00'')), [1]),
      (sample_order_key ORDER_TRANSITION_NAMESPACE (frame (str_bytes ''evt_00'')), [3])]"
    unfolding assms(2) by code_simp
  have ns: "sk_namespace (sample_order_key ns x) = ns" for ns x by (simp add: sample_order_key_def)
  define r where "r = \<lparr>ocr_order_id = ''o1'', ocr_account_id = replicate 20 7, ocr_market_id = ''BTC'', ocr_side = Buy,
       ocr_lifecycle = LifeAccepted, ocr_limit_price = \<lparr>raw = 100, scale = 0\<rparr>,
       ocr_accepted_quantity = \<lparr>raw = 5, scale = 0\<rparr>, ocr_filled_quantity = \<lparr>raw = 0, scale = 0\<rparr>,
       ocr_remaining_quantity = \<lparr>raw = 5, scale = 0\<rparr>, ocr_accepted_event_id = ''evt_00'',
       ocr_last_event_id = ''evt_00'', ocr_last_block_height = (1 :: u64)\<rparr>"
  have "is_trimmed ''o1''" "is_trimmed ''BTC''" "is_trimmed ''evt_00''" by code_simp+
  then have "current_storable sample_orders r"
    using sample_orders_ok sample_order_encode [folded r_def]
    by (simp add: current_storable_def r_def id_ok_def decimal_ok_def in_i128_def i128_max_def i128_min_def MAX_DECIMAL_SCALE_def)
  then have d: "current_decode sample_orders [2] = Inr r"
    by (rule current.decode_encode) (use sample_order_encode in \<open>simp add: r_def\<close>)
  obtain q where q: "try_resting r = Some q" "health (apply_snapshot 1 1 [q] (awaiting_snapshot ''BTC'' 1)) = Healthy"
    using sample_live_order unfolding r_def by blast
  have m: "ocr_market_id r = ''BTC''" by (simp add: r_def)
  have "rfold (project_entry sample_orders (sample_table []) ''BTC'') (si_entries img) ([], []) = Inr ([], [q])"
    unfolding es
    by (simp add: project_entry_def ns ORDER_CURRENT_NAMESPACE_def ORDER_FACT_NAMESPACE_def ORDER_TRANSITION_NAMESPACE_def d m q)
  moreover have "with_activation [] q = q" by (simp add: with_activation_def)
  ultimately have "project_l4_book sample_orders (sample_table []) ''BTC'' img = Inr (apply_snapshot 1 1 [q] (awaiting_snapshot ''BTC'' 1))"
    using assms(1) q(2) by (simp add: project_l4_book_def)
  moreover have "set (active_orders (apply_snapshot 1 1 [q] (awaiting_snapshot ''BTC'' 1))) = {q}"
    using snapshot_installs [OF q(2)] by simp
  ultimately show ?thesis by fastforce
qed



end
