(* ===== verification/Spec2Isabelle.thy ===== *)
theory Spec2Isabelle
  imports Execution_Quote L2_Reconcile L4_Reconstruct Commit_Pipeline L4_Projection
begin

text \<open>
  A verification library for the deterministic core of the alpha-desk market data system: the
  path from observed blocks over the sequencer and the canonical ledger to the state of orders,
  stake and rewards and to the order book. Paths below are relative to the source tree.

  \<^bold>\<open>The program.\<close> Sources deliver candidate blocks. The sequencer of
  \<^verbatim>\<open>services/hl-capture\<close> orders them by height, merges the evidence of several sources, waits for
  missing heights and commits a contiguous run. The ledger of \<^verbatim>\<open>crates/canonical-ledger\<close> applies
  a committed block by giving every event to a reducer, which answers with mutations of a map
  from keys to bytes; the map with its watermark is the state image, which is hashed and
  written out. The production reducer selects the components that own an event. The order
  book of \<^verbatim>\<open>crates/orderbook\<close> is kept from snapshots and diffs, or projected from the state.

  \<^bold>\<open>Foundations.\<close>
  \<^descr> \<open>Desk_Prelude\<close>: results (\<open>Inl\<close> is the error, \<open>Inr\<close> the value), their binds, folds and the
  collection \<open>result_simps\<close>; checked and saturating integers at their width.
  \<^descr> \<open>Byte_Frames\<close>: big-endian integers and length-prefixed frames; a concatenation of frames
  determines its parts.
  \<^descr> \<open>BTree_Map\<close>: ordered maps as sorted association lists over an arbitrary strict order, as
  an interface (locale \<open>key_order\<close>) interpreted for linear orders, decimals and book keys.
  \<^descr> \<open>Rust_Str\<close>, \<open>Codec_Library\<close>: trimming, UTF-8, control characters; the JSON and hex
  libraries as parameters with their laws.

  \<^bold>\<open>Values\<close> (\<^verbatim>\<open>crates/domain-types\<close>).
  \<^descr> \<open>Domain_Decimal\<close> (\<^verbatim>\<open>decimal.rs\<close>): fixed-point decimals as an i128 coefficient and a scale.
  Arithmetic is the rational result rounded in the given mode, with exactly the errors due;
  comparison agrees with the rational order; parsing and printing are inverse.
  \<^descr> \<open>Exact_Notional\<close> (\<^verbatim>\<open>decimal.rs\<close>): products of price and size without loss.
  \<^descr> \<open>Domain_Ids\<close> (\<^verbatim>\<open>ids.rs\<close>, \<^verbatim>\<open>shared.rs\<close>): identifiers, addresses and sides.

  \<^bold>\<open>Order book\<close> (\<^verbatim>\<open>crates/orderbook\<close>).
  \<^descr> \<open>Order_Book\<close> (\<^verbatim>\<open>book.rs\<close>): the state record \<open>order_book\<close>, snapshots and diffs. Every reachable
  book keeps its index and bounds; a diff refines its specification on the map of orders;
  the published levels are the exact sums.
  \<^descr> \<open>Book_Store\<close> (\<^verbatim>\<open>store.rs\<close>, \<^verbatim>\<open>checkpoint.rs\<close>): keys and wire records; checkpoints round trip.
  \<^descr> \<open>L4_Reconstruct\<close> (\<^verbatim>\<open>reconstruct.rs\<close>), \<open>L2_Reconcile\<close> (\<^verbatim>\<open>reconcile.rs\<close>), \<open>Execution_Quote\<close>
  (\<^verbatim>\<open>execution.rs\<close>): replay of diffs, comparison with published levels, and cost estimates.

  \<^bold>\<open>Events and blocks\<close> (\<^verbatim>\<open>crates/canonical-events\<close>, \<^verbatim>\<open>crates/hl-protocol\<close>).
  \<^descr> \<open>Source_Trust\<close> (\<^verbatim>\<open>trust.rs\<close>): which observations may advance the watermark.
  \<^descr> \<open>Canonical_Event\<close> (\<^verbatim>\<open>lib.rs\<close>, \<^verbatim>\<open>input.rs\<close>, \<^verbatim>\<open>event_id.rs\<close>) and \<open>Canonical_Block\<close> (\<^verbatim>\<open>block.rs\<close>):
  construction, identity and merging of evidence; the hashed bytes determine the content.

  \<^bold>\<open>Sequencing and the ledger.\<close>
  \<^descr> \<open>Sequencer\<close> (\<^verbatim>\<open>services/hl-capture/src/sequencer\<close>, \<^verbatim>\<open>quarantine.rs\<close>): \<open>observe\<close> as one function on the
  state record, runs as an inductive relation. Committed heights are consecutive, pending
  blocks are bounded, divergence latches, and a valid next block is committed at once.
  \<^descr> \<open>State_Image\<close> (\<^verbatim>\<open>state.rs\<close>) and \<open>Ledger\<close> (\<^verbatim>\<open>ledger.rs\<close>, \<^verbatim>\<open>reducer.rs\<close>, \<^verbatim>\<open>correction.rs\<close>): the canonical
  encoding is the only one accepted; a block is applied entirely or not at all, the state is
  the replay of all reported mutations, and a restart from the image recovers the ledger.
  \<^descr> \<open>Commit_Pipeline\<close>: the ledger never refuses the place of a block the sequencer committed.

  \<^bold>\<open>Reducers\<close> (\<^verbatim>\<open>crates/canonical-ledger\<close>).
  \<^descr> \<open>Record_Codec\<close> (\<^verbatim>\<open>record_codec.rs\<close>): framed keys and canonical JSON. The locales \<open>stored_record\<close> and
  \<open>canonical_record\<close> are the contract of a record type, \<open>reducer_history\<close> carries an invariant
  of a reducer along every ledger run; each record and reducer below interprets them.
  \<^descr> \<open>Opaque_Payload\<close> (\<^verbatim>\<open>opaque.rs\<close>, \<^verbatim>\<open>api-contracts/src/v1_1.rs\<close>): checked payload fields.
  \<^descr> \<open>Order_Records\<close>, \<open>Order_Reducer\<close>, \<open>Order_History\<close> (\<^verbatim>\<open>order.rs\<close>): the life cycle conserves
  quantities; the stored orders are the fold of an abstract step; the transitions form a
  chain of hashes; an event counts once.
  \<^descr> \<open>Staking\<close> (\<^verbatim>\<open>staking.rs\<close>), \<open>Validator\<close> (\<^verbatim>\<open>validator.rs\<close>): the stored credits and debits are the
  sums of the flows, so that stake is conserved and never negative.
  \<^descr> \<open>Composite\<close> (\<^verbatim>\<open>composite.rs\<close>): owner table, manifest and joining of mutations. The locale
  \<open>owned_history\<close> lifts the facts about one component to runs of the whole reducer.
  \<^descr> \<open>L4_Projection\<close> (\<^verbatim>\<open>composite.rs\<close>, \<^verbatim>\<open>trigger.rs\<close>): the projected book holds exactly the live orders.

  \<^bold>\<open>Bounds.\<close> No function uses fuel: loops are folds over lists or recursions with a measure (the
  drain of the sequencer by the number of pending blocks). Words keep their width; i128 is \<open>int\<close> with the range checked where the source checks it, and usize
  is \<open>nat\<close> with the 64-bit bound checked where the source uses checked arithmetic.

  \<^bold>\<open>Parameters.\<close> Hashes (blake3), hex, JSON, semantic versions and generated protobuf messages are
  arguments of the definitions. What is used of them is stated as hypotheses (\<open>hex_law\<close>,
  \<open>json_law\<close>, \<open>payload_library_ok\<close>) and concrete instances show that these can hold. Strings are
  byte strings. A failed memory reservation is not modelled.

  \<^bold>\<open>Not modelled.\<close> The account, vault, relationship, market, trade, position, trigger and TWAP
  reducers are arguments of the production reducer; its theorems ask of them only that they
  write outside the namespaces of the modelled components. The mapping from the node's feed,
  the archive, storage adapters, protocol adapters, services, tools and user interfaces are
  input and output around this core; the analytics crates compute with floating point.
\<close>

end
